(* ===== verification/Prelude.thy ===== *)
theory Prelude
  imports Main "HOL-Library.Word" "HOL-Library.Finite_Map" "HOL-Library.List_Lexorder"
begin

text \<open>
  Shared vocabulary of the development: the fixed-width integers and byte strings of the Go code,
  its error values, the Go slice primitives the components use (\<open>copy\<close>, \<open>append\<close>,
  \<open>sort.Search\<close>), and the list, map and word lemmas several components need.
\<close>

section \<open>Types\<close>

type_synonym u8 = "8 word"
type_synonym u16 = "16 word"
type_synonym u32 = "32 word"
type_synonym u64 = "64 word"
type_synonym byte = "8 word"
type_synonym bytes = "8 word list"
type_synonym address = bytes
type_synonym hash256 = bytes
type_synonym public_hash = bytes
type_synonym public_key = bytes
type_synonym signature = bytes

text \<open>
  Error values. \<open>Err p m\<close> is the error variable of package \<open>p\<close> made by \<open>errors.New(m)\<close>;
  \<open>Panic\<close> is a Go run-time panic (an index out of range, a division by zero, a failed type assertion,
  an explicit \<open>panic\<close>); \<open>LibError\<close> is an error value made by code outside the repository.
\<close>

datatype error = Panic | LibError nat | Err string string

paragraph \<open>common/amount/errors.go\<close>

abbreviation ErrInvalidAmountFormat :: error where "ErrInvalidAmountFormat \<equiv> Err ''amount'' ''invalid amount format''"

paragraph \<open>common/errors.go\<close>

abbreviation ErrInvalidAddressFormat :: error where "ErrInvalidAddressFormat \<equiv> Err ''common'' ''invalid address format''"
abbreviation ErrInvalidAddressCheckSum :: error where "ErrInvalidAddressCheckSum \<equiv> Err ''common'' ''invalid address checksum''"
abbreviation ErrInvalidSignatureFormat :: error where "ErrInvalidSignatureFormat \<equiv> Err ''common'' ''invalid signature format''"
abbreviation ErrInvalidSignature :: error where "ErrInvalidSignature \<equiv> Err ''common'' ''invalid signature''"
abbreviation ErrInvalidPublicKeyFormat :: error where "ErrInvalidPublicKeyFormat \<equiv> Err ''common'' ''invalid public key format''"
abbreviation ErrInvalidPublicHash :: error where "ErrInvalidPublicHash \<equiv> Err ''common'' ''invalid public hash''"
abbreviation ErrInvalidPublicHashFormat :: error where "ErrInvalidPublicHashFormat \<equiv> Err ''common'' ''invalid public hash format''"
abbreviation ErrInsufficientSignature :: error where "ErrInsufficientSignature \<equiv> Err ''common'' ''insufficient signature''"
abbreviation ErrDuplicatedSignature :: error where "ErrDuplicatedSignature \<equiv> Err ''common'' ''duplicated signature''"

paragraph \<open>common/hash/errors.go\<close>

abbreviation ErrInvalidHashSize :: error where "ErrInvalidHashSize \<equiv> Err ''hash'' ''invalid hash size''"
abbreviation ErrInvalidHashFormat :: error where "ErrInvalidHashFormat \<equiv> Err ''hash'' ''invalid hash format''"

paragraph \<open>common/factory/errors.go\<close>

abbreviation ErrExistType :: error where "ErrExistType \<equiv> Err ''factory'' ''exist type''"
abbreviation ErrExistTypeName :: error where "ErrExistTypeName \<equiv> Err ''factory'' ''exist type name''"
abbreviation ErrUnknownType :: error where "ErrUnknownType \<equiv> Err ''factory'' ''unknown type''"

paragraph \<open>core/types/errors.go\<close>

abbreviation ErrInvalidAccountName :: error where "ErrInvalidAccountName \<equiv> Err ''types'' ''invalid account name''"
abbreviation ErrInvalidAccountType :: error where "ErrInvalidAccountType \<equiv> Err ''types'' ''invalid account type''"
abbreviation ErrExistAddress :: error where "ErrExistAddress \<equiv> Err ''types'' ''exist address''"
abbreviation ErrExistAccount :: error where "ErrExistAccount \<equiv> Err ''types'' ''exist account''"
abbreviation ErrExistAccountName :: error where "ErrExistAccountName \<equiv> Err ''types'' ''exist account name''"
abbreviation ErrNotExistAccount :: error where "ErrNotExistAccount \<equiv> Err ''types'' ''not exist account''"
abbreviation ErrDeletedAccount :: error where "ErrDeletedAccount \<equiv> Err ''types'' ''deleted account''"
abbreviation ErrInvalidProcess :: error where "ErrInvalidProcess \<equiv> Err ''types'' ''invalid process''"
abbreviation ErrExistProcessName :: error where "ErrExistProcessName \<equiv> Err ''types'' ''exist process name''"
abbreviation ErrExistProcessID :: error where "ErrExistProcessID \<equiv> Err ''types'' ''exist process id''"
abbreviation ErrNotExistProcess :: error where "ErrNotExistProcess \<equiv> Err ''types'' ''not exist process''"
abbreviation ErrExistUTXO :: error where "ErrExistUTXO \<equiv> Err ''types'' ''exist utxo''"
abbreviation ErrNotExistUTXO :: error where "ErrNotExistUTXO \<equiv> Err ''types'' ''not exist utxo''"
abbreviation ErrUsedUTXO :: error where "ErrUsedUTXO \<equiv> Err ''types'' ''used utxo''"
abbreviation ErrInvalidSequence :: error where "ErrInvalidSequence \<equiv> Err ''types'' ''invalid sequence''"
abbreviation ErrInvalidTransactionCount :: error where "ErrInvalidTransactionCount \<equiv> Err ''types'' ''invalid transaction count''"
abbreviation ErrNotAllowedZeroAddressAccount :: error where "ErrNotAllowedZeroAddressAccount \<equiv> Err ''types'' ''not allowed zero address account''"
abbreviation ErrNotAllowedAddressAccountName :: error where "ErrNotAllowedAddressAccountName \<equiv> Err ''types'' ''not allowed address account name''"
abbreviation ErrInvalidAddressHeight :: error where "ErrInvalidAddressHeight \<equiv> Err ''types'' ''invalid address height''"
abbreviation ErrInvalidSignerCount :: error where "ErrInvalidSignerCount \<equiv> Err ''types'' ''invalid signer count''"
abbreviation ErrInvalidAccountSigner :: error where "ErrInvalidAccountSigner \<equiv> Err ''types'' ''invalid account signer''"
abbreviation ErrInvalidUTXOSigner :: error where "ErrInvalidUTXOSigner \<equiv> Err ''types'' ''invalid utxo signer''"
abbreviation ErrInvalidTxInCount :: error where "ErrInvalidTxInCount \<equiv> Err ''types'' ''invalid tx in count''"
abbreviation ErrInvalidOutputAmount :: error where "ErrInvalidOutputAmount \<equiv> Err ''types'' ''invalid output amount''"
abbreviation ErrDustAmount :: error where "ErrDustAmount \<equiv> Err ''types'' ''dust amount''"
abbreviation ErrInvalidTransactionIDFormat :: error where "ErrInvalidTransactionIDFormat \<equiv> Err ''types'' ''invalid transaction id format''"

paragraph \<open>core/chain/errors.go\<close>

abbreviation ErrExistServiceName :: error where "ErrExistServiceName \<equiv> Err ''chain'' ''exist service name''"
abbreviation ErrExistServiceID :: error where "ErrExistServiceID \<equiv> Err ''chain'' ''exist service id''"
abbreviation ErrNotExistService :: error where "ErrNotExistService \<equiv> Err ''chain'' ''not exist service''"
abbreviation ErrInvalidChainID :: error where "ErrInvalidChainID \<equiv> Err ''chain'' ''invalid chain id''"
abbreviation ErrInvalidVersion :: error where "ErrInvalidVersion \<equiv> Err ''chain'' ''invalid version''"
abbreviation ErrInvalidHeight :: error where "ErrInvalidHeight \<equiv> Err ''chain'' ''invalid height''"
abbreviation ErrInvalidPrevHash :: error where "ErrInvalidPrevHash \<equiv> Err ''chain'' ''invalid prev hash''"
abbreviation ErrInvalidContextHash :: error where "ErrInvalidContextHash \<equiv> Err ''chain'' ''invalid context hash''"
abbreviation ErrInvalidLevelRootHash :: error where "ErrInvalidLevelRootHash \<equiv> Err ''chain'' ''invalid level root hash''"
abbreviation ErrInvalidTimestamp :: error where "ErrInvalidTimestamp \<equiv> Err ''chain'' ''invalid timestamp''"
abbreviation ErrInvalidGenerator :: error where "ErrInvalidGenerator \<equiv> Err ''chain'' ''invalid generator''"
abbreviation ErrExceedHashCount :: error where "ErrExceedHashCount \<equiv> Err ''chain'' ''exceed hash count''"
abbreviation ErrInvalidHashCount :: error where "ErrInvalidHashCount \<equiv> Err ''chain'' ''invalid hash count''"
abbreviation ErrInvalidGenesisHash :: error where "ErrInvalidGenesisHash \<equiv> Err ''chain'' ''invalid genesis hash''"
abbreviation ErrInvalidTxInKey :: error where "ErrInvalidTxInKey \<equiv> Err ''chain'' ''invalid txin key''"
abbreviation ErrInvalidResult :: error where "ErrInvalidResult \<equiv> Err ''chain'' ''invalid result''"
abbreviation ErrChainClosed :: error where "ErrChainClosed \<equiv> Err ''chain'' ''chain closed''"
abbreviation ErrStoreClosed :: error where "ErrStoreClosed \<equiv> Err ''chain'' ''store closed''"
abbreviation ErrAlreadyGenesised :: error where "ErrAlreadyGenesised \<equiv> Err ''chain'' ''already genesised''"
abbreviation ErrDirtyContext :: error where "ErrDirtyContext \<equiv> Err ''chain'' ''dirty context''"
abbreviation ErrReservedID :: error where "ErrReservedID \<equiv> Err ''chain'' ''reserved id''"
abbreviation ErrAddBeforeChainInit :: error where "ErrAddBeforeChainInit \<equiv> Err ''chain'' ''add before chain init''"
abbreviation ErrApplicationIDMustBe255 :: error where "ErrApplicationIDMustBe255 \<equiv> Err ''chain'' ''application id must be 255''"
abbreviation ErrFoundForkedBlock :: error where "ErrFoundForkedBlock \<equiv> Err ''chain'' ''found forked block''"
abbreviation ErrCannotDeleteGeneratorAccount :: error where "ErrCannotDeleteGeneratorAccount \<equiv> Err ''chain'' ''cannot delete generator account''"
abbreviation ErrInvalidAccountName_chain :: error where "ErrInvalidAccountName_chain \<equiv> Err ''chain'' ''invalid account name''"

paragraph \<open>core/backend/errors.go\<close>

abbreviation ErrNotExistDriver :: error where "ErrNotExistDriver \<equiv> Err ''backend'' ''not exist driver''"
abbreviation ErrNotExistKey :: error where "ErrNotExistKey \<equiv> Err ''backend'' ''not exist key''"

paragraph \<open>core/pile/errors.go\<close>

abbreviation ErrInvalidChunkBeginHeight :: error where "ErrInvalidChunkBeginHeight \<equiv> Err ''pile'' ''invalid chunk begin height''"
abbreviation ErrInvalidChunkEndHeight :: error where "ErrInvalidChunkEndHeight \<equiv> Err ''pile'' ''invalid chunk end height''"
abbreviation ErrInvalidAppendHeight :: error where "ErrInvalidAppendHeight \<equiv> Err ''pile'' ''invalid append height''"
abbreviation ErrInvalidHeight_pile :: error where "ErrInvalidHeight_pile \<equiv> Err ''pile'' ''invalid height''"
abbreviation ErrInvalidFileSize :: error where "ErrInvalidFileSize \<equiv> Err ''pile'' ''invalid file size''"
abbreviation ErrInvalidGenesisHash_pile :: error where "ErrInvalidGenesisHash_pile \<equiv> Err ''pile'' ''invalid genesis hash''"
abbreviation ErrInvalidDataIndex :: error where "ErrInvalidDataIndex \<equiv> Err ''pile'' ''invalid data index''"
abbreviation ErrMissingPile :: error where "ErrMissingPile \<equiv> Err ''pile'' ''invalid missing pile''"
abbreviation ErrAlreadyInitialized :: error where "ErrAlreadyInitialized \<equiv> Err ''pile'' ''already initialized''"
abbreviation ErrExeedMaximumDataArrayLength :: error where "ErrExeedMaximumDataArrayLength \<equiv> Err ''pile'' ''exceed maximum data array length''"
abbreviation ErrHeightCrashed :: error where "ErrHeightCrashed \<equiv> Err ''pile'' ''height crashed''"

paragraph \<open>core/txpool/errors.go\<close>

abbreviation ErrEmptyQueue :: error where "ErrEmptyQueue \<equiv> Err ''txpool'' ''empty queue''"
abbreviation ErrNotAccountTransaction :: error where "ErrNotAccountTransaction \<equiv> Err ''txpool'' ''not account transaction''"
abbreviation ErrExistTransaction :: error where "ErrExistTransaction \<equiv> Err ''txpool'' ''exist transaction''"
abbreviation ErrExistTransactionSeq :: error where "ErrExistTransactionSeq \<equiv> Err ''txpool'' ''exist transaction seq''"
abbreviation ErrTransactionPoolOverflowed :: error where "ErrTransactionPoolOverflowed \<equiv> Err ''txpool'' ''transaction pool overflowed''"
abbreviation ErrPastSeq :: error where "ErrPastSeq \<equiv> Err ''txpool'' ''past seq''"
abbreviation ErrTooFarSeq :: error where "ErrTooFarSeq \<equiv> Err ''txpool'' ''too far seq''"

paragraph \<open>process/admin/errors.go\<close>

abbreviation ErrInvalidAdminAddress :: error where "ErrInvalidAdminAddress \<equiv> Err ''admin'' ''invalid admin address''"
abbreviation ErrUnauthorizedTransaction :: error where "ErrUnauthorizedTransaction \<equiv> Err ''admin'' ''unauthorized transaction''"
abbreviation ErrNotExistAdminAddress :: error where "ErrNotExistAdminAddress \<equiv> Err ''admin'' ''not exist admin address''"

paragraph \<open>process/vault/errors.go\<close>

abbreviation ErrMinusInput :: error where "ErrMinusInput \<equiv> Err ''vault'' ''minus input''"
abbreviation ErrMinusBalance :: error where "ErrMinusBalance \<equiv> Err ''vault'' ''minus balance''"
abbreviation ErrMinusCollectedFee :: error where "ErrMinusCollectedFee \<equiv> Err ''vault'' ''minus collected fee''"
abbreviation ErrInvalidMultiKeyHashCount :: error where "ErrInvalidMultiKeyHashCount \<equiv> Err ''vault'' ''invalid multi key hash count''"
abbreviation ErrInvalidRequiredKeyHashCount :: error where "ErrInvalidRequiredKeyHashCount \<equiv> Err ''vault'' ''invalid required key hash count''"
abbreviation ErrInvalidLockedBalanceKey :: error where "ErrInvalidLockedBalanceKey \<equiv> Err ''vault'' ''invalid locked balance key''"
abbreviation ErrInvalidPolicy :: error where "ErrInvalidPolicy \<equiv> Err ''vault'' ''invalid policy''"
abbreviation ErrInsufficientFee :: error where "ErrInsufficientFee \<equiv> Err ''vault'' ''insufficient fee''"
abbreviation ErrInsufficientBalance :: error where "ErrInsufficientBalance \<equiv> Err ''vault'' ''insufficient balance''"
abbreviation ErrNotExistFeeOfTransaction :: error where "ErrNotExistFeeOfTransaction \<equiv> Err ''vault'' ''not exist fee of transaction''"
abbreviation ErrPolicyShouldBeSetupInApplication :: error where "ErrPolicyShouldBeSetupInApplication \<equiv> Err ''vault'' ''policy should be setup in application''"

paragraph \<open>pof/errors.go\<close>

abbreviation ErrInsufficientCandidateCount :: error where "ErrInsufficientCandidateCount \<equiv> Err ''pof'' ''insufficient candidate count''"
abbreviation ErrExceedCandidateCount :: error where "ErrExceedCandidateCount \<equiv> Err ''pof'' ''exceed candidate count''"
abbreviation ErrInvalidMaxBlocksPerFormulator :: error where "ErrInvalidMaxBlocksPerFormulator \<equiv> Err ''pof'' ''invalid max blocks per formulator''"
abbreviation ErrInvalidObserverKey :: error where "ErrInvalidObserverKey \<equiv> Err ''pof'' ''invalid observer key''"
abbreviation ErrInvalidTopAddress :: error where "ErrInvalidTopAddress \<equiv> Err ''pof'' ''invalid top address''"
abbreviation ErrInvalidTopSignature :: error where "ErrInvalidTopSignature \<equiv> Err ''pof'' ''invalid top signature''"
abbreviation ErrInvalidSignatureCount :: error where "ErrInvalidSignatureCount \<equiv> Err ''pof'' ''invalid signature count''"
abbreviation ErrInvalidPhase :: error where "ErrInvalidPhase \<equiv> Err ''pof'' ''invalid phase''"
abbreviation ErrExistAddress_pof :: error where "ErrExistAddress_pof \<equiv> Err ''pof'' ''exist address''"
abbreviation ErrFoundForkedBlockGen :: error where "ErrFoundForkedBlockGen \<equiv> Err ''pof'' ''found forked block gen''"
abbreviation ErrInvalidVote :: error where "ErrInvalidVote \<equiv> Err ''pof'' ''invalid vote''"
abbreviation ErrInvalidRoundState :: error where "ErrInvalidRoundState \<equiv> Err ''pof'' ''invalid round state''"
abbreviation ErrInvalidRequest :: error where "ErrInvalidRequest \<equiv> Err ''pof'' ''invalid request''"
abbreviation ErrAlreadyVoted :: error where "ErrAlreadyVoted \<equiv> Err ''pof'' ''already voted''"
abbreviation ErrNotExistObserverPeer :: error where "ErrNotExistObserverPeer \<equiv> Err ''pof'' ''not exist observer peer''"
abbreviation ErrNotExistFormulatorPeer :: error where "ErrNotExistFormulatorPeer \<equiv> Err ''pof'' ''not exist formulator peer''"

abbreviation ErrFullQueue :: error where "ErrFullQueue \<equiv> Err ''queue'' ''full queue''"

type_synonym 'a res = "error + 'a"

text \<open>Rewrite rules that open a sequence of fallible steps.\<close>

named_theorems res_simps

primrec bind_res :: "'a res \<Rightarrow> ('a \<Rightarrow> 'b res) \<Rightarrow> 'b res" where
  "bind_res (Inl e) f = Inl e"
| "bind_res (Inr x) f = f x"

lemma bind_res_Inr_iff [res_simps]:
  "bind_res m f = Inr y \<longleftrightarrow> (\<exists>x. m = Inr x \<and> f x = Inr y)"
  by (cases m) auto

lemma bind_res_Inl_iff [res_simps]:
  "bind_res m f = Inl e \<longleftrightarrow> m = Inl e \<or> (\<exists>x. m = Inr x \<and> f x = Inl e)"
  by (cases m) auto

section \<open>Go slices\<close>

text \<open>
  \<open>copy(dst, src)\<close> copies as many elements as both slices have, with the meaning of a move when
  the two slices overlap; \<open>copy_at i src dst\<close> is \<open>copy(dst[i:], src)\<close>.
\<close>

definition go_copy :: "'a list \<Rightarrow> 'a list \<Rightarrow> 'a list" where
  "go_copy dst src = take (length dst) src @ drop (length src) dst"

definition copy_at :: "nat \<Rightarrow> 'a list \<Rightarrow> 'a list \<Rightarrow> 'a list" where
  "copy_at i src dst = take i dst @ go_copy (drop i dst) src"

definition slice :: "nat \<Rightarrow> nat \<Rightarrow> 'a list \<Rightarrow> 'a list" where
  "slice i j xs = take (j - i) (drop i xs)"

lemma length_go_copy [simp]: "length (go_copy dst src) = length dst"
  by (simp add: go_copy_def)

lemma length_copy_at [simp]: "i \<le> length dst \<Longrightarrow> length (copy_at i src dst) = length dst"
  by (simp add: copy_at_def)

lemma go_copy_all: "length src = length dst \<Longrightarrow> go_copy dst src = src"
  by (simp add: go_copy_def)

lemma go_copy_prefix: "length src \<le> length dst \<Longrightarrow> go_copy dst src = src @ drop (length src) dst"
  by (simp add: go_copy_def)

lemma go_copy_le: "length dst \<le> length src \<Longrightarrow> go_copy dst src = take (length dst) src"
  by (simp add: go_copy_def)

lemma length_slice [simp]: "j \<le> length xs \<Longrightarrow> length (slice i j xs) = j - i"
  by (simp add: slice_def)

lemma slice_split: "i \<le> j \<Longrightarrow> xs = take i xs @ slice i j xs @ drop j xs"
proof -
  assume "i \<le> j"
  then have "drop j xs = drop (j - i) (drop i xs)" by simp
  then show ?thesis by (simp only: slice_def append_take_drop_id)
qed

section \<open>Binary search\<close>

text \<open>The loop of Go's \<open>sort.Search(n, f)\<close>: \<open>i\<close> and \<open>j\<close> bracket the answer.\<close>

function search_loop :: "(nat \<Rightarrow> bool) \<Rightarrow> nat \<Rightarrow> nat \<Rightarrow> nat" where
  "search_loop f i j =
     (if i < j then (let h = (i + j) div 2 in if \<not> f h then search_loop f (h + 1) j else search_loop f i h)
      else i)"
  by pat_completeness auto
termination
  by (relation "measure (\<lambda>(f, i, j). j - i)") auto

declare search_loop.simps [simp del]

definition sort_Search :: "nat \<Rightarrow> (nat \<Rightarrow> bool) \<Rightarrow> nat" where
  "sort_Search n f = search_loop f 0 n"

definition upward :: "nat \<Rightarrow> (nat \<Rightarrow> bool) \<Rightarrow> bool" where
  "upward n f \<longleftrightarrow> (\<forall>i j. i \<le> j \<longrightarrow> j < n \<longrightarrow> f i \<longrightarrow> f j)"

lemma upwardD: "upward n f \<Longrightarrow> i \<le> j \<Longrightarrow> j < n \<Longrightarrow> f i \<Longrightarrow> f j"
  unfolding upward_def by blast

definition bracketed :: "nat \<Rightarrow> (nat \<Rightarrow> bool) \<Rightarrow> nat \<Rightarrow> nat \<Rightarrow> bool" where
  "bracketed n f i j \<longleftrightarrow> i \<le> j \<and> j \<le> n \<and> (\<forall>k<i. \<not> f k) \<and> (\<forall>k. j \<le> k \<and> k < n \<longrightarrow> f k)"

lemma bracketed_lower:
  assumes "upward n f" "bracketed n f i j" "h < j" "f h" "i \<le> h"
  shows "bracketed n f i h"
proof -
  have "f k" if "h \<le> k" "k < n" for k
    using upwardD [OF assms(1) that assms(4)] .
  with assms(2,3,5) show ?thesis unfolding bracketed_def by (blast intro: less_imp_le le_trans)
qed

lemma bracketed_raise:
  assumes "upward n f" "bracketed n f i j" "h < j" "\<not> f h"
  shows "bracketed n f (h + 1) j"
proof -
  have "h < n" using assms(2,3) by (simp add: bracketed_def)
  have "\<not> f k" if "k < h + 1" for k
  proof
    assume "f k"
    moreover have "k \<le> h" using that by simp
    ultimately have "f h" using upwardD [OF assms(1) _ \<open>h < n\<close>] by blast
    with assms(4) show False ..
  qed
  then show ?thesis using assms(2,3) by (simp add: bracketed_def)
qed

lemma search_loop_spec:
  "upward n f \<Longrightarrow> bracketed n f i j \<Longrightarrow> bracketed n f (search_loop f i j) (search_loop f i j)"
proof (induction f i j rule: search_loop.induct)
  case (1 f i j)
  show ?case
  proof (cases "i < j")
    case False
    then have "search_loop f i j = i" by (subst search_loop.simps) simp
    moreover have "i = j" using False "1.prems"(2) by (simp add: bracketed_def)
    ultimately show ?thesis using "1.prems"(2) by simp
  next
    case True
    define h where "h = (i + j) div 2"
    have hb: "i \<le> h" "h < j" using True by (auto simp: h_def)
    show ?thesis
    proof (cases "f h")
      case True
      then have "search_loop f i j = search_loop f i h"
        using \<open>i < j\<close> by (subst search_loop.simps) (simp add: h_def Let_def)
      then show ?thesis
        using "1.IH"(2) [OF \<open>i < j\<close> h_def _ "1.prems"(1) bracketed_lower [OF "1.prems" hb(2) True hb(1)]] True
        by simp
    next
      case False
      then have "search_loop f i j = search_loop f (h + 1) j"
        using \<open>i < j\<close> by (subst search_loop.simps) (simp add: h_def Let_def)
      then show ?thesis
        using "1.IH"(1) [OF \<open>i < j\<close> h_def False "1.prems"(1) bracketed_raise [OF "1.prems" hb(2) False]]
        by simp
    qed
  qed
qed

lemma sort_Search_spec:
  assumes "upward n f"
  shows "sort_Search n f \<le> n" "k < sort_Search n f \<Longrightarrow> \<not> f k"
    "sort_Search n f \<le> k \<Longrightarrow> k < n \<Longrightarrow> f k"
proof -
  have "bracketed n f 0 n" by (auto simp: bracketed_def)
  then have "bracketed n f (sort_Search n f) (sort_Search n f)"
    unfolding sort_Search_def by (rule search_loop_spec [OF assms])
  then show "sort_Search n f \<le> n" "k < sort_Search n f \<Longrightarrow> \<not> f k"
    "sort_Search n f \<le> k \<Longrightarrow> k < n \<Longrightarrow> f k"
    unfolding bracketed_def by blast+
qed

end
