(* ===== verification/Codec.thy ===== *)
theory Codec
  imports Prelude
begin

text \<open>
  Fixed-width encodings: \<open>common/util/util_convert.go\<close> (little-endian integers), the big-endian
  integers of \<open>encoding/binary\<close>, hexadecimal text, the packed identifiers of
  \<open>core/types/util.go\<close>, and the 14-byte account addresses of \<open>common/address.go\<close>.
\<close>

unbundle bit_operations_syntax

section \<open>Positional byte encodings\<close>

primrec nat_to_le :: "nat \<Rightarrow> nat \<Rightarrow> bytes" where
  "nat_to_le 0 x = []"
| "nat_to_le (Suc n) x = word_of_nat (x mod 256) # nat_to_le n (x div 256)"

primrec le_to_nat :: "bytes \<Rightarrow> nat" where
  "le_to_nat [] = 0"
| "le_to_nat (b # bs) = unat b + 256 * le_to_nat bs"

lemma length_nat_to_le [simp]: "length (nat_to_le n x) = n"
  by (induction n arbitrary: x) auto

lemma unat_byte_lt: "unat (b :: byte) < 256"
  using unsigned_less [of b] by simp

lemma unat_of_nat_byte: "unat (word_of_nat (x mod 256) :: byte) = x mod 256"
  by (simp add: unat_of_nat)

lemma le_to_nat_nat_to_le: "le_to_nat (nat_to_le n x) = x mod 256 ^ n"
proof (induction n arbitrary: x)
  case 0
  then show ?case by simp
next
  case (Suc n)
  have "x mod (256 * 256 ^ n) = 256 * (x div 256 mod 256 ^ n) + x mod 256"
    by (rule mod_mult2_eq)
  then show ?case by (simp add: Suc.IH unat_of_nat)
qed

lemma nat_to_le_le_to_nat: "nat_to_le (length bs) (le_to_nat bs) = bs"
proof (induction bs)
  case Nil
  then show ?case by simp
next
  case (Cons b bs)
  have "(unat b + 256 * le_to_nat bs) mod 256 = unat b"
    using unat_byte_lt [of b] by simp
  moreover have "(unat b + 256 * le_to_nat bs) div 256 = le_to_nat bs"
    using unat_byte_lt [of b] by simp
  ultimately show ?case by (simp add: Cons.IH)
qed

lemma le_to_nat_bound: "le_to_nat bs < 256 ^ length bs"
  by (metis le_to_nat_nat_to_le mod_less_divisor nat_to_le_le_to_nat zero_less_numeral zero_less_power)

lemma le_to_nat_inj: "length as = length bs \<Longrightarrow> le_to_nat as = le_to_nat bs \<Longrightarrow> as = bs"
  by (metis nat_to_le_le_to_nat)

definition nat_to_be :: "nat \<Rightarrow> nat \<Rightarrow> bytes" where
  "nat_to_be n x = rev (nat_to_le n x)"

definition be_to_nat :: "bytes \<Rightarrow> nat" where
  "be_to_nat bs = le_to_nat (rev bs)"

lemma length_nat_to_be [simp]: "length (nat_to_be n x) = n"
  by (simp add: nat_to_be_def)

lemma be_to_nat_nat_to_be: "be_to_nat (nat_to_be n x) = x mod 256 ^ n"
  by (simp add: be_to_nat_def nat_to_be_def le_to_nat_nat_to_le)

lemma nat_to_be_be_to_nat: "length bs = n \<Longrightarrow> nat_to_be n (be_to_nat bs) = bs"
  by (metis be_to_nat_def length_rev nat_to_be_def nat_to_le_le_to_nat rev_rev_ident)

lemma nat_to_be_inj: "nat_to_be n x = nat_to_be n y \<Longrightarrow> x < 256 ^ n \<Longrightarrow> y < 256 ^ n \<Longrightarrow> x = y"
  by (metis be_to_nat_nat_to_be mod_less)

lemma nat_to_le_inj: "nat_to_le n x = nat_to_le n y \<Longrightarrow> x < 256 ^ n \<Longrightarrow> y < 256 ^ n \<Longrightarrow> x = y"
  by (metis le_to_nat_nat_to_le mod_less)

section \<open>util\_convert.go\<close>

text \<open>
  The readers index the first bytes of the slice: a shorter slice is an index-out-of-range panic,
  and bytes past the width are ignored.
\<close>

definition Uint64ToBytes :: "u64 \<Rightarrow> bytes" where
  "Uint64ToBytes v = nat_to_le 8 (unat v)"

definition Uint32ToBytes :: "u32 \<Rightarrow> bytes" where
  "Uint32ToBytes v = nat_to_le 4 (unat v)"

definition Uint16ToBytes :: "u16 \<Rightarrow> bytes" where
  "Uint16ToBytes v = nat_to_le 2 (unat v)"

definition BytesToUint16 :: "bytes \<Rightarrow> u16 res" where
  "BytesToUint16 v = (if length v < 2 then Inl Panic else Inr (word_of_nat (le_to_nat (take 2 v))))"

definition BytesToUint32 :: "bytes \<Rightarrow> u32 res" where
  "BytesToUint32 v = (if length v < 4 then Inl Panic else Inr (word_of_nat (le_to_nat (take 4 v))))"

definition BytesToUint64 :: "bytes \<Rightarrow> u64 res" where
  "BytesToUint64 v = (if length v < 8 then Inl Panic else Inr (word_of_nat (le_to_nat (take 8 v))))"

lemma length_UintToBytes [simp]:
  "length (Uint64ToBytes a) = 8" "length (Uint32ToBytes b) = 4" "length (Uint16ToBytes c) = 2"
  by (simp_all add: Uint64ToBytes_def Uint32ToBytes_def Uint16ToBytes_def)

lemma unat_lt_widths:
  "unat (a :: u64) < 256 ^ 8" "unat (b :: u32) < 256 ^ 4" "unat (c :: u16) < 256 ^ 2"
  using unsigned_less [of a] unsigned_less [of b] unsigned_less [of c] by simp_all

lemma BytesToUint16_ToBytes: "BytesToUint16 (Uint16ToBytes v @ r) = Inr v"
  using unat_lt_widths(3) [of v]
  by (simp add: BytesToUint16_def Uint16ToBytes_def le_to_nat_nat_to_le)

lemma BytesToUint32_ToBytes: "BytesToUint32 (Uint32ToBytes v @ r) = Inr v"
  using unat_lt_widths(2) [of v]
  by (simp add: BytesToUint32_def Uint32ToBytes_def le_to_nat_nat_to_le)

lemma BytesToUint64_ToBytes: "BytesToUint64 (Uint64ToBytes v @ r) = Inr v"
  using unat_lt_widths(1) [of v]
  by (simp add: BytesToUint64_def Uint64ToBytes_def le_to_nat_nat_to_le)

lemmas Bytes_Uint_roundtrip [simp] =
  BytesToUint16_ToBytes BytesToUint32_ToBytes BytesToUint64_ToBytes
  BytesToUint16_ToBytes [where r = "[]", simplified]
  BytesToUint32_ToBytes [where r = "[]", simplified]
  BytesToUint64_ToBytes [where r = "[]", simplified]

text \<open>\<open>binary.BigEndian.PutUintNN\<close> and \<open>binary.BigEndian.UintNN\<close>.\<close>

definition be16 :: "u16 \<Rightarrow> bytes" where "be16 v = nat_to_be 2 (unat v)"
definition be32 :: "u32 \<Rightarrow> bytes" where "be32 v = nat_to_be 4 (unat v)"
definition be64 :: "u64 \<Rightarrow> bytes" where "be64 v = nat_to_be 8 (unat v)"

definition of_be16 :: "bytes \<Rightarrow> u16 res" where
  "of_be16 v = (if length v < 2 then Inl Panic else Inr (word_of_nat (be_to_nat (take 2 v))))"

definition of_be32 :: "bytes \<Rightarrow> u32 res" where
  "of_be32 v = (if length v < 4 then Inl Panic else Inr (word_of_nat (be_to_nat (take 4 v))))"

definition of_be64 :: "bytes \<Rightarrow> u64 res" where
  "of_be64 v = (if length v < 8 then Inl Panic else Inr (word_of_nat (be_to_nat (take 8 v))))"

lemma length_be [simp]: "length (be16 a) = 2" "length (be32 b) = 4" "length (be64 c) = 8"
  by (simp_all add: be16_def be32_def be64_def)

lemma of_be16_be16 [simp]: "of_be16 (be16 v @ r) = Inr v"
  using unat_lt_widths(3) [of v] by (simp add: of_be16_def be16_def be_to_nat_nat_to_be)

lemma of_be32_be32 [simp]: "of_be32 (be32 v @ r) = Inr v"
  using unat_lt_widths(2) [of v] by (simp add: of_be32_def be32_def be_to_nat_nat_to_be)

lemma of_be64_be64 [simp]: "of_be64 (be64 v @ r) = Inr v"
  using unat_lt_widths(1) [of v] by (simp add: of_be64_def be64_def be_to_nat_nat_to_be)

lemma be_inject [simp]:
  "be16 a = be16 a' \<longleftrightarrow> a = a'" "be32 b = be32 b' \<longleftrightarrow> b = b'" "be64 c = be64 c' \<longleftrightarrow> c = c'"
  by (metis of_be16_be16 sum.inject(2), metis of_be32_be32 sum.inject(2),
      metis of_be64_be64 sum.inject(2))

section \<open>Hexadecimal text\<close>

text \<open>\<open>hex.EncodeToString\<close> writes lower-case digits; \<open>hex.DecodeString\<close> accepts both cases.\<close>

definition hex_digit :: "nat \<Rightarrow> char" where
  "hex_digit n = (''0123456789abcdef'' ! n)"

definition hex_value :: "char \<Rightarrow> nat option" where
  "hex_value c =
     (let n = of_char c :: nat in
      if 48 \<le> n \<and> n \<le> 57 then Some (n - 48)
      else if 97 \<le> n \<and> n \<le> 102 then Some (n - 87)
      else if 65 \<le> n \<and> n \<le> 70 then Some (n - 55) else None)"

primrec hex_encode :: "bytes \<Rightarrow> string" where
  "hex_encode [] = []"
| "hex_encode (b # bs) = hex_digit (unat b div 16) # hex_digit (unat b mod 16) # hex_encode bs"

fun hex_decode :: "string \<Rightarrow> bytes res" where
  "hex_decode [] = Inr []"
| "hex_decode [c] = Inl (LibError 1)"
| "hex_decode (c # d # cs) =
     (case (hex_value c, hex_value d) of
        (Some x, Some y) \<Rightarrow> bind_res (hex_decode cs) (\<lambda>bs. Inr (word_of_nat (16 * x + y) # bs))
      | _ \<Rightarrow> Inl (LibError 2))"

lemma hex_value_digit: "n < 16 \<Longrightarrow> hex_value (hex_digit n) = Some n"
proof -
  have "\<forall>n \<in> set [0..<16]. hex_value (hex_digit n) = Some n"
    by code_simp
  then show "n < 16 \<Longrightarrow> hex_value (hex_digit n) = Some n" by auto
qed

lemma hex_decode_encode: "hex_decode (hex_encode bs) = Inr bs"
proof (induction bs)
  case Nil
  then show ?case by simp
next
  case (Cons b bs)
  have "unat b div 16 < 16" using unat_byte_lt [of b] by simp
  then show ?case by (simp add: Cons.IH hex_value_digit)
qed

lemma length_hex_encode [simp]: "length (hex_encode bs) = 2 * length bs"
  by (induction bs) auto

section \<open>Packed identifiers of core/types/util.go\<close>

definition MarshalID :: "u32 \<Rightarrow> u16 \<Rightarrow> u16 \<Rightarrow> u64" where
  "MarshalID height index n =
     push_bit 32 (ucast height) OR push_bit 16 (ucast index) OR ucast n"

definition UnmarshalID :: "u64 \<Rightarrow> u32 \<times> u16 \<times> u16" where
  "UnmarshalID k = (ucast (drop_bit 32 k), ucast (drop_bit 16 k), ucast k)"

lemma UnmarshalID_MarshalID: "UnmarshalID (MarshalID h i n) = (h, i, n)"
  by (auto simp: UnmarshalID_def MarshalID_def bit_eq_iff bit_simps dest: bit_imp_le_length)

lemma MarshalID_UnmarshalID:
  "(case UnmarshalID k of (h, i, n) \<Rightarrow> MarshalID h i n) = k"
proof (rule bit_word_eqI)
  fix n assume "n < LENGTH(64)"
  then show "bit (case UnmarshalID k of (h, i, n) \<Rightarrow> MarshalID h i n) n \<longleftrightarrow> bit k n"
    by (cases "n < 16"; cases "n < 32") (auto simp: UnmarshalID_def MarshalID_def bit_simps)
qed

definition TransactionID :: "u32 \<Rightarrow> u16 \<Rightarrow> string" where
  "TransactionID Height Index = hex_encode (be32 Height @ be16 Index)"

definition ParseTransactionID :: "string \<Rightarrow> (u32 \<times> u16) res" where
  "ParseTransactionID TXID =
     (if length TXID \<noteq> 12 then Inl ErrInvalidTransactionIDFormat
      else bind_res (hex_decode TXID) (\<lambda>bs.
             bind_res (of_be32 bs) (\<lambda>Height.
             bind_res (of_be16 (drop 4 bs)) (\<lambda>Index. Inr (Height, Index)))))"

lemma of_be16_be16_nil [simp]: "of_be16 (be16 v) = Inr v"
  using of_be16_be16 [of v "[]"] by simp

lemma of_be64_be64_nil [simp]: "of_be64 (be64 v) = Inr v"
  using of_be64_be64 [of v "[]"] by simp

lemma ParseTransactionID_TransactionID: "ParseTransactionID (TransactionID h i) = Inr (h, i)"
  by (simp add: ParseTransactionID_def TransactionID_def hex_decode_encode)

section \<open>Addresses\<close>

text \<open>An \<open>Address\<close> is a \<open>[14]byte\<close>: height, index and nonce, big-endian.\<close>

definition AddressSize :: nat where "AddressSize = 14"

definition NewAddress :: "u32 \<Rightarrow> u16 \<Rightarrow> u64 \<Rightarrow> address" where
  "NewAddress height index magic = be32 height @ be16 index @ be64 magic"

definition Height :: "address \<Rightarrow> u32 res" where
  "Height addr = of_be32 addr"

definition Index :: "address \<Rightarrow> u16 res" where
  "Index addr = of_be16 (drop 4 addr)"

definition Nonce :: "address \<Rightarrow> u64 res" where
  "Nonce addr = of_be64 (drop 6 addr)"

definition Checksum :: "bytes \<Rightarrow> byte" where
  "Checksum addr = fold (\<lambda>c cs. cs XOR c) addr 0"

definition is_address :: "address \<Rightarrow> bool" where
  "is_address a \<longleftrightarrow> length a = AddressSize"

lemma is_address_NewAddress [simp]: "is_address (NewAddress h i n)"
  by (simp add: is_address_def AddressSize_def NewAddress_def)

lemma NewAddress_fields:
  "Height (NewAddress h i n) = Inr h" "Index (NewAddress h i n) = Inr i"
  "Nonce (NewAddress h i n) = Inr n"
  by (simp_all add: Height_def Index_def Nonce_def NewAddress_def)

lemma NewAddress_inject [simp]:
  "NewAddress h i n = NewAddress h' i' n' \<longleftrightarrow> h = h' \<and> i = i' \<and> n = n'"
  by (metis NewAddress_fields sum.inject(2))

text \<open>
  \<open>String\<close> and \<open>ParseAddress\<close> go through the base58 package, a parameter here: \<open>enc\<close> is
  \<open>base58.Encode\<close>, \<open>dec\<close> is \<open>base58.Decode\<close> with the library's error as \<open>Inl\<close>.
\<close>

definition trim_right0 :: "bytes \<Rightarrow> bytes" where
  "trim_right0 bs = rev (dropWhile (\<lambda>b. b = 0) (rev bs))"

definition addr_String :: "(bytes \<Rightarrow> string) \<Rightarrow> address \<Rightarrow> string" where
  "addr_String enc addr =
     (let checksum = Checksum addr;
          result = trim_right0 addr;
          bs = (if length result < 7 then copy_at 1 result (replicate 7 0)
                else if length result < 15 then copy_at 1 result (replicate 15 0)
                else [])
      in enc (bs[0 := checksum]))"

definition ParseAddress :: "(string \<Rightarrow> bytes res) \<Rightarrow> string \<Rightarrow> address res" where
  "ParseAddress dec str =
     bind_res (dec str) (\<lambda>bs.
       if length bs \<noteq> 7 \<and> length bs \<noteq> 15 then Inl ErrInvalidAddressFormat
       else let cs = bs ! 0; addr = go_copy (replicate 14 0) (drop 1 bs)
            in if cs \<noteq> Checksum addr then Inl ErrInvalidAddressCheckSum else Inr addr)"

lemma trim_right0_pad: "\<exists>k. bs = trim_right0 bs @ replicate k 0 \<and> k = length bs - length (trim_right0 bs)"
proof -
  let ?z = "takeWhile (\<lambda>b. b = 0) (rev bs)"
  have "?z = replicate (length ?z) 0"
    by (metis (mono_tags, lifting) replicate_eqI set_takeWhileD)
  moreover have "rev bs = ?z @ dropWhile (\<lambda>b. b = 0) (rev bs)" by simp
  ultimately have "bs = trim_right0 bs @ replicate (length ?z) 0"
    unfolding trim_right0_def by (metis rev_append rev_replicate rev_rev_ident)
  then show ?thesis by (metis add_diff_cancel_left' length_append length_replicate)
qed

lemma addr_String_payload:
  assumes "is_address addr"
  shows "\<exists>k. (k = 6 \<or> k = 14) \<and> addr_String enc addr = enc (Checksum addr # take k addr)
           \<and> addr = take k addr @ replicate (14 - k) 0"
proof -
  let ?t = "trim_right0 addr"
  obtain n where n: "addr = ?t @ replicate n 0" "n = length addr - length ?t"
    using trim_right0_pad by blast
  have len: "length addr = 14" using assms by (simp add: is_address_def AddressSize_def)
  then have lt: "length ?t \<le> 14" using n by (metis le_add1 length_append)
  show ?thesis
  proof (cases "length ?t < 7")
    case True
    then have "length ?t \<le> 6" by simp
    have "copy_at 1 ?t (replicate 7 0) = 0 # ?t @ replicate (6 - length ?t) 0"
      using \<open>length ?t \<le> 6\<close> by (simp add: copy_at_def go_copy_def)
    moreover have "take 6 addr = ?t @ replicate (6 - length ?t) 0"
    proof -
      have "take 6 (?t @ replicate n 0) = ?t @ replicate (6 - length ?t) 0"
        using n(2) len \<open>length ?t \<le> 6\<close> by (simp add: min_def)
      then show ?thesis using n(1) by metis
    qed
    ultimately have "addr_String enc addr = enc (Checksum addr # take 6 addr)"
      using True by (simp add: addr_String_def Let_def)
    moreover have "addr = take 6 addr @ replicate (14 - 6) 0"
    proof -
      have "replicate n 0 = replicate (6 - length ?t) 0 @ replicate 8 (0 :: byte)"
        using n(2) len \<open>length ?t \<le> 6\<close> by (simp flip: replicate_add)
      then have "?t @ replicate n 0 = take 6 addr @ replicate 8 0"
        using \<open>take 6 addr = _\<close> by simp
      then show ?thesis using n(1) by simp
    qed
    ultimately show ?thesis by blast
  next
    case False
    then have l: "7 \<le> length ?t" "length ?t < 15" using lt by auto
    have "copy_at 1 ?t (replicate 15 0) = 0 # ?t @ replicate (14 - length ?t) 0"
      using l by (simp add: copy_at_def go_copy_def)
    also have "\<dots> = 0 # addr" using n len by simp
    finally have "addr_String enc addr = enc (Checksum addr # take 14 addr)"
      using l len by (simp add: addr_String_def Let_def)
    moreover have "addr = take 14 addr @ replicate (14 - 14) 0" using len by simp
    ultimately show ?thesis by blast
  qed
qed

text \<open>
  C31. An address survives printing and parsing: for any base58 codec whose decoder inverts its
  encoder, \<open>ParseAddress\<close> of \<open>Address.String\<close> gives the address back, whether the short 7-byte or
  the long 15-byte form was written.
\<close>

theorem ParseAddress_String:
  assumes base58: "\<And>bs. dec (enc bs) = Inr bs" and "is_address addr"
  shows "ParseAddress dec (addr_String enc addr) = Inr addr"
proof -
  obtain k where k: "k = 6 \<or> k = 14" "addr_String enc addr = enc (Checksum addr # take k addr)"
    "addr = take k addr @ replicate (14 - k) 0"
    using addr_String_payload [OF assms(2)] by blast
  have len: "length addr = 14" using assms(2) by (simp add: is_address_def AddressSize_def)
  have "go_copy (replicate 14 0) (take k addr) = addr"
    using k(1,3) len by (auto simp: go_copy_def)
  then show ?thesis using k(1,2) len by (auto simp: ParseAddress_def base58)
qed

theorem ParseAddress_String_witness:
  "ParseAddress hex_decode (addr_String hex_encode (NewAddress 7 3 0)) = Inr (NewAddress 7 3 0)"
  by (rule ParseAddress_String) (simp_all add: hex_decode_encode)

end
