(* ===== verification/Amount.thy ===== *)
theory Amount
  imports Prelude
begin

text \<open>
  \<open>common/amount\<close>: coin amounts as big integers scaled by \<open>FractionalMax\<close>, their decimal text and its
  parser. An \<open>Amount\<close> wraps a \<open>big.Int\<close>, so it is an \<^typ>\<open>int\<close>; the conversions from \<open>uint64\<close> to
  \<open>int64\<close> in \<open>NewCoinAmount\<close> keep their two's complement meaning.
\<close>

type_synonym amount = int

definition FractionalMax :: int where "FractionalMax = 1000000000000000000"

definition FractionalCount :: nat where "FractionalCount = 18"

section \<open>Arithmetic\<close>

definition newAmount :: "u64 \<Rightarrow> amount" where
  \<comment> \<open>the \<open>int64(\<dots>)\<close> conversion of the callers is the signed reading of the word\<close>
  "newAmount value = sint value"

definition NewCoinAmount :: "u64 \<Rightarrow> u64 \<Rightarrow> amount" where
  "NewCoinAmount i f =
     (if i = 0 then newAmount f
      else if f = 0 then newAmount i * FractionalMax
      else newAmount i * FractionalMax + newAmount f)"

definition COIN :: amount where "COIN = NewCoinAmount 1 0"

definition NewAmountFromBytes :: "bytes \<Rightarrow> amount" where
  \<comment> \<open>\<open>big.Int.SetBytes\<close>: an unsigned big-endian number\<close>
  "NewAmountFromBytes bs = foldl (\<lambda>acc b. 256 * acc + uint b) 0 bs"

text \<open>\<open>big.Int.Bytes\<close>: the big-endian magnitude without leading zeros; the sign is dropped.\<close>

fun nat_bytes :: "nat \<Rightarrow> bytes" where
  "nat_bytes n = (if n = 0 then [] else nat_bytes (n div 256) @ [word_of_nat (n mod 256)])"

declare nat_bytes.simps [simp del]

definition amount_Bytes :: "amount \<Rightarrow> bytes" where
  "amount_Bytes am = nat_bytes (nat \<bar>am\<bar>)"

text \<open>\<open>big.Int.Div\<close> is Euclidean division and panics on a zero divisor.\<close>

definition amount_Div :: "amount \<Rightarrow> amount \<Rightarrow> amount res" where
  "amount_Div a b = (if b = 0 then Inl Panic else Inr (if 0 < b then a div b else - (a div (- b))))"

definition amount_DivC :: "amount \<Rightarrow> 64 word \<Rightarrow> amount res" where
  "amount_DivC a b = amount_Div a (sint b)"

definition amount_MulC :: "amount \<Rightarrow> 64 word \<Rightarrow> amount" where
  "amount_MulC a b = a * sint b"

definition amount_IsZero :: "amount \<Rightarrow> bool" where "amount_IsZero a \<longleftrightarrow> a = 0"

definition amount_Less :: "amount \<Rightarrow> amount \<Rightarrow> bool" where "amount_Less a b \<longleftrightarrow> a < b"

section \<open>Decimal text\<close>

definition digit_char :: "nat \<Rightarrow> char" where
  "digit_char d = char_of (48 + d)"

definition is_digit :: "char \<Rightarrow> bool" where
  "is_digit c \<longleftrightarrow> 48 \<le> (of_char c :: nat) \<and> (of_char c :: nat) \<le> 57"

fun nat_string :: "nat \<Rightarrow> string" where
  "nat_string n = (if n < 10 then [digit_char n] else nat_string (n div 10) @ [digit_char (n mod 10)])"

declare nat_string.simps [simp del]

definition int_String :: "int \<Rightarrow> string" where
  "int_String i = (if i < 0 then CHR ''-'' # nat_string (nat (- i)) else nat_string (nat i))"

definition digits_value :: "string \<Rightarrow> nat" where
  "digits_value s = foldl (\<lambda>acc c. 10 * acc + (of_char c - 48)) 0 s"

text \<open>
  \<open>strconv.ParseUint(s, 10, 64)\<close>: a non-empty run of decimal digits below \<open>2 ^ 64\<close>, anything else is
  an error (the caller replaces it by its own, so its kind does not matter).
\<close>

definition ParseUint :: "string \<Rightarrow> u64 option" where
  "ParseUint s =
     (if s \<noteq> [] \<and> list_all is_digit s \<and> digits_value s < 2 ^ 64
      then Some (word_of_nat (digits_value s)) else None)"

definition trim_right_zeros :: "string \<Rightarrow> string" where
  "trim_right_zeros s = rev (dropWhile (\<lambda>c. c = CHR ''0'') (rev s))"

text \<open>
  The loop of \<open>formatFractional\<close> from index \<open>i\<close>: the array \<open>pads\<close>, \<open>lastZero\<close> and \<open>hasNonZero\<close> are its
  state. Writing past the 18 bytes of \<open>pads\<close> panics.
\<close>

function fmt_loop :: "string \<Rightarrow> nat \<Rightarrow> nat \<Rightarrow> string \<Rightarrow> nat \<Rightarrow> bool \<Rightarrow> string \<times> nat" where
  "fmt_loop bs diff i pads lastZero hasNonZero =
     (if i < length bs then
        let pads' = pads[diff + i := bs ! i];
            hit = (\<not> hasNonZero \<and> bs ! (length bs - i - 1) \<noteq> CHR ''0'')
        in fmt_loop bs diff (i + 1) pads'
             (if hit then diff + length bs - i - 1 + 1 else lastZero) (hasNonZero \<or> hit)
      else (pads, lastZero))"
  by pat_completeness auto
termination
  by (relation "measure (\<lambda>(bs, diff, i, pads, lastZero, h). length bs - i)") auto

declare fmt_loop.simps [simp del]

definition formatFractional :: "string \<Rightarrow> string res" where
  "formatFractional str =
     (if FractionalCount < length str then Inl Panic
      else case fmt_loop str (FractionalCount - length str) 0 (replicate FractionalCount CHR ''0'') 0 False of
             (pads, lastZero) \<Rightarrow> Inr (take lastZero pads))"

text \<open>The loop of \<open>padFractional\<close>.\<close>

function pad_loop :: "string \<Rightarrow> nat \<Rightarrow> string \<Rightarrow> nat \<Rightarrow> bool \<Rightarrow> (string \<times> nat) res" where
  "pad_loop bs i pads lastZero hasNonZero =
     (if i < length bs then
        if length pads \<le> i then Inl Panic
        else let hit = (\<not> hasNonZero \<and> bs ! i \<noteq> CHR ''0'')
             in pad_loop bs (i + 1) (pads[i := bs ! i]) (if hit then i else lastZero) (hasNonZero \<or> hit)
      else Inr (pads, lastZero))"
  by pat_completeness auto
termination
  by (relation "measure (\<lambda>(bs, i, pads, lastZero, h). length bs - i)") auto

declare pad_loop.simps [simp del]

definition padFractional :: "string \<Rightarrow> string res" where
  "padFractional str =
     bind_res (pad_loop str 0 (replicate FractionalCount CHR ''0'') 0 False)
       (\<lambda>(pads, lastZero). Inr (drop lastZero pads))"

definition amount_String :: "amount \<Rightarrow> string res" where
  "amount_String am =
     (if amount_IsZero am then Inr ''0''
      else let str = int_String am in
        if length str \<le> FractionalCount then bind_res (formatFractional str) (\<lambda>s. Inr (''0.'' @ s))
        else let si = take (length str - FractionalCount) str;
                 sf = trim_right_zeros (drop (length str - FractionalCount) str)
             in if 0 < length sf then Inr (si @ ''.'' @ sf) else Inr si)"

text \<open>\<open>strings.SplitN(str, ".", 2)\<close> cuts at the first point.\<close>

definition splitN_point :: "string \<Rightarrow> string list" where
  "splitN_point str =
     (let h = takeWhile (\<lambda>c. c \<noteq> CHR ''.'') str; t = dropWhile (\<lambda>c. c \<noteq> CHR ''.'') str
      in if t = [] then [h] else [h, tl t])"

definition ParseAmount :: "string \<Rightarrow> amount res" where
  "ParseAmount str =
     (case splitN_point str of
        [a] \<Rightarrow> (case ParseUint a of None \<Rightarrow> Inl ErrInvalidAmountFormat | Some pi \<Rightarrow> Inr (NewCoinAmount pi 0))
      | [a, b] \<Rightarrow>
          (case ParseUint a of None \<Rightarrow> Inl ErrInvalidAmountFormat
           | Some pi \<Rightarrow>
               bind_res (padFractional b) (\<lambda>p.
                 case ParseUint p of None \<Rightarrow> Inl ErrInvalidAmountFormat
                 | Some pf \<Rightarrow> Inr (NewCoinAmount pi pf)))
      | _ \<Rightarrow> Inl ErrInvalidAmountFormat)"

section \<open>Lemmas on the decimal text\<close>

lemma FractionalMax_pow: "FractionalMax = 10 ^ FractionalCount"
  by (simp add: FractionalMax_def FractionalCount_def)

lemma NewCoinAmount_eq: "NewCoinAmount i f = sint i * FractionalMax + sint f"
  by (simp add: NewCoinAmount_def newAmount_def)

lemma sint_word_of_nat64: "n < 2 ^ 63 \<Longrightarrow> sint (word_of_nat n :: u64) = int n"
  by (simp add: signed_of_nat signed_take_bit_int_eq_self)

lemma of_char_digit: "d < 10 \<Longrightarrow> (of_char (digit_char d) :: nat) = 48 + d"
  by (simp add: digit_char_def)

lemma digits_value_snoc: "digits_value (s @ [c]) = 10 * digits_value s + (of_char c - 48)"
  by (simp add: digits_value_def)

lemma digits_value_append:
  "digits_value (s @ t) = digits_value s * 10 ^ length t + digits_value t"
proof (induction t rule: rev_induct)
  case Nil
  then show ?case by (simp add: digits_value_def)
next
  case (snoc c t)
  have "digits_value (s @ t @ [c]) = 10 * digits_value (s @ t) + (of_char c - 48)"
    using digits_value_snoc [of "s @ t" c] by simp
  then show ?case by (simp add: snoc.IH digits_value_snoc algebra_simps)
qed

lemma digits_value_zeros: "digits_value (replicate k CHR ''0'') = 0"
proof (induction k)
  case 0
  then show ?case by (simp add: digits_value_def)
next
  case (Suc k)
  then show ?case using digits_value_append [of "[CHR ''0'']" "replicate k CHR ''0''"]
    by (simp add: digits_value_def)
qed

lemma digits_value_bound: "list_all is_digit s \<Longrightarrow> digits_value s < 10 ^ length s"
proof (induction s rule: rev_induct)
  case Nil
  then show ?case by (simp add: digits_value_def)
next
  case (snoc c s)
  then have "digits_value s < 10 ^ length s" "of_char c - 48 < (10 :: nat)"
    by (auto simp: is_digit_def)
  then have "10 * digits_value s + (of_char c - 48) < 10 * 10 ^ length s" by linarith
  then show ?case by (simp add: digits_value_snoc)
qed

lemma is_digit_digit_char: "d < 10 \<Longrightarrow> is_digit (digit_char d)"
  by (simp add: is_digit_def of_char_digit)

lemma nat_string_digits: "list_all is_digit (nat_string n)"
proof (induction n rule: nat_string.induct)
  case (1 n)
  then show ?case
    by (cases "n < 10") (simp_all add: nat_string.simps [of n] is_digit_digit_char)
qed

lemma nat_string_value: "digits_value (nat_string n) = n"
proof (induction n rule: nat_string.induct)
  case (1 n)
  then show ?case
  proof (cases "n < 10")
    case True
    then show ?thesis by (simp add: nat_string.simps [of n] digits_value_def of_char_digit)
  next
    case False
    then show ?thesis
      using 1 by (simp add: nat_string.simps [of n] digits_value_snoc of_char_digit)
  qed
qed

lemma nat_string_nonempty: "nat_string n \<noteq> []"
  by (subst nat_string.simps) simp

lemma point_not_digit: "list_all is_digit s \<Longrightarrow> CHR ''.'' \<notin> set s"
  by (auto simp: list_all_iff is_digit_def)

lemma takeWhile_no_point: "CHR ''.'' \<notin> set s \<Longrightarrow> takeWhile (\<lambda>c. c \<noteq> CHR ''.'') s = s"
  by (auto simp: takeWhile_eq_all_conv)

lemma splitN_point_digits:
  "list_all is_digit s \<Longrightarrow> splitN_point s = [s]"
  "list_all is_digit s \<Longrightarrow> splitN_point (s @ CHR ''.'' # t) = [s, t]"
proof -
  assume "list_all is_digit s"
  then have np: "\<forall>c \<in> set s. c \<noteq> CHR ''.''" using point_not_digit by blast
  show "splitN_point s = [s]"
    using np by (simp add: splitN_point_def Let_def dropWhile_eq_Nil_conv takeWhile_eq_all_conv)
  show "splitN_point (s @ CHR ''.'' # t) = [s, t]"
    using np by (simp add: splitN_point_def Let_def takeWhile_append2 dropWhile_append2)
qed

lemma ParseUint_digits:
  "list_all is_digit s \<Longrightarrow> s \<noteq> [] \<Longrightarrow> digits_value s < 2 ^ 64 \<Longrightarrow>
   ParseUint s = Some (word_of_nat (digits_value s))"
  by (simp add: ParseUint_def)

section \<open>The two padding loops\<close>

lemma trim_right_zeros_pad:
  "trim_right_zeros s @ replicate (length s - length (trim_right_zeros s)) CHR ''0'' = s"
proof -
  define z where "z = takeWhile (\<lambda>c. c = CHR ''0'') (rev s)"
  have "\<forall>c \<in> set z. c = CHR ''0''" by (auto simp: z_def dest: set_takeWhileD)
  then have z: "z = replicate (length z) CHR ''0''" by (simp add: replicate_length_same)
  have "rev s = z @ dropWhile (\<lambda>c. c = CHR ''0'') (rev s)" by (simp add: z_def)
  then have "s = trim_right_zeros s @ rev z"
    unfolding trim_right_zeros_def by (metis rev_append rev_rev_ident)
  moreover have "rev z = replicate (length z) CHR ''0''" by (subst z) simp
  ultimately have s: "s = trim_right_zeros s @ replicate (length z) CHR ''0''" by simp
  then have "length s = length (trim_right_zeros s) + length z"
    by (metis length_append length_replicate)
  with s show ?thesis by simp
qed

lemma length_trim_right_zeros: "length (trim_right_zeros s) \<le> length s"
  by (metis trim_right_zeros_pad length_append le_add1)

lemma trim_right_zeros_snoc:
  "trim_right_zeros (s @ [c]) = (if c = CHR ''0'' then trim_right_zeros s else s @ [c])"
  by (simp add: trim_right_zeros_def)

lemma trim_right_zeros_take: "trim_right_zeros s = take (length (trim_right_zeros s)) s"
  by (metis trim_right_zeros_pad append_eq_conv_conj)

lemma fmt_loop_spec:
  assumes "i \<le> length bs" "diff + length bs \<le> length pads"
  shows "fmt_loop bs diff i pads lz h =
     (take (diff + i) pads @ drop i bs @ drop (diff + length bs) pads,
      if h then lz
      else if trim_right_zeros (take (length bs - i) bs) = [] then lz
      else diff + length (trim_right_zeros (take (length bs - i) bs)))"
  using assms
proof (induction bs diff i pads lz h rule: fmt_loop.induct)
  case (1 bs diff i pads lz h)
  show ?case
  proof (cases "i < length bs")
    case False
    then have "fmt_loop bs diff i pads lz h = (pads, lz)" by (subst fmt_loop.simps) simp
    with False "1.prems" show ?thesis by (simp add: trim_right_zeros_def)
  next
    case True
    define hit where "hit = (\<not> h \<and> bs ! (length bs - i - 1) \<noteq> CHR ''0'')"
    have step: "fmt_loop bs diff i pads lz h =
        fmt_loop bs diff (i + 1) (pads[diff + i := bs ! i])
          (if hit then diff + length bs - i - 1 + 1 else lz) (h \<or> hit)"
      using True by (subst fmt_loop.simps) (simp add: hit_def Let_def)
    have tk: "take (length bs - i) bs = take (length bs - (i + 1)) bs @ [bs ! (length bs - i - 1)]"
      using True take_Suc_conv_app_nth [of "length bs - (i + 1)" bs] by (simp add: Suc_diff_Suc)
    have arr: "take (diff + (i + 1)) (pads[diff + i := bs ! i]) @ drop (i + 1) bs
               @ drop (diff + length bs) (pads[diff + i := bs ! i])
             = take (diff + i) pads @ drop i bs @ drop (diff + length bs) pads"
      using True "1.prems"(2)
      by (simp add: take_Suc_conv_app_nth Cons_nth_drop_Suc [symmetric])
    have "fmt_loop bs diff i pads lz h =
       (take (diff + (i + 1)) (pads[diff + i := bs ! i]) @ drop (i + 1) bs
          @ drop (diff + length bs) (pads[diff + i := bs ! i]),
        if h \<or> hit then (if hit then diff + length bs - i - 1 + 1 else lz)
        else if trim_right_zeros (take (length bs - (i + 1)) bs) = [] then (if hit then diff + length bs - i - 1 + 1 else lz)
        else diff + length (trim_right_zeros (take (length bs - (i + 1)) bs)))"
      unfolding step by (rule "1.IH" [OF True refl hit_def]) (use True "1.prems" in simp_all)
    moreover have "length (take (length bs - i) bs) = length bs - i" by simp
    ultimately show ?thesis
      unfolding arr tk using True by (cases h; cases hit) (simp_all add: hit_def trim_right_zeros_snoc)
  qed
qed

lemma formatFractional_spec:
  assumes "length str \<le> FractionalCount"
  shows "formatFractional str =
     Inr (trim_right_zeros (replicate (FractionalCount - length str) CHR ''0'' @ str))"
proof -
  let ?d = "FractionalCount - length str"
  let ?z = "replicate ?d CHR ''0''"
  have loop: "fmt_loop str ?d 0 (replicate FractionalCount CHR ''0'') 0 False =
      (?z @ str, if trim_right_zeros str = [] then 0 else ?d + length (trim_right_zeros str))"
    using assms by (simp add: fmt_loop_spec)
  have *: "trim_right_zeros (?z @ str) = (if trim_right_zeros str = [] then [] else ?z @ trim_right_zeros str)"
    by (auto simp: trim_right_zeros_def dropWhile_append)
  have "take (?d + length (trim_right_zeros str)) (?z @ str) = ?z @ trim_right_zeros str"
    using trim_right_zeros_take [of str] by simp
  then show ?thesis
    using assms loop * by (simp add: formatFractional_def)
qed

lemma pad_loop_spec:
  assumes "i \<le> length bs" "length bs \<le> length pads"
  shows "pad_loop bs i pads lz h =
     Inr (take i pads @ drop i bs @ drop (length bs) pads,
      if h then lz
      else if list_all (\<lambda>c. c = CHR ''0'') (drop i bs) then lz
      else i + length (takeWhile (\<lambda>c. c = CHR ''0'') (drop i bs)))"
  using assms
proof (induction bs i pads lz h rule: pad_loop.induct)
  case (1 bs i pads lz h)
  show ?case
  proof (cases "i < length bs")
    case False
    then have "pad_loop bs i pads lz h = Inr (pads, lz)" by (subst pad_loop.simps) simp
    with False "1.prems" show ?thesis by simp
  next
    case True
    define hit where "hit = (\<not> h \<and> bs ! i \<noteq> CHR ''0'')"
    have ni: "\<not> length pads \<le> i" using True "1.prems" by simp
    have step: "pad_loop bs i pads lz h =
        pad_loop bs (i + 1) (pads[i := bs ! i]) (if hit then i else lz) (h \<or> hit)"
      using True ni by (subst pad_loop.simps) (simp add: hit_def Let_def)
    have dr: "drop i bs = bs ! i # drop (i + 1) bs" using True by (simp add: Cons_nth_drop_Suc)
    have arr: "take (i + 1) (pads[i := bs ! i]) @ drop (i + 1) bs @ drop (length bs) (pads[i := bs ! i])
             = take i pads @ drop i bs @ drop (length bs) pads"
      using True "1.prems"(2) dr by (simp add: take_Suc_conv_app_nth)
    have "pad_loop bs i pads lz h =
       Inr (take (i + 1) (pads[i := bs ! i]) @ drop (i + 1) bs @ drop (length bs) (pads[i := bs ! i]),
        if h \<or> hit then (if hit then i else lz)
        else if list_all (\<lambda>c. c = CHR ''0'') (drop (i + 1) bs) then (if hit then i else lz)
        else (i + 1) + length (takeWhile (\<lambda>c. c = CHR ''0'') (drop (i + 1) bs)))"
      unfolding step by (rule "1.IH" [OF True ni hit_def]) (use True "1.prems" in simp_all)
    then show ?thesis
      unfolding arr unfolding dr by (cases h; cases hit) (simp_all add: hit_def)
  qed
qed

lemma digits_value_dropWhile: "digits_value (dropWhile (\<lambda>c. c = CHR ''0'') s) = digits_value s"
proof -
  define z where "z = takeWhile (\<lambda>c. c = CHR ''0'') s"
  have "\<forall>c \<in> set z. c = CHR ''0''" by (auto simp: z_def dest: set_takeWhileD)
  then have "z = replicate (length z) CHR ''0''" by (simp add: replicate_length_same)
  then have "digits_value z = 0" by (metis digits_value_zeros)
  moreover have "s = z @ dropWhile (\<lambda>c. c = CHR ''0'') s" by (simp add: z_def)
  then have "digits_value s =
      digits_value z * 10 ^ length (dropWhile (\<lambda>c. c = CHR ''0'') s) + digits_value (dropWhile (\<lambda>c. c = CHR ''0'') s)"
    by (metis digits_value_append)
  ultimately show ?thesis by simp
qed

lemma list_all_dropWhile: "list_all P s \<Longrightarrow> list_all P (dropWhile Q s)"
  by (auto simp: list_all_iff dest: set_dropWhileD)

lemma padFractional_spec:
  assumes "length str \<le> FractionalCount" "list_all is_digit str"
  shows "\<exists>p. padFractional str = Inr p \<and> p \<noteq> [] \<and> list_all is_digit p
       \<and> digits_value p = digits_value str * 10 ^ (FractionalCount - length str)"
proof -
  let ?Z = "\<lambda>c. c = CHR ''0''"
  let ?p = "str @ replicate (FractionalCount - length str) CHR ''0''"
  have loop: "pad_loop str 0 (replicate FractionalCount CHR ''0'') 0 False =
      Inr (?p, if list_all ?Z str then 0 else length (takeWhile ?Z str))"
    using assms(1) by (simp add: pad_loop_spec)
  have v: "digits_value ?p = digits_value str * 10 ^ (FractionalCount - length str)"
    by (simp add: digits_value_append digits_value_zeros)
  have d: "list_all is_digit ?p"
    using assms(2) by (auto simp: list_all_iff is_digit_def)
  have ne: "?p \<noteq> []" by (auto simp: FractionalCount_def)
  show ?thesis
  proof (cases "list_all ?Z str")
    case True
    then have "padFractional str = Inr ?p" using loop by (simp add: padFractional_def)
    then show ?thesis using v d ne by blast
  next
    case False
    then have nz: "dropWhile ?Z str \<noteq> []" by (auto simp: list_all_iff dropWhile_eq_Nil_conv)
    have "drop (length (takeWhile ?Z str)) ?p = dropWhile ?Z ?p"
    proof -
      have "takeWhile ?Z ?p = takeWhile ?Z str"
        using False by (auto simp: list_all_iff takeWhile_append1)
      then show ?thesis by (metis dropWhile_eq_drop)
    qed
    then have "padFractional str = Inr (dropWhile ?Z ?p)"
      using False loop by (simp add: padFractional_def)
    moreover have "dropWhile ?Z ?p \<noteq> []" using nz by (auto simp: dropWhile_append)
    ultimately show ?thesis
      using v list_all_dropWhile [OF d] digits_value_dropWhile [of ?p] by metis
  qed
qed

lemma pad_loop_overflow:
  assumes "i \<le> length pads" "length pads < length bs"
  shows "pad_loop bs i pads lz h = Inl Panic"
  using assms
proof (induction "length pads - i" arbitrary: i pads lz h)
  case 0
  then show ?case by (subst pad_loop.simps) simp
next
  case (Suc n)
  then have "i < length bs" "\<not> length pads \<le> i" by auto
  then show ?case using Suc by (subst pad_loop.simps) (simp add: Let_def)
qed

lemma padFractional_overflow: "FractionalCount < length str \<Longrightarrow> padFractional str = Inl Panic"
  by (simp add: padFractional_def pad_loop_overflow)

section \<open>Round trips\<close>

lemma ParseUint_padded:
  assumes "length s \<le> FractionalCount" "list_all is_digit s"
  shows "\<exists>p. padFractional s = Inr p
     \<and> ParseUint p = Some (word_of_nat (digits_value s * 10 ^ (FractionalCount - length s)))"
proof -
  obtain p where p: "padFractional s = Inr p" "p \<noteq> []" "list_all is_digit p"
    "digits_value p = digits_value s * 10 ^ (FractionalCount - length s)"
    using padFractional_spec [OF assms] by blast
  have "digits_value s < 10 ^ length s" by (rule digits_value_bound [OF assms(2)])
  then have "digits_value p < 10 ^ length s * 10 ^ (FractionalCount - length s)" by (simp add: p(4))
  also have "\<dots> = 10 ^ FractionalCount" using assms(1) by (simp flip: power_add)
  finally have "digits_value p < 2 ^ 64" by (simp add: FractionalCount_def)
  then show ?thesis using p by (auto simp: ParseUint_digits)
qed

lemma parse_fraction:
  assumes "list_all is_digit a" "a \<noteq> []" "digits_value a < 2 ^ 63"
    and "list_all is_digit f" "length f = FractionalCount"
  shows "ParseAmount (a @ CHR ''.'' # trim_right_zeros f) =
     Inr (int (digits_value a) * FractionalMax + int (digits_value f))"
proof -
  let ?t = "trim_right_zeros f"
  have "list_all is_digit ?t"
    using assms(4) trim_right_zeros_pad [of f] by (metis list_all_append)
  moreover have len: "length ?t \<le> FractionalCount" using length_trim_right_zeros [of f] assms(5) by simp
  ultimately obtain p where p: "padFractional ?t = Inr p"
    "ParseUint p = Some (word_of_nat (digits_value ?t * 10 ^ (FractionalCount - length ?t)))"
    using ParseUint_padded by blast
  have v: "digits_value ?t * 10 ^ (FractionalCount - length ?t) = digits_value f"
  proof -
    have "digits_value f = digits_value (?t @ replicate (length f - length ?t) CHR ''0'')"
      by (simp only: trim_right_zeros_pad)
    then show ?thesis by (simp add: digits_value_append digits_value_zeros assms(5))
  qed
  have "digits_value f < 10 ^ FractionalCount" using digits_value_bound [OF assms(4)] assms(5) by simp
  then have "digits_value f < 2 ^ 63" by (simp add: FractionalCount_def)
  then show ?thesis
    using assms p v
    by (simp add: ParseAmount_def splitN_point_digits ParseUint_digits NewCoinAmount_eq sint_word_of_nat64)
qed

lemma parse_integer:
  assumes "list_all is_digit a" "a \<noteq> []" "digits_value a < 2 ^ 63"
  shows "ParseAmount a = Inr (int (digits_value a) * FractionalMax)"
  using assms by (simp add: ParseAmount_def splitN_point_digits ParseUint_digits NewCoinAmount_eq sint_word_of_nat64)

lemma ParseAmount_String_ok:
  assumes "0 \<le> am" "am < 2 ^ 63 * FractionalMax"
  shows "bind_res (amount_String am) ParseAmount = Inr am"
proof (cases "am = 0")
  case True
  then show ?thesis
    using parse_integer [of "''0''"] by (simp add: amount_String_def amount_IsZero_def is_digit_def digits_value_def)
next
  case False
  let ?n = "nat am" and ?s = "nat_string (nat am)"
  have str: "int_String am = ?s" using assms(1) by (simp add: int_String_def)
  have dig: "list_all is_digit ?s" by (rule nat_string_digits)
  show ?thesis
  proof (cases "length ?s \<le> FractionalCount")
    case True
    let ?f = "replicate (FractionalCount - length ?s) CHR ''0'' @ ?s"
    have "list_all is_digit ?f" using dig by (auto simp: list_all_iff is_digit_def)
    moreover have "digits_value ?f = ?n"
      by (simp add: digits_value_append digits_value_zeros nat_string_value)
    ultimately have "ParseAmount (''0'' @ CHR ''.'' # trim_right_zeros ?f) = Inr am"
      using parse_fraction [of "''0''" ?f] True assms(1) by (simp add: is_digit_def digits_value_def)
    then show ?thesis
      using False True str by (simp add: amount_String_def amount_IsZero_def Let_def formatFractional_spec)
  next
    case long: False
    let ?k = "length ?s - FractionalCount"
    let ?a = "take ?k ?s" and ?f = "drop ?k ?s"
    have "?a \<noteq> []" using long nat_string_nonempty [of ?n] by simp
    have da: "list_all is_digit ?a" and df: "list_all is_digit ?f"
      using dig by (auto simp: list_all_iff dest: in_set_takeD in_set_dropD)
    have lf: "length ?f = FractionalCount" using long by simp
    have "digits_value (?a @ ?f) = ?n" by (simp add: nat_string_value)
    then have split: "?n = digits_value ?a * 10 ^ FractionalCount + digits_value ?f"
      unfolding digits_value_append lf by simp
    have am: "am = int (digits_value ?a) * FractionalMax + int (digits_value ?f)"
      using arg_cong [OF split, of int] assms(1) by (simp add: FractionalMax_pow)
    then have "int (digits_value ?a) * FractionalMax < 2 ^ 63 * FractionalMax"
      using assms(2) by linarith
    then have av: "digits_value ?a < 2 ^ 63" by (simp add: FractionalMax_def)
    show ?thesis
    proof (cases "trim_right_zeros ?f = []")
      case True
      then have "?f = replicate FractionalCount CHR ''0''"
        using trim_right_zeros_pad [of ?f] lf by simp
      then have "digits_value ?f = 0" by (metis digits_value_zeros)
      then show ?thesis
        using parse_integer [OF da \<open>?a \<noteq> []\<close> av] am False long str True
        by (simp add: amount_String_def amount_IsZero_def Let_def)
    next
      case nz: False
      then show ?thesis
        using parse_fraction [OF da \<open>?a \<noteq> []\<close> av df lf] am False long str
        by (simp add: amount_String_def amount_IsZero_def Let_def)
    qed
  qed
qed

text \<open>
  The text of an amount is not validated enough: an integer part from \<open>2 ^ 63\<close> on passes
  \<open>ParseUint\<close> but is converted to a negative \<open>int64\<close>, so \<open>ParseAmount\<close> returns a negative amount
  without an error, and a fraction of more than 18 digits is an index-out-of-range panic instead of
  \<open>ErrInvalidAmountFormat\<close>.
\<close>

theorem ParseAmount_unchecked:
  "ParseAmount ''9223372036854775808'' = Inr (- (2 ^ 63) * FractionalMax)
   \<and> (\<forall>a f. list_all is_digit a \<and> ParseUint a \<noteq> None \<and> FractionalCount < length f \<longrightarrow>
        ParseAmount (a @ CHR ''.'' # f) = Inl Panic)"
proof -
  have d: "list_all is_digit ''9223372036854775808''" by (simp add: is_digit_def)
  have v: "digits_value ''9223372036854775808'' = 2 ^ 63" by (simp add: digits_value_def)
  have "sint (word_of_nat (2 ^ 63) :: u64) = - (2 ^ 63)" by simp
  then have "ParseAmount ''9223372036854775808'' = Inr (- (2 ^ 63) * FractionalMax)"
    using v by (simp add: ParseAmount_def splitN_point_digits(1) [OF d] ParseUint_digits [OF d] NewCoinAmount_eq)
  moreover have "ParseAmount (a @ CHR ''.'' # f) = Inl Panic"
    if "list_all is_digit a" "ParseUint a \<noteq> None" "FractionalCount < length f" for a f
    using that by (auto simp: ParseAmount_def splitN_point_digits padFractional_overflow)
  ultimately show ?thesis by blast
qed

theorem ParseAmount_unchecked_witness: "ParseAmount ''1.0000000000000000001'' = Inl Panic"
proof -
  have "list_all is_digit ''1''" by (simp add: is_digit_def)
  moreover have "ParseUint ''1'' \<noteq> None" by (simp add: ParseUint_digits is_digit_def digits_value_def)
  moreover have "FractionalCount < length ''0000000000000000001''" by (simp add: FractionalCount_def)
  ultimately have "ParseAmount (''1'' @ CHR ''.'' # ''0000000000000000001'') = Inl Panic"
    using ParseAmount_unchecked by blast
  then show ?thesis by simp
qed

section \<open>Encodings\<close>

text \<open>The stored form of an amount (\<open>encoding.Register(Amount{}, \<dots>)\<close>) and its JSON form.\<close>

definition amount_MarshalJSON :: "amount \<Rightarrow> string res" where
  "amount_MarshalJSON am = bind_res (amount_String am) (\<lambda>s. Inr ([CHR 0x22] @ s @ [CHR 0x22]))"

definition amount_UnmarshalJSON :: "string \<Rightarrow> amount res" where
  "amount_UnmarshalJSON bs =
     (if length bs < 3 then Inl ErrInvalidAmountFormat
      else if bs ! 0 \<noteq> CHR 0x22 \<or> bs ! (length bs - 1) \<noteq> CHR 0x22 then Inl ErrInvalidAmountFormat
      else ParseAmount (slice 1 (length bs - 1) bs))"

lemma amount_JSON: "ParseAmount s = Inr am \<Longrightarrow> amount_UnmarshalJSON ([CHR 0x22] @ s @ [CHR 0x22]) = Inr am"
proof -
  assume a: "ParseAmount s = Inr am"
  have "s \<noteq> []"
    using a by (auto simp: ParseAmount_def splitN_point_def ParseUint_def)
  then have "\<not> length ([CHR 0x22] @ s @ [CHR 0x22]) < 3" by (cases s) auto
  moreover have "slice 1 (length ([CHR 0x22] @ s @ [CHR 0x22]) - 1) ([CHR 0x22] @ s @ [CHR 0x22]) = s"
    by (simp add: slice_def)
  ultimately show ?thesis
    using a unfolding amount_UnmarshalJSON_def by (auto simp: nth_append)
qed

text \<open>
  C30. Printing and parsing are inverse: every non-negative amount of fewer than \<open>2 ^ 63\<close> coins is
  printed by \<open>String\<close> without a panic, and \<open>ParseAmount\<close> reads the same amount back, down to the last
  of the 18 fractional digits; the quoted JSON form is read back as well.
\<close>

theorem ParseAmount_String:
  assumes "0 \<le> am" "am < 2 ^ 63 * FractionalMax"
  shows "bind_res (amount_String am) ParseAmount = Inr am
       \<and> bind_res (amount_MarshalJSON am) amount_UnmarshalJSON = Inr am"
proof -
  obtain s where s: "amount_String am = Inr s" "ParseAmount s = Inr am"
    using ParseAmount_String_ok [OF assms] by (auto simp: bind_res_Inr_iff)
  then show ?thesis using amount_JSON [OF s(2)] by (simp add: amount_MarshalJSON_def)
qed

theorem ParseAmount_String_witness:
  "bind_res (amount_String 1250000000000000000) ParseAmount = Inr 1250000000000000000
   \<and> bind_res (amount_MarshalJSON 1250000000000000000) amount_UnmarshalJSON = Inr 1250000000000000000"
  by (rule ParseAmount_String) (simp_all add: FractionalMax_def)

lemma NewAmountFromBytes_snoc: "NewAmountFromBytes (bs @ [b]) = 256 * NewAmountFromBytes bs + uint b"
  by (simp add: NewAmountFromBytes_def)

lemma NewAmountFromBytes_nat_bytes: "NewAmountFromBytes (nat_bytes n) = int n"
proof (induction n rule: nat_bytes.induct)
  case (1 n)
  show ?case
  proof (cases "n = 0")
    case True
    then show ?thesis by (simp add: nat_bytes.simps [of 0] NewAmountFromBytes_def)
  next
    case False
    have "uint (word_of_nat (n mod 256) :: byte) = int (n mod 256)"
      by (simp add: unsigned_of_nat take_bit_eq_mod)
    then show ?thesis
      using 1 [OF False] False by (subst nat_bytes.simps) (simp add: NewAmountFromBytes_snoc zdiv_int zmod_int)
  qed
qed

text \<open>
  The stored form of an amount keeps its magnitude and loses its sign: reading the encoded bytes
  back gives the absolute value, hence the amount itself exactly when it is not negative.
\<close>

theorem NewAmountFromBytes_Bytes:
  "NewAmountFromBytes (amount_Bytes am) = \<bar>am\<bar>"
  by (simp add: amount_Bytes_def NewAmountFromBytes_nat_bytes)

end
