(* ===== verification/Types.thy ===== *)
theory Types
  imports Codec Amount
begin

text \<open>
  The data of \<open>core/types\<close> that the context stores: accounts (with the implementations the processes
  register), events, unspent outputs, and the keys of account and process data.
\<close>

section \<open>Accounts\<close>

record validator_policy =
  CommissionRatio1000 :: u32
  MinimumStaking :: amount
  PayOutInterval :: u32

record formulator_account =
  fa_Address :: address
  fa_Name :: string
  fa_FormulatorType :: u8
  fa_KeyHash :: public_hash
  fa_GenHash :: public_hash
  fa_Amount :: amount
  fa_IsRevoked :: bool
  fa_PreHeight :: u32
  fa_UpdatedHeight :: u32
  fa_StakingAmount :: "amount option"
  fa_Policy :: "validator_policy option"

text \<open>The implementations of the \<open>Account\<close> interface: address, name and the signing data.\<close>

datatype account =
    SingleAccount address string public_hash
  | MultiAccount address string u8 "public_hash list"
  | FormulatorAccount formulator_account

fun account_Address :: "account \<Rightarrow> address" where
  "account_Address (SingleAccount addr _ _) = addr"
| "account_Address (MultiAccount addr _ _ _) = addr"
| "account_Address (FormulatorAccount acc) = fa_Address acc"

fun account_Name :: "account \<Rightarrow> string" where
  "account_Name (SingleAccount _ name _) = name"
| "account_Name (MultiAccount _ name _ _) = name"
| "account_Name (FormulatorAccount acc) = fa_Name acc"

text \<open>\<open>signerMap\<close> of \<open>MultiAccount.Validate\<close>: only membership matters.\<close>

fun account_Validate :: "account \<Rightarrow> public_hash list \<Rightarrow> unit res" where
  "account_Validate (SingleAccount _ _ KeyHash) signers =
     (if length signers \<noteq> 1 then Inl ErrInvalidSignerCount
      else if KeyHash \<noteq> signers ! 0 then Inl ErrInvalidAccountSigner else Inr ())"
| "account_Validate (MultiAccount _ _ Required KeyHashes) signers =
     (if length KeyHashes \<noteq> length signers then Inl ErrInvalidSignerCount
      else if length (filter (\<lambda>pubhash. pubhash \<in> set signers) KeyHashes) \<noteq> unat Required
      then Inl ErrInvalidAccountSigner else Inr ())"
| "account_Validate (FormulatorAccount acc) signers =
     (if length signers \<noteq> 1 then Inl ErrInvalidSignerCount
      else if fa_KeyHash acc \<noteq> signers ! 0 then Inl ErrInvalidAccountSigner else Inr ())"

section \<open>Events\<close>

datatype event =
    RevokedEvent u32 u16 u16 address
  | RewardEvent u32 u16 u16 "(address \<times> u32) list" "(address \<times> amount) list" "(address \<times> amount) list"
      "(address \<times> amount) list" "(address \<times> (address \<times> amount) list) list" "(address \<times> (address \<times> amount) list) list"
  | UnstakedEvent u32 u16 u16 address address amount

fun event_N :: "event \<Rightarrow> u16" where
  "event_N (RevokedEvent _ _ n _) = n"
| "event_N (RewardEvent _ _ n _ _ _ _ _ _) = n"
| "event_N (UnstakedEvent _ _ n _ _ _) = n"

fun event_SetN :: "u16 \<Rightarrow> event \<Rightarrow> event" where
  "event_SetN n (RevokedEvent h i _ f) = RevokedEvent h i n f"
| "event_SetN n (RewardEvent h i _ g r s c st sr) = RewardEvent h i n g r s c st sr"
| "event_SetN n (UnstakedEvent h i _ hf a am) = UnstakedEvent h i n hf a am"

lemma event_N_SetN [simp]: "event_N (event_SetN n e) = n"
  by (cases e) auto

section \<open>Unspent outputs\<close>

record txin =
  in_Height :: u32
  in_Index :: u16
  in_N :: u16

record txout =
  out_Amount :: amount
  out_PublicHash :: public_hash

record utxo =
  utxo_TxIn :: txin
  utxo_TxOut :: txout

definition NewTxIn :: "u64 \<Rightarrow> txin" where
  "NewTxIn n =
     (if n = 0 then \<lparr>in_Height = 0, in_Index = 0, in_N = 0\<rparr>
      else case UnmarshalID n of (height, index, k) \<Rightarrow> \<lparr>in_Height = height, in_Index = index, in_N = k\<rparr>)"

definition txin_ID :: "txin \<Rightarrow> u64" where
  "txin_ID tin = MarshalID (in_Height tin) (in_Index tin) (in_N tin)"

definition utxo_ID :: "utxo \<Rightarrow> u64" where "utxo_ID u = txin_ID (utxo_TxIn u)"

lemma txin_ID_NewTxIn: "txin_ID (NewTxIn n) = n"
proof (cases "n = 0")
  case True
  then show ?thesis by (simp add: txin_ID_def NewTxIn_def MarshalID_def)
next
  case False
  then show ?thesis
    using MarshalID_UnmarshalID [of n] by (auto simp: txin_ID_def NewTxIn_def split: prod.splits)
qed

section \<open>Keys\<close>

text \<open>
  Go's \<open>string(pid)\<close> is the UTF-8 encoding of the code point: one byte below 128, two bytes otherwise.
\<close>

definition utf8_pid :: "u8 \<Rightarrow> bytes" where
  "utf8_pid pid = (if pid < 128 then [pid] else [192 + pid div 64, 128 + pid mod 64])"

definition account_key :: "address \<Rightarrow> u8 \<Rightarrow> bytes \<Rightarrow> bytes" where
  "account_key addr pid name = addr @ utf8_pid pid @ name"

definition process_key :: "u8 \<Rightarrow> bytes \<Rightarrow> bytes" where
  "process_key pid name = utf8_pid pid @ name"

lemma unat_utf8_bytes:
  "unat (192 + (pid :: u8) div 64) = 192 + unat pid div 64" "unat (128 + pid mod 64) = 128 + unat pid mod 64"
proof -
  have lt: "unat pid < 256" using unsigned_less [of pid] by simp
  have "unat (pid div 64) = unat pid div 64" "unat (pid mod 64) = unat pid mod 64"
    by (simp_all add: unat_div_distrib unat_mod_distrib)
  moreover have "unat pid div 64 < 4" "unat pid mod 64 < 64" using lt by simp_all
  ultimately show "unat (192 + (pid :: u8) div 64) = 192 + unat pid div 64" "unat (128 + pid mod 64) = 128 + unat pid mod 64"
    by (simp_all add: unat_word_ariths)
qed

lemma utf8_pid_prefix_free:
  assumes "utf8_pid p @ n = utf8_pid p' @ n'"
  shows "p = p' \<and> n = n'"
proof (cases "p < 128 \<longleftrightarrow> p' < 128")
  case True
  show ?thesis
  proof (cases "p < 128")
    case small: True
    then show ?thesis using assms True by (simp add: utf8_pid_def)
  next
    case False
    then have e: "192 + p div 64 = 192 + p' div 64" "128 + p mod 64 = 128 + p' mod 64" "n = n'"
      using assms True by (auto simp: utf8_pid_def)
    have "unat p div 64 = unat p' div 64" "unat p mod 64 = unat p' mod 64"
      using arg_cong [OF e(1), of unat] arg_cong [OF e(2), of unat] by (simp_all only: unat_utf8_bytes add_left_cancel)
    then have "unat p = unat p'" by (metis div_mult_mod_eq)
    then have "p = p'" by (simp add: unsigned_word_eqI)
    then show ?thesis using e(3) by simp
  qed
next
  case False
  have ge: "192 \<le> unat (192 + (q :: u8) div 64)" for q by (simp add: unat_utf8_bytes)
  have lt: "unat (q :: u8) < 128" if "q < 128" for q using that by (simp add: word_less_nat_alt)
  show ?thesis
    using False assms ge [of p] ge [of p'] lt [of p] lt [of p'] by (auto simp: utf8_pid_def)
qed

text \<open>No two processes, addresses or names share a key.\<close>

lemma account_key_inject:
  assumes "length addr = length addr'"
  shows "account_key addr pid name = account_key addr' pid' name' \<longleftrightarrow> addr = addr' \<and> pid = pid' \<and> name = name'"
  using assms utf8_pid_prefix_free unfolding account_key_def by (metis append_eq_append_conv)

lemma process_key_inject: "process_key pid name = process_key pid' name' \<longleftrightarrow> pid = pid' \<and> name = name'"
  using utf8_pid_prefix_free unfolding process_key_def by metis

end
