(* ===== verification/Hashing.thy ===== *)
theory Hashing
  imports Codec
begin

text \<open>
  \<open>common/hash\<close> and the level root of \<open>core/chain/util.go\<close>. The SHA-256 function is the parameter
  \<open>H\<close> of every definition, so the theorems hold for any hash function with the stated properties; none
  of them assumes that \<open>H\<close> is injective, only that it does not collide on the strings actually hashed.
  \<open>buildLevel\<close> starts one goroutine per node of the level: the order in which they finish is an argument.
\<close>

section \<open>Hash256\<close>

definition Hash256Size :: nat where "Hash256Size = 32"

definition is_hash :: "hash256 \<Rightarrow> bool" where "is_hash h \<longleftrightarrow> length h = Hash256Size"

definition EmptyHash :: hash256 where "EmptyHash = replicate Hash256Size 0"

definition Hash :: "(bytes \<Rightarrow> bytes) \<Rightarrow> bytes \<Rightarrow> hash256" where
  "Hash H data = go_copy EmptyHash (H data)"

definition DoubleHash :: "(bytes \<Rightarrow> bytes) \<Rightarrow> bytes \<Rightarrow> hash256" where
  "DoubleHash H data = Hash H (Hash H data)"

definition hash_String :: "hash256 \<Rightarrow> string" where
  "hash_String h = hex_encode h"

definition ParseHash :: "string \<Rightarrow> hash256 res" where
  "ParseHash str =
     (if length str \<noteq> Hash256Size * 2 then Inl ErrInvalidHashFormat
      else bind_res (hex_decode str) (\<lambda>bs.
             if length bs \<noteq> Hash256Size then Inl ErrInvalidHashSize
             else Inr (go_copy EmptyHash bs)))"

definition hash_MarshalJSON :: "hash256 \<Rightarrow> string" where
  "hash_MarshalJSON h = [CHR 0x22] @ hash_String h @ [CHR 0x22]"

definition hash_UnmarshalJSON :: "string \<Rightarrow> hash256 res" where
  "hash_UnmarshalJSON bs =
     (if length bs < 3 then Inl ErrInvalidHashFormat
      else if bs ! 0 \<noteq> CHR 0x22 \<or> bs ! (length bs - 1) \<noteq> CHR 0x22 then Inl ErrInvalidHashFormat
      else ParseHash (slice 1 (length bs - 1) bs))"

text \<open>
  \<open>Hashes\<close>: the loop over the arguments with its \<open>data\<close> and \<open>idx\<close>. Every hash is copied to the start of
  \<open>data\<close>, as the source has it (\<open>copy(data, h[:])\<close>, not \<open>copy(data[idx:], h[:])\<close>). Without arguments the
  size of \<open>data\<close> is negative and \<open>make\<close> panics.
\<close>

fun Hashes_loop :: "nat \<Rightarrow> nat \<Rightarrow> hash256 list \<Rightarrow> bytes \<Rightarrow> nat \<Rightarrow> bytes" where
  "Hashes_loop n i [] data idx = data"
| "Hashes_loop n i (h # hs) data idx =
     (let data1 = go_copy data h; idx1 = idx + Hash256Size
      in if i < n - 1 then Hashes_loop n (i + 1) hs (data1[idx1 := of_char CHR ''h'']) (idx1 + 1)
         else Hashes_loop n (i + 1) hs data1 idx1)"

definition Hashes :: "(bytes \<Rightarrow> bytes) \<Rightarrow> hash256 list \<Rightarrow> hash256 res" where
  "Hashes H hs =
     (if hs = [] then Inl Panic
      else Inr (Hash H (Hashes_loop (length hs) 0 hs (replicate ((Hash256Size + 1) * length hs - 1) 0) 0)))"

section \<open>The level root\<close>

definition hashPerLevel :: nat where "hashPerLevel = 16"

definition levelHashAppender :: bytes where "levelHashAppender = map of_char ''fletablockchain''"

definition hash16_piece :: "hash256 list \<Rightarrow> nat \<Rightarrow> bytes" where
  "hash16_piece hashes i =
     (if i < length hashes then hashes ! i else EmptyHash)
       @ (if i < length levelHashAppender then [levelHashAppender ! i] else [])"

definition hash16_buffer :: "hash256 list \<Rightarrow> bytes" where
  "hash16_buffer hashes = concat (map (hash16_piece hashes) [0..<hashPerLevel])"

definition hash16 :: "(bytes \<Rightarrow> bytes) \<Rightarrow> hash256 list \<Rightarrow> hash256 res" where
  "hash16 H hashes =
     (if hashPerLevel < length hashes then Inl ErrExceedHashCount
      else Inr (DoubleHash H (hash16_buffer hashes)))"

definition LvCnt :: "'a list \<Rightarrow> nat" where
  "LvCnt hashes = length hashes div hashPerLevel + (if length hashes mod hashPerLevel \<noteq> 0 then 1 else 0)"

definition level_chunk :: "'a list \<Rightarrow> nat \<Rightarrow> 'a list" where
  "level_chunk hashes idx =
     (let last = (if length hashes < (idx + 1) * hashPerLevel then length hashes else (idx + 1) * hashPerLevel)
      in slice (idx * hashPerLevel) last hashes)"

text \<open>One goroutine of \<open>buildLevel\<close>, on the shared \<open>LvHashes\<close> and the error channel.\<close>

definition level_worker ::
    "(bytes \<Rightarrow> bytes) \<Rightarrow> hash256 list \<Rightarrow> nat \<Rightarrow> hash256 list \<times> error list \<Rightarrow> hash256 list \<times> error list" where
  "level_worker H hashes idx st =
     (case st of (LvHashes, errs) \<Rightarrow>
        case hash16 H (level_chunk hashes idx) of
          Inl err \<Rightarrow> (LvHashes, errs @ [err])
        | Inr h \<Rightarrow> (LvHashes[idx := h], errs))"

definition buildLevel :: "(bytes \<Rightarrow> bytes) \<Rightarrow> nat list \<Rightarrow> hash256 list \<Rightarrow> hash256 list res" where
  "buildLevel H order hashes =
     (case fold (level_worker H hashes) order (replicate (LvCnt hashes) EmptyHash, []) of
        (LvHashes, []) \<Rightarrow> Inr LvHashes
      | (LvHashes, err # errs) \<Rightarrow> Inl err)"

definition BuildLevelRoot :: "(bytes \<Rightarrow> bytes) \<Rightarrow> (nat \<Rightarrow> nat list) \<Rightarrow> hash256 list \<Rightarrow> hash256 res" where
  \<comment> \<open>\<open>order n\<close> is the order in which the \<open>n\<close> goroutines of a level finish\<close>
  "BuildLevelRoot H order hashes =
     (if 65536 < length hashes then Inl ErrExceedHashCount
      else if length hashes = 0 then Inl ErrInvalidHashCount
      else bind_res (buildLevel H (order (LvCnt hashes)) hashes) (\<lambda>lv3.
           bind_res (buildLevel H (order (LvCnt lv3)) lv3) (\<lambda>lv2.
           bind_res (buildLevel H (order (LvCnt lv2)) lv2) (\<lambda>lv1.
             hash16 H lv1))))"

text \<open>Any schedule: every goroutine of a level runs once.\<close>

definition schedule :: "(nat \<Rightarrow> nat list) \<Rightarrow> bool" where
  "schedule order \<longleftrightarrow> (\<forall>n. distinct (order n) \<and> set (order n) = {..<n})"

section \<open>Hash values\<close>

lemma length_EmptyHash [simp]: "length EmptyHash = Hash256Size"
  by (simp add: EmptyHash_def)

lemma is_hash_Hash [simp]: "is_hash (Hash H d)" "is_hash (DoubleHash H d)"
  by (simp_all add: is_hash_def Hash_def DoubleHash_def)

lemma is_hash_EmptyHash [simp]: "is_hash EmptyHash"
  by (simp add: is_hash_def)

lemma Hash_eq: "length (H d) = Hash256Size \<Longrightarrow> Hash H d = H d"
  by (simp add: Hash_def go_copy_def)

lemma ParseHash_String: "is_hash h \<Longrightarrow> ParseHash (hash_String h) = Inr h"
  by (simp add: ParseHash_def hash_String_def is_hash_def hex_decode_encode go_copy_def)

section \<open>Levels\<close>

text \<open>The reference definition: node \<open>i\<close> of a level is the double hash of the \<open>i\<close>-th block of 16.\<close>

definition level_node :: "(bytes \<Rightarrow> bytes) \<Rightarrow> hash256 list \<Rightarrow> hash256" where
  "level_node H hs = DoubleHash H (hash16_buffer hs)"

definition level_ref :: "(bytes \<Rightarrow> bytes) \<Rightarrow> hash256 list \<Rightarrow> hash256 list" where
  "level_ref H hs = map (\<lambda>i. level_node H (level_chunk hs i)) [0..<LvCnt hs]"

definition level_root :: "(bytes \<Rightarrow> bytes) \<Rightarrow> hash256 list \<Rightarrow> hash256" where
  "level_root H hs = level_node H (level_ref H (level_ref H (level_ref H hs)))"

lemma length_level_ref [simp]: "length (level_ref H hs) = LvCnt hs"
  by (simp add: level_ref_def)

lemma LvCnt_bounds: "length hs \<le> LvCnt hs * 16" "LvCnt hs * 16 < length hs + 16"
  unfolding LvCnt_def hashPerLevel_def by presburger+

lemma level_chunk_eq: "level_chunk hs i = take 16 (drop (i * 16) hs)"
  by (auto simp: level_chunk_def slice_def hashPerLevel_def Let_def)

lemma length_level_chunk: "length (level_chunk hs i) \<le> hashPerLevel"
  by (simp add: level_chunk_eq hashPerLevel_def)

lemma hash16_chunk: "hash16 H (level_chunk hs i) = Inr (level_node H (level_chunk hs i))"
  using length_level_chunk [of hs i] by (simp add: hash16_def level_node_def)

lemma fold_worker:
  "fold (level_worker H hs) order (l, errs) =
     (map (\<lambda>i. if i \<in> set order then level_node H (level_chunk hs i) else l ! i) [0..<length l], errs)"
proof (induction order arbitrary: l)
  case Nil
  then show ?case by (simp add: map_nth)
next
  case (Cons k order)
  have "level_worker H hs k (l, errs) = (l[k := level_node H (level_chunk hs k)], errs)"
    by (simp add: level_worker_def hash16_chunk)
  then show ?case by (auto simp: Cons.IH nth_list_update)
qed

lemma buildLevel_ref:
  assumes "set order = {..<LvCnt hs}"
  shows "buildLevel H order hs = Inr (level_ref H hs)"
  using assms by (simp add: buildLevel_def fold_worker level_ref_def)

lemma third_level_le:
  assumes "length hs \<le> 65536"
  shows "LvCnt (level_ref H (level_ref H hs)) \<le> 16"
proof -
  have "LvCnt hs \<le> 4096" using assms LvCnt_bounds(2) [of hs] by simp
  then have "LvCnt (level_ref H hs) \<le> 256" using LvCnt_bounds(2) [of "level_ref H hs"] by simp
  then show ?thesis using LvCnt_bounds(2) [of "level_ref H (level_ref H hs)"] by simp
qed

lemma BuildLevelRoot_level_root:
  assumes "schedule order"
  shows "BuildLevelRoot H order hs =
           (if 65536 < length hs then Inl ErrExceedHashCount
            else if hs = [] then Inl ErrInvalidHashCount
            else Inr (level_root H hs))"
proof -
  have sched: "buildLevel H (order (LvCnt l)) l = Inr (level_ref H l)" for l :: "hash256 list"
    using assms by (intro buildLevel_ref) (simp add: schedule_def)
  show ?thesis
  proof (cases "65536 < length hs")
    case False
    then have "LvCnt (level_ref H (level_ref H hs)) \<le> 16" by (intro third_level_le) simp
    then show ?thesis using False
      by (simp add: BuildLevelRoot_def sched hash16_def level_root_def level_node_def hashPerLevel_def)
  qed (simp add: BuildLevelRoot_def)
qed


lemma schedule_upt: "schedule (\<lambda>n. [0..<n])"
  by (auto simp: schedule_def)

lemma schedule_rev: "schedule (\<lambda>n. rev [0..<n])"
  by (auto simp: schedule_def)


section \<open>Binding of the level root\<close>

text \<open>The strings a node and a root feed to \<open>H\<close>.\<close>

definition node_inputs :: "(bytes \<Rightarrow> bytes) \<Rightarrow> hash256 list \<Rightarrow> bytes list" where
  "node_inputs H hs = [hash16_buffer hs, Hash H (hash16_buffer hs)]"

definition level_inputs :: "(bytes \<Rightarrow> bytes) \<Rightarrow> hash256 list \<Rightarrow> bytes list" where
  "level_inputs H hs = concat (map (\<lambda>i. node_inputs H (level_chunk hs i)) [0..<LvCnt hs])"

definition root_inputs :: "(bytes \<Rightarrow> bytes) \<Rightarrow> hash256 list \<Rightarrow> bytes list" where
  "root_inputs H hs =
     (let a = level_ref H hs; b = level_ref H a; c = level_ref H b
      in level_inputs H hs @ level_inputs H a @ level_inputs H b @ node_inputs H c)"

text \<open>
  \<open>H\<close> is collision free on a list of inputs when it gives distinct inputs distinct 32-byte values,
  none of which is the empty hash that pads an incomplete node.
\<close>

definition collision_free :: "(bytes \<Rightarrow> bytes) \<Rightarrow> bytes list \<Rightarrow> bool" where
  "collision_free H ds \<longleftrightarrow>
     (\<forall>d \<in> set ds. length (H d) = Hash256Size \<and> H d \<noteq> EmptyHash) \<and>
     (\<forall>d \<in> set ds. \<forall>e \<in> set ds. H d = H e \<longrightarrow> d = e)"

definition real_hashes :: "hash256 list \<Rightarrow> bool" where
  "real_hashes hs \<longleftrightarrow> list_all (\<lambda>h. is_hash h \<and> h \<noteq> EmptyHash) hs"

lemma collision_free_Hash:
  assumes "collision_free H ds" "d \<in> set ds" "e \<in> set ds" "Hash H d = Hash H e"
  shows "d = e"
  using assms unfolding collision_free_def by (metis Hash_eq)

lemma append_eq_piecewise:
  assumes "\<And>i. i < n \<Longrightarrow> length (f i) = length (g i)"
    and "concat (map f [0..<n]) = concat (map g [0..<n])" "i < n"
  shows "f i = g i"
  using assms
proof (induction n arbitrary: i)
  case (Suc n)
  have len: "length (concat (map f [0..<n])) = length (concat (map g [0..<n]))"
  proof -
    have "map (\<lambda>i. length (f i)) [0..<n] = map (\<lambda>i. length (g i)) [0..<n]"
      using Suc.prems(1) by simp
    then show ?thesis
      unfolding length_concat map_map comp_def by (rule arg_cong [of _ _ sum_list])
  qed
  then have eq: "concat (map f [0..<n]) = concat (map g [0..<n])" "f n = g n"
    using Suc.prems(2) by simp_all
  show ?case
  proof (cases "i = n")
    case False
    then have "i < n" using Suc.prems(3) by simp
    moreover have "length (f j) = length (g j)" if "j < n" for j
      using that by (intro Suc.prems(1)) simp
    ultimately show ?thesis using Suc.IH [OF _ eq(1)] by blast
  qed (use eq in simp)
qed simp

lemma hash16_buffer_inj:
  assumes "real_hashes hs" "real_hashes hs'" "length hs \<le> 16" "length hs' \<le> 16"
    and "hash16_buffer hs = hash16_buffer hs'"
  shows "hs = hs'"
proof -
  let ?at = "\<lambda>l i. if i < length l then l ! i else EmptyHash"
  have isa: "is_hash (?at l i)" if "real_hashes l" for l i
    using that by (simp add: real_hashes_def list_all_length)
  have "hash16_piece hs i = hash16_piece hs' i" if "i < 16" for i
  proof (rule append_eq_piecewise [where n = 16])
    show "length (hash16_piece hs j) = length (hash16_piece hs' j)" for j
      using isa [OF assms(1), of j] isa [OF assms(2), of j] by (auto simp: hash16_piece_def is_hash_def)
    show "concat (map (hash16_piece hs) [0..<16]) = concat (map (hash16_piece hs') [0..<16])"
      using assms(5) by (simp add: hash16_buffer_def hashPerLevel_def)
  qed (use that in simp)
  then have eq: "?at hs i = ?at hs' i" if "i < 16" for i
    using that by (auto simp: hash16_piece_def)
  have ne: "l ! i \<noteq> EmptyHash" if "real_hashes l" "i < length l" for l i
    using that by (simp add: real_hashes_def list_all_length)
  have "length hs = length hs'"
  proof (rule ccontr)
    assume "length hs \<noteq> length hs'"
    then consider "length hs < length hs'" | "length hs' < length hs" by linarith
    then show False
    proof cases
      case 1
      then show False using eq [of "length hs"] ne [OF assms(2), of "length hs"] assms(4) by simp
    next
      case 2
      then show False using eq [of "length hs'"] ne [OF assms(1), of "length hs'"] assms(3) by simp
    qed
  qed
  moreover have "hs ! i = hs' ! i" if "i < length hs" for i
    using eq [of i] that assms(3) calculation by simp
  ultimately show ?thesis by (rule nth_equalityI)
qed

lemma level_node_inj:
  assumes "collision_free H (node_inputs H hs @ node_inputs H hs')" "level_node H hs = level_node H hs'"
    and "real_hashes hs" "real_hashes hs'" "length hs \<le> 16" "length hs' \<le> 16"
  shows "hs = hs'"
proof -
  have "Hash H (hash16_buffer hs) = Hash H (hash16_buffer hs')"
    by (rule collision_free_Hash [OF assms(1)])
      (use assms(2) in \<open>simp_all add: node_inputs_def level_node_def DoubleHash_def\<close>)
  then have "hash16_buffer hs = hash16_buffer hs'"
    by (rule collision_free_Hash [OF assms(1), rotated 2]) (simp_all add: node_inputs_def)
  then show ?thesis by (rule hash16_buffer_inj [OF assms(3-6)])
qed

lemma concat_chunks: "length hs \<le> n * 16 \<Longrightarrow> concat (map (level_chunk hs) [0..<n]) = hs"
proof -
  have "concat (map (level_chunk hs) [0..<n]) = take (n * 16) hs" for n
    by (induction n) (simp_all add: level_chunk_eq add.commute flip: take_add)
  then show "length hs \<le> n * 16 \<Longrightarrow> concat (map (level_chunk hs) [0..<n]) = hs" by simp
qed

lemma collision_free_mono: "collision_free H ds \<Longrightarrow> set es \<subseteq> set ds \<Longrightarrow> collision_free H es"
  unfolding collision_free_def by blast

lemma real_chunk: "real_hashes hs \<Longrightarrow> real_hashes (level_chunk hs i)"
  unfolding real_hashes_def level_chunk_eq list_all_iff by (meson in_set_dropD in_set_takeD)

lemma real_level_ref:
  assumes "collision_free H (level_inputs H hs)"
  shows "real_hashes (level_ref H hs)"
proof -
  have "level_node H (level_chunk hs i) \<noteq> EmptyHash" if "i < LvCnt hs" for i
  proof -
    let ?d = "Hash H (hash16_buffer (level_chunk hs i))"
    have "?d \<in> set (level_inputs H hs)"
      using that by (auto simp: level_inputs_def node_inputs_def)
    then have "length (H ?d) = Hash256Size" "H ?d \<noteq> EmptyHash"
      using assms by (auto simp: collision_free_def)
    then show ?thesis by (simp add: level_node_def DoubleHash_def Hash_eq)
  qed
  then show ?thesis by (simp add: real_hashes_def level_ref_def list_all_iff level_node_def)
qed

lemma level_ref_inj:
  assumes "collision_free H (level_inputs H hs @ level_inputs H hs')" "level_ref H hs = level_ref H hs'"
    and "real_hashes hs" "real_hashes hs'"
  shows "hs = hs'"
proof -
  have n: "LvCnt hs = LvCnt hs'" using assms(2) by (metis length_level_ref)
  have "level_chunk hs i = level_chunk hs' i" if "i < LvCnt hs" for i
  proof (rule level_node_inj)
    show "collision_free H (node_inputs H (level_chunk hs i) @ node_inputs H (level_chunk hs' i))"
      using that n by (intro collision_free_mono [OF assms(1)]) (auto simp: level_inputs_def)
    show "level_node H (level_chunk hs i) = level_node H (level_chunk hs' i)"
      using arg_cong [OF assms(2), of "\<lambda>l. l ! i"] that n by (simp add: level_ref_def)
  qed (use assms(3,4) length_level_chunk in \<open>simp_all add: real_chunk hashPerLevel_def\<close>)
  then have "map (level_chunk hs) [0..<LvCnt hs] = map (level_chunk hs') [0..<LvCnt hs']"
    using n by simp
  then show ?thesis
    using concat_chunks [OF LvCnt_bounds(1), of hs] concat_chunks [OF LvCnt_bounds(1), of hs'] by metis
qed

lemma level_root_inj:
  assumes "length hs \<le> 65536" "length hs' \<le> 65536" "level_root H hs = level_root H hs'"
    and "real_hashes hs" "real_hashes hs'"
    and cf: "collision_free H (root_inputs H hs @ root_inputs H hs')"
  shows "hs = hs'"
proof -
  let ?a = "level_ref H hs" let ?b = "level_ref H ?a" let ?c = "level_ref H ?b"
  let ?a' = "level_ref H hs'" let ?b' = "level_ref H ?a'" let ?c' = "level_ref H ?b'"
  have sub: "collision_free H es" if "set es \<subseteq> set (root_inputs H hs @ root_inputs H hs')" for es
    using cf that by (rule collision_free_mono)
  have real: "real_hashes ?a" "real_hashes ?b" "real_hashes ?c"
    "real_hashes ?a'" "real_hashes ?b'" "real_hashes ?c'"
    by (auto intro!: real_level_ref sub simp: root_inputs_def Let_def)
  have "?c = ?c'"
  proof (rule level_node_inj)
    show "collision_free H (node_inputs H ?c @ node_inputs H ?c')"
      by (rule sub) (auto simp: root_inputs_def Let_def)
  qed (use real assms(1-3) in \<open>auto simp: level_root_def third_level_le\<close>)
  then have "?b = ?b'"
    by (rule level_ref_inj [rotated]) (use real in \<open>auto intro!: sub simp: root_inputs_def Let_def\<close>)
  then have "?a = ?a'"
    by (rule level_ref_inj [rotated]) (use real in \<open>auto intro!: sub simp: root_inputs_def Let_def\<close>)
  then show ?thesis
    by (rule level_ref_inj [rotated]) (use assms(4,5) in \<open>auto intro!: sub simp: root_inputs_def Let_def\<close>)
qed

text \<open>
  C17. The level root binds the transaction list: two lists of (non-empty) hashes have the same level
  root exactly when they are equal, so a header's \<open>LevelRootHash\<close> fixes the number and the order of the
  transactions, unless \<open>H\<close> collides on two of the strings hashed on the way to the two roots.
\<close>

theorem BuildLevelRoot_binding:
  assumes "schedule order" "schedule order'"
    and "length hs \<le> 65536" "length hs' \<le> 65536"
    and "real_hashes hs" "real_hashes hs'"
    and "collision_free H (root_inputs H hs @ root_inputs H hs')"
  shows "BuildLevelRoot H order hs = BuildLevelRoot H order' hs' \<longleftrightarrow> hs = hs'"
  using level_root_inj [OF assms(3,4) _ assms(5-7)] assms(3,4)
  by (auto simp: BuildLevelRoot_level_root [OF assms(1)] BuildLevelRoot_level_root [OF assms(2)])

text \<open>A small hash function for concrete evaluations: the length and the first 31 bytes.\<close>

definition prefix_hash :: "bytes \<Rightarrow> bytes" where
  "prefix_hash d = word_of_nat (length d) # take 31 (d @ replicate 31 0)"

lemma length_levelHashAppender: "length levelHashAppender = 15"
  by (simp add: levelHashAppender_def)

lemma length_hash16_piece:
  "length y = 32 \<Longrightarrow> length (hash16_piece [y] i) = (if i < 15 then 33 else 32)"
  by (simp add: hash16_piece_def length_levelHashAppender Hash256Size_def)

lemma prefix_hash_node:
  assumes "length y = 32"
  shows "prefix_hash (hash16_buffer [y]) = 15 # take 31 y"
    "prefix_hash (15 # take 31 y) = 32 # 15 # take 30 y"
proof -
  have len: "length (hash16_buffer [y]) = 527"
    by (simp add: hash16_buffer_def hashPerLevel_def length_concat comp_def length_hash16_piece assms upt_rec)
  have "hash16_buffer [y] = hash16_piece [y] 0 @ concat (map (hash16_piece [y]) [1..<16])"
    by (simp add: hash16_buffer_def hashPerLevel_def upt_rec)
  then have "take 31 (hash16_buffer [y]) = take 31 y"
    by (simp add: hash16_piece_def assms)
  then show "prefix_hash (hash16_buffer [y]) = 15 # take 31 y"
    using len by (simp add: prefix_hash_def)
  show "prefix_hash (15 # take 31 y) = 32 # 15 # take 30 y"
    using assms by (simp add: prefix_hash_def take_Cons')
qed

lemma prefix_hash_level:
  assumes "length y = 32"
  shows "level_ref prefix_hash [y] = [32 # 15 # take 30 y]"
    "level_inputs prefix_hash [y] = [hash16_buffer [y], 15 # take 31 y]"
    "node_inputs prefix_hash [y] = [hash16_buffer [y], 15 # take 31 y]"
  using assms prefix_hash_node [OF assms]
  by (simp_all add: level_ref_def level_inputs_def node_inputs_def LvCnt_def hashPerLevel_def
      level_chunk_eq level_node_def DoubleHash_def Hash_eq Hash256Size_def)

lemma replicate_32: "replicate 32 c = c # replicate 31 c"
  by (simp flip: replicate_Suc)

lemma prefix_hash_free_list:
  assumes "\<forall>y \<in> set ys. length y = 32" "\<forall>y \<in> set ys. \<forall>z \<in> set ys. take 30 y = take 30 z \<longrightarrow> y = z"
  shows "collision_free prefix_hash (concat (map (\<lambda>y. [hash16_buffer [y], 15 # take 31 y]) ys))"
proof -
  have eq31: "y = z" if "y \<in> set ys" "z \<in> set ys" "take 31 y = take 31 z" for y z
  proof -
    have "take 30 (take 31 y) = take 30 (take 31 z)" using that(3) by simp
    then show ?thesis using assms(2) that(1,2) by simp
  qed
  have first: "15 # take 31 y \<noteq> EmptyHash" "32 # 15 # take 30 y \<noteq> EmptyHash" for y :: bytes
    by (simp_all add: EmptyHash_def Hash256Size_def replicate_32)
  show ?thesis
    using assms first
    by (auto simp: collision_free_def Hash256Size_def prefix_hash_node dest: eq31)
qed

lemma prefix_hash_free:
  "collision_free prefix_hash (root_inputs prefix_hash [replicate 32 1] @ root_inputs prefix_hash [replicate 32 2])"
proof -
  let ?f = "\<lambda>y. 32 # 15 # take 30 y"
  let ?ys = "\<lambda>x. [x, ?f x, ?f (?f x), ?f (?f (?f x))] :: bytes list"
  have "root_inputs prefix_hash [x] = concat (map (\<lambda>y. [hash16_buffer [y], 15 # take 31 y]) (?ys x))"
    if "length x = 32" for x
    using that by (simp add: root_inputs_def prefix_hash_level)
  then have "root_inputs prefix_hash [replicate 32 1] @ root_inputs prefix_hash [replicate 32 2] =
      concat (map (\<lambda>y. [hash16_buffer [y], 15 # take 31 y]) (?ys (replicate 32 1) @ ?ys (replicate 32 2)))"
    by simp
  moreover have "collision_free prefix_hash
      (concat (map (\<lambda>y. [hash16_buffer [y], 15 # take 31 y]) (?ys (replicate 32 1) @ ?ys (replicate 32 2))))"
    by (rule prefix_hash_free_list) (simp_all add: replicate_32)
  ultimately show ?thesis by (simp only:)
qed

theorem BuildLevelRoot_binding_witness:
  "BuildLevelRoot prefix_hash (\<lambda>n. [0..<n]) [replicate 32 1]
     \<noteq> BuildLevelRoot prefix_hash (\<lambda>n. rev [0..<n]) [replicate 32 2]"
proof -
  have "real_hashes [replicate 32 1]" "real_hashes [replicate 32 2]"
    by (simp_all add: real_hashes_def is_hash_def EmptyHash_def Hash256Size_def)
  then show ?thesis
    using BuildLevelRoot_binding [OF schedule_upt schedule_rev _ _ _ _ prefix_hash_free] by simp
qed

section \<open>Hashes\<close>

lemma Hashes_loop_length: "length (Hashes_loop n i hs data idx) = length data"
  by (induction n i hs data idx rule: Hashes_loop.induct) (auto simp: Let_def)

lemma Hashes_loop_last:
  assumes "list_all is_hash (hs @ hs')" "length hs = length hs'" "n = i + length hs" "hs \<noteq> []"
    and "last hs = last hs'" "idx = i * 33" "length data = 33 * n - 1" "length data' = length data"
    and "drop 32 data = drop 32 data'"
  shows "Hashes_loop n i hs data idx = Hashes_loop n i hs' data' idx"
  using assms
proof (induction hs arbitrary: hs' i data data' idx)
  case (Cons h hs)
  then obtain h' ts where hs': "hs' = h' # ts" by (cases hs') auto
  let ?d = "go_copy data h" and ?d' = "go_copy data' h'"
  have lh: "length h = 32" "length h' = 32"
    using Cons.prems(1) hs' by (auto simp: is_hash_def Hash256Size_def)
  have ge: "32 \<le> length data" using Cons.prems(3,7) by simp
  have tl: "drop 32 ?d = drop 32 ?d'" using lh ge Cons.prems(8,9) by (simp add: go_copy_def)
  show ?case
  proof (cases "hs = []")
    case True
    then have "ts = []" "h = h'" using Cons.prems(2,5) hs' by auto
    moreover have "?d = ?d'" using lh ge Cons.prems(8,9) \<open>h = h'\<close> by (simp add: go_copy_def)
    ultimately show ?thesis using True hs' by (simp add: Let_def)
  next
    case False
    let ?k = "idx + Hash256Size"
    have "i < n - 1" using Cons.prems(3) False by (cases hs) auto
    moreover have "Hashes_loop n (i + 1) hs (?d[?k := of_char CHR ''h'']) (?k + 1)
        = Hashes_loop n (i + 1) ts (?d'[?k := of_char CHR ''h'']) (?k + 1)"
    proof (rule Cons.IH)
      show "drop 32 (?d[?k := of_char CHR ''h'']) = drop 32 (?d'[?k := of_char CHR ''h''])"
        using tl by (simp add: drop_update_swap Hash256Size_def)
      show "last hs = last ts" using Cons.prems(2,5) hs' False by (cases ts) auto
    qed (use Cons.prems hs' False in \<open>auto simp: Hash256Size_def\<close>)
    ultimately show ?thesis using hs' by (simp add: Let_def)
  qed
qed simp

text \<open>
  C40. \<open>Hashes\<close> is not a hash of all its arguments: it depends only on their number and on the last of
  them, because every argument is copied to offset 0. In particular \<open>Context.Hash\<close> and the genesis hash,
  which combine several hashes with it, ignore all but the last.
\<close>

theorem Hashes_only_last:
  assumes "list_all is_hash (hs @ hs')" "length hs = length hs'" "hs \<noteq> []" "last hs = last hs'"
  shows "Hashes H hs = Hashes H hs'"
proof -
  have "Hashes_loop (length hs) 0 hs data 0 = Hashes_loop (length hs) 0 hs' data 0"
    if "length data = 33 * length hs - 1" for data
    by (rule Hashes_loop_last) (use assms that in simp_all)
  then show ?thesis using assms by (auto simp: Hashes_def Hash256Size_def)
qed

theorem Hashes_only_last_witness:
  "Hashes prefix_hash [replicate 32 1, EmptyHash] = Hashes prefix_hash [replicate 32 2, EmptyHash]"
  by (rule Hashes_only_last) (simp_all add: is_hash_def Hash256Size_def)

end
