(* ===== verification/Context.thy ===== *)
theory Context
  imports Types Hashing
begin

text \<open>
  \<open>core/types\<close>: \<open>loader.go\<close>, \<open>context_cache.go\<close>, \<open>context_data.go\<close> and \<open>context.go\<close>. A \<open>Context\<close> is the
  state a block is executed on: a stack of \<open>ContextData\<close> snapshots over a cache over a loader. The model
  keeps the stack with its top first, so the \<open>Parent\<close> of a snapshot is the next element and the bottom
  snapshot reads the cache. Reading memoises in the top snapshot and in the cache, so every read returns
  the changed state. The loader (the store, or the context of the previous block) is a record of functions.
  The ordered maps of the source are functions to \<open>option\<close>: their order is visible only in
  \<open>ContextData.Hash\<close>, which is not modelled here.
\<close>

section \<open>Loader\<close>

record loader =
  ld_ChainID :: u8
  ld_Name :: string
  ld_Version :: u16
  ld_TargetHeight :: u32
  ld_LastHash :: hash256
  ld_LastTimestamp :: u64
  ld_Seq :: "address \<Rightarrow> u64"
  ld_Account :: "address \<Rightarrow> account res"
  ld_AddressByName :: "string \<Rightarrow> address res"
  ld_HasAccount :: "address \<Rightarrow> bool res"
  ld_HasAccountName :: "string \<Rightarrow> bool res"
  ld_AccountData :: "address \<Rightarrow> u8 \<Rightarrow> bytes \<Rightarrow> bytes"
  ld_HasUTXO :: "u64 \<Rightarrow> bool res"
  ld_UTXO :: "u64 \<Rightarrow> utxo res"
  ld_ProcessData :: "u8 \<Rightarrow> bytes \<Rightarrow> bytes"

definition emptyLoader :: loader where
  "emptyLoader = \<lparr>ld_ChainID = 0, ld_Name = '''', ld_Version = 0, ld_TargetHeight = 0, ld_LastHash = EmptyHash,
     ld_LastTimestamp = 0, ld_Seq = (\<lambda>_. 0), ld_Account = (\<lambda>_. Inl ErrNotExistAccount),
     ld_AddressByName = (\<lambda>_. Inl ErrNotExistAccount), ld_HasAccount = (\<lambda>_. Inr False),
     ld_HasAccountName = (\<lambda>_. Inr False), ld_AccountData = (\<lambda>_ _ _. []), ld_HasUTXO = (\<lambda>_. Inr False),
     ld_UTXO = (\<lambda>_. Inl ErrNotExistUTXO), ld_ProcessData = (\<lambda>_ _. [])\<rparr>"

section \<open>Context cache\<close>

record cache =
  cc_SeqMap :: "address \<rightharpoonup> u64"
  cc_AccountMap :: "address \<rightharpoonup> account"
  cc_AccountNameMap :: "string \<rightharpoonup> address"
  cc_AccountDataMap :: "bytes \<rightharpoonup> bytes"
  cc_ProcessDataMap :: "bytes \<rightharpoonup> bytes"
  cc_UTXOMap :: "u64 \<rightharpoonup> utxo"

definition newContextCache :: cache where
  "newContextCache = \<lparr>cc_SeqMap = Map.empty, cc_AccountMap = Map.empty, cc_AccountNameMap = Map.empty,
     cc_AccountDataMap = Map.empty, cc_ProcessDataMap = Map.empty, cc_UTXOMap = Map.empty\<rparr>"

definition cc_Seq :: "loader \<Rightarrow> address \<Rightarrow> cache \<Rightarrow> u64 \<times> cache" where
  "cc_Seq ld addr cc =
     (case cc_SeqMap cc addr of
        Some seq \<Rightarrow> (seq, cc)
      | None \<Rightarrow> (let seq = ld_Seq ld addr in (seq, cc\<lparr>cc_SeqMap := (cc_SeqMap cc)(addr \<mapsto> seq)\<rparr>)))"

definition cc_Account :: "loader \<Rightarrow> address \<Rightarrow> cache \<Rightarrow> account res \<times> cache" where
  "cc_Account ld addr cc =
     (case cc_AccountMap cc addr of
        Some acc \<Rightarrow> (Inr acc, cc)
      | None \<Rightarrow> (case ld_Account ld addr of
            Inl err \<Rightarrow> (Inl err, cc)
          | Inr acc \<Rightarrow> (Inr acc, cc\<lparr>cc_AccountMap := (cc_AccountMap cc)(addr \<mapsto> acc)\<rparr>)))"

definition cc_AddressByName :: "loader \<Rightarrow> string \<Rightarrow> cache \<Rightarrow> address res \<times> cache" where
  "cc_AddressByName ld Name cc =
     (case cc_AccountNameMap cc Name of
        Some addr \<Rightarrow> (Inr addr, cc)
      | None \<Rightarrow> (case ld_AddressByName ld Name of
            Inl err \<Rightarrow> (Inl err, cc)
          | Inr addr \<Rightarrow> (Inr addr, cc\<lparr>cc_AccountNameMap := (cc_AccountNameMap cc)(Name \<mapsto> addr)\<rparr>)))"

definition cc_HasAccount :: "loader \<Rightarrow> address \<Rightarrow> cache \<Rightarrow> bool res" where
  "cc_HasAccount ld addr cc = (if cc_AccountMap cc addr \<noteq> None then Inr True else ld_HasAccount ld addr)"

definition cc_HasAccountName :: "loader \<Rightarrow> string \<Rightarrow> cache \<Rightarrow> bool res" where
  "cc_HasAccountName ld Name cc = (if cc_AccountNameMap cc Name \<noteq> None then Inr True else ld_HasAccountName ld Name)"

definition cc_AccountData :: "loader \<Rightarrow> address \<Rightarrow> u8 \<Rightarrow> bytes \<Rightarrow> cache \<Rightarrow> bytes \<times> cache" where
  "cc_AccountData ld addr pid name cc =
     (let key = account_key addr pid name in
      case cc_AccountDataMap cc key of
        Some value \<Rightarrow> (value, cc)
      | None \<Rightarrow> (let value = ld_AccountData ld addr pid name
                in (value, cc\<lparr>cc_AccountDataMap := (cc_AccountDataMap cc)(key \<mapsto> value)\<rparr>)))"

text \<open>Unlike the other lookups, \<open>HasUTXO\<close> never asks the loader.\<close>

definition cc_HasUTXO :: "u64 \<Rightarrow> cache \<Rightarrow> bool res" where
  "cc_HasUTXO uid cc = (if cc_UTXOMap cc uid \<noteq> None then Inr True else Inr False)"

definition cc_UTXO :: "loader \<Rightarrow> u64 \<Rightarrow> cache \<Rightarrow> utxo res \<times> cache" where
  "cc_UTXO ld uid cc =
     (case cc_UTXOMap cc uid of
        Some u \<Rightarrow> (Inr u, cc)
      | None \<Rightarrow> (case ld_UTXO ld uid of
            Inl err \<Rightarrow> (Inl err, cc)
          | Inr u \<Rightarrow> (Inr u, cc\<lparr>cc_UTXOMap := (cc_UTXOMap cc)(uid \<mapsto> u)\<rparr>)))"

definition cc_ProcessData :: "loader \<Rightarrow> u8 \<Rightarrow> bytes \<Rightarrow> cache \<Rightarrow> bytes \<times> cache" where
  "cc_ProcessData ld pid name cc =
     (let key = process_key pid name in
      case cc_ProcessDataMap cc key of
        Some value \<Rightarrow> (value, cc)
      | None \<Rightarrow> (let value = ld_ProcessData ld pid name
                in (value, cc\<lparr>cc_ProcessDataMap := (cc_ProcessDataMap cc)(key \<mapsto> value)\<rparr>)))"

section \<open>Context data\<close>

record ctx_data =
  SeqMap :: "address \<rightharpoonup> u64"
  AccountMap :: "address \<rightharpoonup> account"
  DeletedAccountMap :: "address \<rightharpoonup> account"
  AccountNameMap :: "string \<rightharpoonup> address"
  AccountDataMap :: "bytes \<rightharpoonup> bytes"
  DeletedAccountDataMap :: "bytes \<rightharpoonup> bool"
  ProcessDataMap :: "bytes \<rightharpoonup> bytes"
  DeletedProcessDataMap :: "bytes \<rightharpoonup> bool"
  UTXOMap :: "u64 \<rightharpoonup> utxo"
  CreatedUTXOMap :: "u64 \<rightharpoonup> txout"
  DeletedUTXOMap :: "u64 \<rightharpoonup> utxo"
  Events :: "event list"
  EventN :: u16
  isTop :: bool

definition NewContextData :: "ctx_data option \<Rightarrow> ctx_data" where
  "NewContextData Parent =
     \<lparr>SeqMap = Map.empty, AccountMap = Map.empty, DeletedAccountMap = Map.empty, AccountNameMap = Map.empty,
      AccountDataMap = Map.empty, DeletedAccountDataMap = Map.empty, ProcessDataMap = Map.empty,
      DeletedProcessDataMap = Map.empty, UTXOMap = Map.empty, CreatedUTXOMap = Map.empty, DeletedUTXOMap = Map.empty,
      Events = [], EventN = (case Parent of None \<Rightarrow> 0 | Some p \<Rightarrow> EventN p), isTop = True\<rparr>"

text \<open>
  The reads: the list is the snapshot with its parents, the empty list stands for \<open>ctd.loader\<close>, the cache.
\<close>

fun ctd_Seq :: "loader \<Rightarrow> address \<Rightarrow> ctx_data list \<Rightarrow> cache \<Rightarrow> u64 \<times> ctx_data list \<times> cache" where
  "ctd_Seq ld addr [] cc = (case cc_Seq ld addr cc of (seq, cc') \<Rightarrow> (seq, [], cc'))"
| "ctd_Seq ld addr (ctd # ps) cc =
     (if DeletedAccountMap ctd addr \<noteq> None then (0, ctd # ps, cc)
      else case SeqMap ctd addr of
          Some seq \<Rightarrow> (seq, ctd # ps, cc)
        | None \<Rightarrow>
            (case ctd_Seq ld addr ps cc of (seq, ps', cc') \<Rightarrow>
               if 0 < seq \<and> isTop ctd then (seq, ctd\<lparr>SeqMap := (SeqMap ctd)(addr \<mapsto> seq)\<rparr> # ps', cc')
               else (seq, ctd # ps', cc')))"

definition ctd_AddSeq :: "loader \<Rightarrow> address \<Rightarrow> ctx_data list \<Rightarrow> cache \<Rightarrow> ctx_data list \<times> cache" where
  "ctd_AddSeq ld addr st cc =
     (if DeletedAccountMap (hd st) addr \<noteq> None then (st, cc)
      else case ctd_Seq ld addr st cc of (seq, st', cc') \<Rightarrow>
        ((hd st')\<lparr>SeqMap := (SeqMap (hd st'))(addr \<mapsto> seq + 1)\<rparr> # tl st', cc'))"

fun ctd_Account :: "loader \<Rightarrow> address \<Rightarrow> ctx_data list \<Rightarrow> cache \<Rightarrow> account res \<times> ctx_data list \<times> cache" where
  "ctd_Account ld addr [] cc = (case cc_Account ld addr cc of (r, cc') \<Rightarrow> (r, [], cc'))"
| "ctd_Account ld addr (ctd # ps) cc =
     (if DeletedAccountMap ctd addr \<noteq> None then (Inl ErrDeletedAccount, ctd # ps, cc)
      else case AccountMap ctd addr of
          Some acc \<Rightarrow> (Inr acc, ctd # ps, cc)
        | None \<Rightarrow>
            (case ctd_Account ld addr ps cc of
               (Inl err, ps', cc') \<Rightarrow> (Inl err, ctd # ps', cc')
             | (Inr acc, ps', cc') \<Rightarrow>
                 if isTop ctd then (Inr acc, ctd\<lparr>AccountMap := (AccountMap ctd)(addr \<mapsto> acc)\<rparr> # ps', cc')
                 else (Inr acc, ctd # ps', cc')))"

fun ctd_AddressByName :: "loader \<Rightarrow> string \<Rightarrow> ctx_data list \<Rightarrow> cache \<Rightarrow> address res \<times> ctx_data list \<times> cache" where
  "ctd_AddressByName ld Name [] cc = (case cc_AddressByName ld Name cc of (r, cc') \<Rightarrow> (r, [], cc'))"
| "ctd_AddressByName ld Name (ctd # ps) cc =
     (case AccountNameMap ctd Name of
        Some addr \<Rightarrow> (Inr addr, ctd # ps, cc)
      | None \<Rightarrow>
          (case ctd_AddressByName ld Name ps cc of
             (Inl err, ps', cc') \<Rightarrow> (Inl err, ctd # ps', cc')
           | (Inr addr, ps', cc') \<Rightarrow>
               if isTop ctd then (Inr addr, ctd\<lparr>AccountNameMap := (AccountNameMap ctd)(Name \<mapsto> addr)\<rparr> # ps', cc')
               else (Inr addr, ctd # ps', cc')))"

fun ctd_HasAccount :: "loader \<Rightarrow> address \<Rightarrow> ctx_data list \<Rightarrow> cache \<Rightarrow> bool res" where
  "ctd_HasAccount ld addr [] cc = cc_HasAccount ld addr cc"
| "ctd_HasAccount ld addr (ctd # ps) cc =
     (if DeletedAccountMap ctd addr \<noteq> None then Inr False
      else if AccountMap ctd addr \<noteq> None then Inr True
      else ctd_HasAccount ld addr ps cc)"

fun ctd_HasAccountName :: "loader \<Rightarrow> string \<Rightarrow> ctx_data list \<Rightarrow> cache \<Rightarrow> bool res" where
  "ctd_HasAccountName ld Name [] cc = cc_HasAccountName ld Name cc"
| "ctd_HasAccountName ld Name (ctd # ps) cc =
     (if AccountNameMap ctd Name \<noteq> None then Inr True else ctd_HasAccountName ld Name ps cc)"

fun ctd_AccountData ::
    "loader \<Rightarrow> address \<Rightarrow> u8 \<Rightarrow> bytes \<Rightarrow> ctx_data list \<Rightarrow> cache \<Rightarrow> bytes \<times> ctx_data list \<times> cache" where
  "ctd_AccountData ld addr pid name [] cc = (case cc_AccountData ld addr pid name cc of (v, cc') \<Rightarrow> (v, [], cc'))"
| "ctd_AccountData ld addr pid name (ctd # ps) cc =
     (let key = account_key addr pid name in
      if DeletedAccountDataMap ctd key \<noteq> None then ([], ctd # ps, cc)
      else case AccountDataMap ctd key of
          Some value \<Rightarrow> (value, ctd # ps, cc)
        | None \<Rightarrow>
            (case ctd_AccountData ld addr pid name ps cc of (value, ps', cc') \<Rightarrow>
               if 0 < length value then
                 if isTop ctd then (value, ctd\<lparr>AccountDataMap := (AccountDataMap ctd)(key \<mapsto> value)\<rparr> # ps', cc')
                 else (value, ctd # ps', cc')
               else ([], ctd # ps', cc')))"

definition ctd_SetAccountData :: "address \<Rightarrow> u8 \<Rightarrow> bytes \<Rightarrow> bytes \<Rightarrow> ctx_data \<Rightarrow> ctx_data" where
  "ctd_SetAccountData addr pid name value ctd =
     (let key = account_key addr pid name in
      if length value = 0 then
        ctd\<lparr>AccountDataMap := (AccountDataMap ctd)(key := None),
            DeletedAccountDataMap := (DeletedAccountDataMap ctd)(key \<mapsto> True)\<rparr>
      else
        ctd\<lparr>DeletedAccountDataMap := (DeletedAccountDataMap ctd)(key := None),
            AccountDataMap := (AccountDataMap ctd)(key \<mapsto> value)\<rparr>)"

fun ctd_HasUTXO :: "u64 \<Rightarrow> ctx_data list \<Rightarrow> cache \<Rightarrow> bool res" where
  "ctd_HasUTXO uid [] cc = cc_HasUTXO uid cc"
| "ctd_HasUTXO uid (ctd # ps) cc =
     (if DeletedUTXOMap ctd uid \<noteq> None then Inr False
      else if UTXOMap ctd uid \<noteq> None then Inr True
      else if CreatedUTXOMap ctd uid \<noteq> None then Inr True
      else ctd_HasUTXO uid ps cc)"

fun ctd_UTXO :: "loader \<Rightarrow> u64 \<Rightarrow> ctx_data list \<Rightarrow> cache \<Rightarrow> utxo res \<times> ctx_data list \<times> cache" where
  "ctd_UTXO ld uid [] cc = (case cc_UTXO ld uid cc of (r, cc') \<Rightarrow> (r, [], cc'))"
| "ctd_UTXO ld uid (ctd # ps) cc =
     (if DeletedUTXOMap ctd uid \<noteq> None then (Inl ErrUsedUTXO, ctd # ps, cc)
      else case UTXOMap ctd uid of
          Some u \<Rightarrow> (Inr u, ctd # ps, cc)
        | None \<Rightarrow>
            (case ctd_UTXO ld uid ps cc of
               (Inl err, ps', cc') \<Rightarrow> (Inl err, ctd # ps', cc')
             | (Inr u, ps', cc') \<Rightarrow>
                 if isTop ctd then (Inr u, ctd\<lparr>UTXOMap := (UTXOMap ctd)(uid \<mapsto> u)\<rparr> # ps', cc')
                 else (Inr u, ctd # ps', cc')))"

definition ctd_EmitEvent :: "event \<Rightarrow> ctx_data \<Rightarrow> ctx_data" where
  "ctd_EmitEvent e ctd = ctd\<lparr>EventN := EventN ctd + 1, Events := Events ctd @ [event_SetN (EventN ctd) e]\<rparr>"

fun ctd_ProcessData ::
    "loader \<Rightarrow> u8 \<Rightarrow> bytes \<Rightarrow> ctx_data list \<Rightarrow> cache \<Rightarrow> bytes \<times> ctx_data list \<times> cache" where
  "ctd_ProcessData ld pid name [] cc = (case cc_ProcessData ld pid name cc of (v, cc') \<Rightarrow> (v, [], cc'))"
| "ctd_ProcessData ld pid name (ctd # ps) cc =
     (let key = process_key pid name in
      if DeletedProcessDataMap ctd key \<noteq> None then ([], ctd # ps, cc)
      else case ProcessDataMap ctd key of
          Some value \<Rightarrow> (value, ctd # ps, cc)
        | None \<Rightarrow>
            (case ctd_ProcessData ld pid name ps cc of (value, ps', cc') \<Rightarrow>
               if 0 < length value then
                 if isTop ctd then (value, ctd\<lparr>ProcessDataMap := (ProcessDataMap ctd)(key \<mapsto> value)\<rparr> # ps', cc')
                 else (value, ctd # ps', cc')
               else ([], ctd # ps', cc')))"

definition ctd_SetProcessData :: "u8 \<Rightarrow> bytes \<Rightarrow> bytes \<Rightarrow> ctx_data \<Rightarrow> ctx_data" where
  "ctd_SetProcessData pid name value ctd =
     (let key = process_key pid name in
      if length value = 0 then
        ctd\<lparr>ProcessDataMap := (ProcessDataMap ctd)(key := None),
            DeletedProcessDataMap := (DeletedProcessDataMap ctd)(key \<mapsto> True)\<rparr>
      else
        ctd\<lparr>DeletedProcessDataMap := (DeletedProcessDataMap ctd)(key := None),
            ProcessDataMap := (ProcessDataMap ctd)(key \<mapsto> value)\<rparr>)"

text \<open>
  The writes that read first. A missing account is no reason to reject a creation, whichever way the loader
  reports it.
\<close>

definition exist_check :: "bool res \<Rightarrow> error \<Rightarrow> unit res" where
  "exist_check has exists =
     (case has of
        Inl err \<Rightarrow> if err \<noteq> ErrNotExistAccount then Inl err else Inr ()
      | Inr b \<Rightarrow> if b then Inl exists else Inr ())"

definition ctd_CreateAccount ::
    "(string \<Rightarrow> bytes res) \<Rightarrow> loader \<Rightarrow> u32 \<Rightarrow> account \<Rightarrow> ctx_data list \<Rightarrow> cache \<Rightarrow> ctx_data list res" where
  "ctd_CreateAccount dec ld TargetHeight acc st cc =
     (let addr = account_Address acc; name = account_Name acc in
      if Height addr \<noteq> Inr TargetHeight then Inl ErrInvalidAddressHeight
      else if addr = NewAddress 0 0 0 then Inl ErrNotAllowedZeroAddressAccount
      else if ParseAddress dec name \<in> range Inr then Inl ErrNotAllowedAddressAccountName
      else bind_res (exist_check (ctd_HasAccount ld addr st cc) ErrExistAccount) (\<lambda>_.
           bind_res (exist_check (ctd_HasAccountName ld name st cc) ErrExistAccountName) (\<lambda>_.
           Inr ((hd st)\<lparr>AccountMap := (AccountMap (hd st))(addr \<mapsto> acc),
                        AccountNameMap := (AccountNameMap (hd st))(name \<mapsto> addr)\<rparr> # tl st))))"

definition ctd_DeleteAccount ::
    "loader \<Rightarrow> account \<Rightarrow> ctx_data list \<Rightarrow> cache \<Rightarrow> unit res \<times> ctx_data list \<times> cache" where
  "ctd_DeleteAccount ld acc st cc =
     (let addr = account_Address acc in
      case ctd_Account ld addr st cc of
        (Inl err, st', cc') \<Rightarrow> (Inl err, st', cc')
      | (Inr _, st', cc') \<Rightarrow>
          (Inr (), (hd st')\<lparr>DeletedAccountMap := (DeletedAccountMap (hd st'))(addr \<mapsto> acc),
                            AccountMap := (AccountMap (hd st'))(addr := None),
                            AccountNameMap := (AccountNameMap (hd st'))(account_Name acc := None)\<rparr> # tl st', cc'))"

definition ctd_CreateUTXO ::
    "loader \<Rightarrow> u64 \<Rightarrow> txout \<Rightarrow> ctx_data list \<Rightarrow> cache \<Rightarrow> unit res \<times> ctx_data list \<times> cache" where
  "ctd_CreateUTXO ld uid vout st cc =
     (case ctd_UTXO ld uid st cc of
        (Inl err, st', cc') \<Rightarrow>
          if err \<noteq> ErrNotExistUTXO then (Inl err, st', cc')
          else (Inr (), (hd st')\<lparr>CreatedUTXOMap := (CreatedUTXOMap (hd st'))(uid \<mapsto> vout)\<rparr> # tl st', cc')
      | (Inr _, st', cc') \<Rightarrow> (Inl ErrExistUTXO, st', cc'))"

definition ctd_DeleteUTXO ::
    "loader \<Rightarrow> utxo \<Rightarrow> ctx_data list \<Rightarrow> cache \<Rightarrow> unit res \<times> ctx_data list \<times> cache" where
  "ctd_DeleteUTXO ld u st cc =
     (case ctd_UTXO ld (utxo_ID u) st cc of
        (Inl err, st', cc') \<Rightarrow> (Inl err, st', cc')
      | (Inr _, st', cc') \<Rightarrow>
          (Inr (), (hd st')\<lparr>DeletedUTXOMap := (DeletedUTXOMap (hd st'))(utxo_ID u \<mapsto> u)\<rparr> # tl st', cc'))"

section \<open>Context\<close>

record ctx =
  ctx_loader :: loader
  genTargetHeight :: u32
  genLastHash :: hash256
  genTimestamp :: u64
  ctx_cache :: cache
  ctx_stack :: "ctx_data list"
  isLatestHash :: bool
  dataHash :: hash256

definition NewContext :: "loader \<Rightarrow> ctx" where
  "NewContext ld = \<lparr>ctx_loader = ld, genTargetHeight = ld_TargetHeight ld, genLastHash = ld_LastHash ld,
     genTimestamp = ld_LastTimestamp ld, ctx_cache = newContextCache, ctx_stack = [NewContextData None],
     isLatestHash = False, dataHash = EmptyHash\<rparr>"

text \<open>
  Code that runs on a context takes it and returns a result with the changed context; an error keeps the
  changes made before it, as the source does. \<open>Top\<close> of an empty stack panics.
\<close>

type_synonym 'a cm = "ctx \<Rightarrow> 'a res \<times> ctx"

definition cret :: "'a \<Rightarrow> 'a cm" where "cret a ctx = (Inr a, ctx)"

definition cfail :: "error \<Rightarrow> 'a cm" where "cfail e ctx = (Inl e, ctx)"

definition cbind :: "'a cm \<Rightarrow> ('a \<Rightarrow> 'b cm) \<Rightarrow> 'b cm" where
  "cbind m f ctx = (case m ctx of (Inl e, ctx') \<Rightarrow> (Inl e, ctx') | (Inr a, ctx') \<Rightarrow> f a ctx')"

definition on_stack :: "(loader \<Rightarrow> ctx_data list \<Rightarrow> cache \<Rightarrow> 'a \<times> ctx_data list \<times> cache) \<Rightarrow> 'a cm" where
  "on_stack f ctx =
     (if ctx_stack ctx = [] then (Inl Panic, ctx)
      else case f (ctx_loader ctx) (ctx_stack ctx) (ctx_cache ctx) of
        (v, st, cc) \<Rightarrow> (Inr v, ctx\<lparr>ctx_stack := st, ctx_cache := cc\<rparr>))"

definition on_stack_res :: "(loader \<Rightarrow> ctx_data list \<Rightarrow> cache \<Rightarrow> 'a res \<times> ctx_data list \<times> cache) \<Rightarrow> 'a cm" where
  "on_stack_res f = cbind (on_stack f) (\<lambda>r ctx. (r, ctx))"

definition on_top :: "(ctx_data \<Rightarrow> ctx_data) \<Rightarrow> unit cm" where
  "on_top f = on_stack (\<lambda>ld st cc. ((), f (hd st) # tl st, cc))"

definition dirty :: "ctx \<Rightarrow> ctx" where "dirty ctx = ctx\<lparr>isLatestHash := False\<rparr>"

definition ctx_Seq :: "address \<Rightarrow> u64 cm" where
  "ctx_Seq addr = on_stack (\<lambda>ld. ctd_Seq ld addr)"

definition ctx_AddSeq :: "address \<Rightarrow> unit cm" where
  "ctx_AddSeq addr ctx = on_stack (\<lambda>ld st cc. ((), ctd_AddSeq ld addr st cc)) (dirty ctx)"

definition ctx_Account :: "address \<Rightarrow> account cm" where
  "ctx_Account addr ctx = on_stack_res (\<lambda>ld. ctd_Account ld addr) (dirty ctx)"

definition ctx_AddressByName :: "string \<Rightarrow> address cm" where
  "ctx_AddressByName Name = on_stack_res (\<lambda>ld. ctd_AddressByName ld Name)"

definition ctx_HasAccount :: "address \<Rightarrow> bool cm" where
  "ctx_HasAccount addr = on_stack_res (\<lambda>ld st cc. (ctd_HasAccount ld addr st cc, st, cc))"

definition ctx_HasAccountName :: "string \<Rightarrow> bool cm" where
  "ctx_HasAccountName Name = on_stack_res (\<lambda>ld st cc. (ctd_HasAccountName ld Name st cc, st, cc))"

definition ctx_CreateAccount :: "(string \<Rightarrow> bytes res) \<Rightarrow> account \<Rightarrow> unit cm" where
  "ctx_CreateAccount dec acc ctx =
     on_stack_res (\<lambda>ld st cc.
       case ctd_CreateAccount dec ld (genTargetHeight ctx) acc st cc of
         Inl err \<Rightarrow> (Inl err, st, cc) | Inr st' \<Rightarrow> (Inr (), st', cc)) (dirty ctx)"

definition ctx_DeleteAccount :: "account \<Rightarrow> unit cm" where
  "ctx_DeleteAccount acc ctx = on_stack_res (\<lambda>ld. ctd_DeleteAccount ld acc) (dirty ctx)"

definition ctx_AccountData :: "address \<Rightarrow> u8 \<Rightarrow> bytes \<Rightarrow> bytes cm" where
  "ctx_AccountData addr pid name = on_stack (\<lambda>ld. ctd_AccountData ld addr pid name)"

definition ctx_SetAccountData :: "address \<Rightarrow> u8 \<Rightarrow> bytes \<Rightarrow> bytes \<Rightarrow> unit cm" where
  "ctx_SetAccountData addr pid name value ctx = on_top (ctd_SetAccountData addr pid name value) (dirty ctx)"

definition ctx_HasUTXO :: "u64 \<Rightarrow> bool cm" where
  "ctx_HasUTXO uid = on_stack_res (\<lambda>ld st cc. (ctd_HasUTXO uid st cc, st, cc))"

definition ctx_UTXO :: "u64 \<Rightarrow> utxo cm" where
  "ctx_UTXO uid = on_stack_res (\<lambda>ld. ctd_UTXO ld uid)"

definition ctx_CreateUTXO :: "u64 \<Rightarrow> txout \<Rightarrow> unit cm" where
  "ctx_CreateUTXO uid vout ctx = on_stack_res (\<lambda>ld. ctd_CreateUTXO ld uid vout) (dirty ctx)"

definition ctx_DeleteUTXO :: "utxo \<Rightarrow> unit cm" where
  "ctx_DeleteUTXO u ctx = on_stack_res (\<lambda>ld. ctd_DeleteUTXO ld u) (dirty ctx)"

definition ctx_EmitEvent :: "event \<Rightarrow> unit cm" where
  "ctx_EmitEvent e ctx = on_top (ctd_EmitEvent e) (dirty ctx)"

definition ctx_ProcessData :: "u8 \<Rightarrow> bytes \<Rightarrow> bytes cm" where
  "ctx_ProcessData pid name = on_stack (\<lambda>ld. ctd_ProcessData ld pid name)"

text \<open>The only write that does not reset \<open>isLatestHash\<close>.\<close>

definition ctx_SetProcessData :: "u8 \<Rightarrow> bytes \<Rightarrow> bytes \<Rightarrow> unit cm" where
  "ctx_SetProcessData pid name value = on_top (ctd_SetProcessData pid name value)"

text \<open>
  \<open>Account\<close> hands out a pointer into the top snapshot, and the processes change the account through it:
  this is the assignment.
\<close>

definition ctx_UpdateAccount :: "account \<Rightarrow> unit cm" where
  "ctx_UpdateAccount acc = on_top (\<lambda>ctd. ctd\<lparr>AccountMap := (AccountMap ctd)(account_Address acc \<mapsto> acc)\<rparr>)"

section \<open>Snapshots\<close>

definition set_isTop :: "bool \<Rightarrow> ctx_data list \<Rightarrow> ctx_data list" where
  "set_isTop b st = (case st of [] \<Rightarrow> [] | ctd # ps \<Rightarrow> ctd\<lparr>isTop := b\<rparr> # ps)"

definition ctx_Snapshot :: "nat cm" where
  "ctx_Snapshot ctx =
     (case ctx_stack ctx of
        [] \<Rightarrow> (Inl Panic, dirty ctx)
      | tp # _ \<Rightarrow>
          let st = NewContextData (Some tp) # set_isTop False (ctx_stack ctx)
          in (Inr (length st), (dirty ctx)\<lparr>ctx_stack := st\<rparr>))"

definition ctx_Revert :: "nat \<Rightarrow> unit cm" where
  "ctx_Revert sn ctx =
     (let st = ctx_stack ctx in
      if sn \<le> length st \<and> sn = 0 then (Inl Panic, dirty ctx)
      else
        let st' = (if sn \<le> length st then drop (length st - (sn - 1)) st else st)
        in if st' = [] then (Inl Panic, (dirty ctx)\<lparr>ctx_stack := st'\<rparr>)
           else (Inr (), (dirty ctx)\<lparr>ctx_stack := set_isTop True st'\<rparr>))"

text \<open>\<open>EachAll\<close> with \<open>Delete\<close>: the entries of \<open>del\<close> are removed from \<open>m\<close>.\<close>

definition map_minus :: "('k \<rightharpoonup> 'v) \<Rightarrow> ('k \<rightharpoonup> 'd) \<Rightarrow> 'k \<rightharpoonup> 'v" where
  "map_minus m del = (\<lambda>k. if del k \<noteq> None then None else m k)"

definition commit_merge :: "ctx_data \<Rightarrow> ctx_data \<Rightarrow> ctx_data" where
  "commit_merge ctd tp = tp\<lparr>
     SeqMap := SeqMap tp ++ SeqMap ctd,
     AccountMap := map_minus (AccountMap tp ++ AccountMap ctd) (DeletedAccountMap ctd),
     DeletedAccountMap := DeletedAccountMap tp ++ DeletedAccountMap ctd,
     AccountNameMap := AccountNameMap tp ++ AccountNameMap ctd,
     AccountDataMap := map_minus (AccountDataMap tp ++ AccountDataMap ctd) (DeletedAccountDataMap ctd),
     DeletedAccountDataMap := DeletedAccountDataMap tp ++ DeletedAccountDataMap ctd,
     UTXOMap := map_minus (UTXOMap tp ++ UTXOMap ctd) (DeletedUTXOMap ctd),
     CreatedUTXOMap := map_minus (CreatedUTXOMap tp ++ CreatedUTXOMap ctd) (DeletedUTXOMap ctd),
     DeletedUTXOMap := DeletedUTXOMap tp ++ DeletedUTXOMap ctd,
     Events := Events tp @ Events ctd,
     EventN := EventN ctd,
     ProcessDataMap := map_minus (ProcessDataMap tp ++ ProcessDataMap ctd) (DeletedProcessDataMap ctd),
     DeletedProcessDataMap := DeletedProcessDataMap tp ++ DeletedProcessDataMap ctd\<rparr>"

fun commit_loop :: "nat \<Rightarrow> ctx_data list \<Rightarrow> ctx_data list res" where
  "commit_loop sn (ctd # tp # ps) =
     (if sn \<le> length (ctd # tp # ps) then commit_loop sn (commit_merge ctd tp # ps) else Inr (ctd # tp # ps))"
| "commit_loop sn [ctd] = (if sn \<le> 1 then Inl Panic else Inr [ctd])"
| "commit_loop sn [] = Inl Panic"

definition ctx_Commit :: "nat \<Rightarrow> unit cm" where
  "ctx_Commit sn ctx =
     (case commit_loop sn (ctx_stack ctx) of
        Inl e \<Rightarrow> (Inl e, dirty ctx)
      | Inr st \<Rightarrow> (Inr (), (dirty ctx)\<lparr>ctx_stack := set_isTop True st\<rparr>))"

definition ctx_StackSize :: "ctx \<Rightarrow> nat" where "ctx_StackSize ctx = length (ctx_stack ctx)"

end
