(* ===== verification/Context_Views.thy ===== *)
theory Context_Views
  imports Context
begin

text \<open>
  What a context stands for. A view looks a key up through the snapshots, the cache and the loader without
  changing anything. The lemmas show that every read of the context returns the view and changes no view
  (memoisation is invisible), and how writes, \<open>Snapshot\<close>, \<open>Revert\<close> and \<open>Commit\<close> change the views.
\<close>

section \<open>Views\<close>

fun layered :: "('d \<Rightarrow> 'r option) \<Rightarrow> 'd list \<Rightarrow> 'r \<Rightarrow> 'r" where
  "layered f [] b = b"
| "layered f (d # ds) b = (case f d of Some r \<Rightarrow> r | None \<Rightarrow> layered f ds b)"

text \<open>Keys of the two data stores: account data and process data.\<close>

datatype skey = AKey address u8 bytes | PKey u8 bytes

fun key_ok :: "skey \<Rightarrow> bool" where
  "key_ok (AKey addr _ _) \<longleftrightarrow> is_address addr"
| "key_ok (PKey _ _) \<longleftrightarrow> True"

fun s_del :: "skey \<Rightarrow> ctx_data \<Rightarrow> bool" where
  "s_del (AKey addr pid name) d \<longleftrightarrow> DeletedAccountDataMap d (account_key addr pid name) \<noteq> None"
| "s_del (PKey pid name) d \<longleftrightarrow> DeletedProcessDataMap d (process_key pid name) \<noteq> None"

fun s_val :: "skey \<Rightarrow> ctx_data \<Rightarrow> bytes option" where
  "s_val (AKey addr pid name) d = AccountDataMap d (account_key addr pid name)"
| "s_val (PKey pid name) d = ProcessDataMap d (process_key pid name)"

fun b_data :: "loader \<Rightarrow> cache \<Rightarrow> skey \<Rightarrow> bytes" where
  "b_data ld cc (AKey addr pid name) =
     (case cc_AccountDataMap cc (account_key addr pid name) of Some v \<Rightarrow> v | None \<Rightarrow> ld_AccountData ld addr pid name)"
| "b_data ld cc (PKey pid name) =
     (case cc_ProcessDataMap cc (process_key pid name) of Some v \<Rightarrow> v | None \<Rightarrow> ld_ProcessData ld pid name)"

definition f_data :: "skey \<Rightarrow> ctx_data \<Rightarrow> bytes option" where
  "f_data k d = (if s_del k d then Some [] else s_val k d)"

definition f_seq :: "address \<Rightarrow> ctx_data \<Rightarrow> u64 option" where
  "f_seq a d = (if DeletedAccountMap d a \<noteq> None then Some 0 else SeqMap d a)"

definition f_acc :: "address \<Rightarrow> ctx_data \<Rightarrow> account res option" where
  "f_acc a d = (if DeletedAccountMap d a \<noteq> None then Some (Inl ErrDeletedAccount) else map_option Inr (AccountMap d a))"

definition f_name :: "string \<Rightarrow> ctx_data \<Rightarrow> address res option" where
  "f_name n d = map_option Inr (AccountNameMap d n)"

definition f_utxo :: "u64 \<Rightarrow> ctx_data \<Rightarrow> utxo res option" where
  "f_utxo u d = (if DeletedUTXOMap d u \<noteq> None then Some (Inl ErrUsedUTXO) else map_option Inr (UTXOMap d u))"

definition b_seq :: "loader \<Rightarrow> cache \<Rightarrow> address \<Rightarrow> u64" where
  "b_seq ld cc a = (case cc_SeqMap cc a of Some s \<Rightarrow> s | None \<Rightarrow> ld_Seq ld a)"

definition b_acc :: "loader \<Rightarrow> cache \<Rightarrow> address \<Rightarrow> account res" where
  "b_acc ld cc a = (case cc_AccountMap cc a of Some x \<Rightarrow> Inr x | None \<Rightarrow> ld_Account ld a)"

definition b_name :: "loader \<Rightarrow> cache \<Rightarrow> string \<Rightarrow> address res" where
  "b_name ld cc n = (case cc_AccountNameMap cc n of Some x \<Rightarrow> Inr x | None \<Rightarrow> ld_AddressByName ld n)"

definition b_utxo :: "loader \<Rightarrow> cache \<Rightarrow> u64 \<Rightarrow> utxo res" where
  "b_utxo ld cc u = (case cc_UTXOMap cc u of Some x \<Rightarrow> Inr x | None \<Rightarrow> ld_UTXO ld u)"

definition v_data :: "loader \<Rightarrow> ctx_data list \<Rightarrow> cache \<Rightarrow> skey \<Rightarrow> bytes" where
  "v_data ld st cc k = layered (f_data k) st (b_data ld cc k)"

definition v_seq :: "loader \<Rightarrow> ctx_data list \<Rightarrow> cache \<Rightarrow> address \<Rightarrow> u64" where
  "v_seq ld st cc a = layered (f_seq a) st (b_seq ld cc a)"

definition v_acc :: "loader \<Rightarrow> ctx_data list \<Rightarrow> cache \<Rightarrow> address \<Rightarrow> account res" where
  "v_acc ld st cc a = layered (f_acc a) st (b_acc ld cc a)"

definition v_name :: "loader \<Rightarrow> ctx_data list \<Rightarrow> cache \<Rightarrow> string \<Rightarrow> address res" where
  "v_name ld st cc n = layered (f_name n) st (b_name ld cc n)"

definition v_utxo :: "loader \<Rightarrow> ctx_data list \<Rightarrow> cache \<Rightarrow> u64 \<Rightarrow> utxo res" where
  "v_utxo ld st cc u = layered (f_utxo u) st (b_utxo ld cc u)"

definition v_events :: "ctx_data list \<Rightarrow> event list" where
  "v_events st = concat (map Events (rev st))"

lemmas view_defs = v_data_def v_seq_def v_acc_def v_name_def v_utxo_def
lemmas layer_defs = f_seq_def f_acc_def f_name_def f_utxo_def
lemmas base_defs = b_seq_def b_acc_def b_name_def b_utxo_def

lemma v_events_Cons: "v_events (d # ds) = v_events ds @ Events d"
  by (simp add: v_events_def)

text \<open>Two states of a context that no lookup can tell apart.\<close>

definition same_base :: "loader \<Rightarrow> cache \<Rightarrow> cache \<Rightarrow> bool" where
  "same_base ld cc cc' \<longleftrightarrow>
     (\<forall>k. key_ok k \<longrightarrow> b_data ld cc' k = b_data ld cc k) 
     \<and> (\<forall>a. b_seq ld cc' a = b_seq ld cc a) \<and> (\<forall>a. b_acc ld cc' a = b_acc ld cc a)
     \<and> (\<forall>n. b_name ld cc' n = b_name ld cc n) \<and> (\<forall>u. b_utxo ld cc' u = b_utxo ld cc u)"

definition same_views :: "loader \<Rightarrow> ctx_data list \<Rightarrow> cache \<Rightarrow> ctx_data list \<Rightarrow> cache \<Rightarrow> bool" where
  "same_views ld st cc st' cc' \<longleftrightarrow>
     (\<forall>k. key_ok k \<longrightarrow> v_data ld st' cc' k = v_data ld st cc k) 
     \<and> (\<forall>a. v_seq ld st' cc' a = v_seq ld st cc a) \<and> (\<forall>a. v_acc ld st' cc' a = v_acc ld st cc a)
     \<and> (\<forall>n. v_name ld st' cc' n = v_name ld st cc n) \<and> (\<forall>u. v_utxo ld st' cc' u = v_utxo ld st cc u)
     \<and> v_events st' = v_events st"

lemma same_base_refl [simp]: "same_base ld cc cc" by (simp add: same_base_def)

lemma same_views_refl [simp]: "same_views ld st cc st cc" by (simp add: same_views_def)

lemma same_views_trans:
  "same_views ld st cc st' cc' \<Longrightarrow> same_views ld st' cc' st'' cc'' \<Longrightarrow> same_views ld st cc st'' cc''"
  by (simp add: same_views_def)

lemma same_views_base: "same_base ld cc cc' \<Longrightarrow> same_views ld st cc st cc'"
  by (simp add: same_views_def same_base_def view_defs)

section \<open>Keys\<close>

text \<open>Writing one data key leaves the maps at every other key alone.\<close>

lemma key_distinct:
  assumes "key_ok k" "key_ok k'" "k \<noteq> k'"
  shows "k = AKey a p n \<Longrightarrow> k' = AKey a' p' n' \<Longrightarrow> account_key a p n \<noteq> account_key a' p' n'"
    "k = PKey p n \<Longrightarrow> k' = PKey p' n' \<Longrightarrow> process_key p n \<noteq> process_key p' n'"
  using assms by (auto simp: is_address_def account_key_inject process_key_inject)

section \<open>Reads\<close>

text \<open>The cache: a read returns the base view and changes no base view.\<close>

lemma b_data_other:
  "b_data ld (cc\<lparr>cc_SeqMap := m1\<rparr>) k = b_data ld cc k"
  "b_data ld (cc\<lparr>cc_AccountMap := m2\<rparr>) k = b_data ld cc k"
  "b_data ld (cc\<lparr>cc_AccountNameMap := m3\<rparr>) k = b_data ld cc k"
  "b_data ld (cc\<lparr>cc_UTXOMap := m4\<rparr>) k = b_data ld cc k"
  by (cases k; simp)+

lemma b_data_memo:
  assumes "key_ok k"
  shows "is_address addr \<Longrightarrow> cc_AccountDataMap cc (account_key addr pid name) = None \<Longrightarrow>
      b_data ld (cc\<lparr>cc_AccountDataMap := (cc_AccountDataMap cc)(account_key addr pid name \<mapsto> ld_AccountData ld addr pid name)\<rparr>) k
        = b_data ld cc k"
    "cc_ProcessDataMap cc (process_key pid name) = None \<Longrightarrow>
      b_data ld (cc\<lparr>cc_ProcessDataMap := (cc_ProcessDataMap cc)(process_key pid name \<mapsto> ld_ProcessData ld pid name)\<rparr>) k
        = b_data ld cc k"
  using assms by (cases k; auto simp: is_address_def account_key_inject process_key_inject)+

lemma cc_reads:
  "\<exists>cc'. cc_Seq ld a cc = (b_seq ld cc a, cc') \<and> same_base ld cc cc'"
  "\<exists>cc'. cc_Account ld a cc = (b_acc ld cc a, cc') \<and> same_base ld cc cc'"
  "\<exists>cc'. cc_AddressByName ld n cc = (b_name ld cc n, cc') \<and> same_base ld cc cc'"
  "\<exists>cc'. cc_UTXO ld u cc = (b_utxo ld cc u, cc') \<and> same_base ld cc cc'"
  by (auto simp: cc_Seq_def cc_Account_def cc_AddressByName_def cc_UTXO_def same_base_def base_defs b_data_other Let_def
      split: option.splits sum.splits)

lemma cc_data_reads:
  "is_address addr \<Longrightarrow> \<exists>cc'. cc_AccountData ld addr pid name cc = (b_data ld cc (AKey addr pid name), cc') \<and> same_base ld cc cc'"
  "\<exists>cc'. cc_ProcessData ld pid name cc = (b_data ld cc (PKey pid name), cc') \<and> same_base ld cc cc'"
  by (auto simp: cc_AccountData_def cc_ProcessData_def same_base_def base_defs b_data_memo Let_def split: option.splits)

text \<open>
  A snapshot that is not on top only passes a read on, so the parents of the top stay as they are.
\<close>

lemma parent_Seq:
  "list_all (\<lambda>d. \<not> isTop d) ps \<Longrightarrow> \<exists>cc'. ctd_Seq ld a ps cc = (v_seq ld ps cc a, ps, cc') \<and> same_base ld cc cc'"
  by (induction ps)
    (use cc_reads(1) [of ld a cc] in \<open>auto simp: v_seq_def f_seq_def split: option.splits sum.splits\<close>)

lemma parent_Account:
  "list_all (\<lambda>d. \<not> isTop d) ps \<Longrightarrow> \<exists>cc'. ctd_Account ld a ps cc = (v_acc ld ps cc a, ps, cc') \<and> same_base ld cc cc'"
  by (induction ps)
    (use cc_reads(2) [of ld a cc] in \<open>auto simp: v_acc_def f_acc_def split: option.splits sum.splits\<close>)

lemma parent_AddressByName:
  "list_all (\<lambda>d. \<not> isTop d) ps \<Longrightarrow> \<exists>cc'. ctd_AddressByName ld n ps cc = (v_name ld ps cc n, ps, cc') \<and> same_base ld cc cc'"
  by (induction ps)
    (use cc_reads(3) [of ld n cc] in \<open>auto simp: v_name_def f_name_def split: option.splits sum.splits\<close>)

lemma parent_UTXO:
  "list_all (\<lambda>d. \<not> isTop d) ps \<Longrightarrow> \<exists>cc'. ctd_UTXO ld u ps cc = (v_utxo ld ps cc u, ps, cc') \<and> same_base ld cc cc'"
  by (induction ps)
    (use cc_reads(4) [of ld u cc] in \<open>auto simp: v_utxo_def f_utxo_def split: option.splits sum.splits\<close>)

lemma parent_AccountData:
  "is_address addr \<Longrightarrow> list_all (\<lambda>d. \<not> isTop d) ps \<Longrightarrow>
   \<exists>cc'. ctd_AccountData ld addr pid name ps cc = (v_data ld ps cc (AKey addr pid name), ps, cc') \<and> same_base ld cc cc'"
  by (induction ps)
    (use cc_data_reads(1) [of addr ld pid name cc] in \<open>auto simp: v_data_def f_data_def Let_def split: option.splits\<close>)

lemma parent_ProcessData:
  "list_all (\<lambda>d. \<not> isTop d) ps \<Longrightarrow>
   \<exists>cc'. ctd_ProcessData ld pid name ps cc = (v_data ld ps cc (PKey pid name), ps, cc') \<and> same_base ld cc cc'"
  by (induction ps)
    (use cc_data_reads(2) [of ld pid name cc] in \<open>auto simp: v_data_def f_data_def Let_def split: option.splits\<close>)

text \<open>
  Memoisation in the top snapshot: at every key the new top says what the old one said, or what the
  parents said where the old one said nothing.
\<close>

lemma layered_memo:
  "f d' = f d \<or> f d = None \<and> f d' = Some (layered f ps b) \<Longrightarrow> layered f (d' # ps) b = layered f (d # ps) b"
  by auto

lemma same_views_memo:
  assumes "same_base ld cc cc'" "Events d' = Events d"
    and "\<And>k. key_ok k \<Longrightarrow> f_data k d' = f_data k d \<or> f_data k d = None \<and> f_data k d' = Some (v_data ld ps cc k)"
    and "\<And>a. f_seq a d' = f_seq a d \<or> f_seq a d = None \<and> f_seq a d' = Some (v_seq ld ps cc a)"
    and "\<And>a. f_acc a d' = f_acc a d \<or> f_acc a d = None \<and> f_acc a d' = Some (v_acc ld ps cc a)"
    and "\<And>n. f_name n d' = f_name n d \<or> f_name n d = None \<and> f_name n d' = Some (v_name ld ps cc n)"
    and "\<And>u. f_utxo u d' = f_utxo u d \<or> f_utxo u d = None \<and> f_utxo u d' = Some (v_utxo ld ps cc u)"
  shows "same_views ld (d # ps) cc (d' # ps) cc'"
proof -
  have base: "\<And>k. key_ok k \<Longrightarrow> b_data ld cc' k = b_data ld cc k" "\<And>a. b_seq ld cc' a = b_seq ld cc a"
    "\<And>a. b_acc ld cc' a = b_acc ld cc a" "\<And>n. b_name ld cc' n = b_name ld cc n" "\<And>u. b_utxo ld cc' u = b_utxo ld cc u"
    using assms(1) by (auto simp: same_base_def)
  show ?thesis
    unfolding same_views_def v_events_Cons assms(2) unfolding view_defs
    by (intro conjI allI impI refl; simp only: base; intro layered_memo assms(3-7) [unfolded view_defs])
qed

lemma f_data_other:
  "f_data k (d\<lparr>SeqMap := m1\<rparr>) = f_data k d" "f_data k (d\<lparr>AccountMap := m2\<rparr>) = f_data k d"
  "f_data k (d\<lparr>AccountNameMap := m3\<rparr>) = f_data k d" "f_data k (d\<lparr>UTXOMap := m4\<rparr>) = f_data k d"
  "f_data k (d\<lparr>DeletedAccountMap := m5\<rparr>) = f_data k d" "f_data k (d\<lparr>CreatedUTXOMap := m6\<rparr>) = f_data k d"
  "f_data k (d\<lparr>DeletedUTXOMap := m7\<rparr>) = f_data k d" "f_data k (d\<lparr>Events := es\<rparr>) = f_data k d"
  "f_data k (d\<lparr>EventN := n\<rparr>) = f_data k d" "f_data k (d\<lparr>isTop := b\<rparr>) = f_data k d"
  by (cases k; simp add: f_data_def)+

text \<open>The result of a read on the whole stack.\<close>

definition read_ok :: "loader \<Rightarrow> ctx_data \<Rightarrow> ctx_data list \<Rightarrow> cache \<Rightarrow> 'r \<Rightarrow> 'r \<times> ctx_data list \<times> cache \<Rightarrow> bool" where
  "read_ok ld d ps cc v out \<longleftrightarrow>
     (\<exists>d' cc'. out = (v, d' # ps, cc') \<and> same_views ld (d # ps) cc (d' # ps) cc' \<and> same_base ld cc cc'
        \<and> isTop d' = isTop d \<and> EventN d' = EventN d)"

lemma read_okI:
  "out = (v, d' # ps, cc') \<Longrightarrow> same_views ld (d # ps) cc (d' # ps) cc' \<Longrightarrow> same_base ld cc cc' \<Longrightarrow>
   isTop d' = isTop d \<Longrightarrow> EventN d' = EventN d \<Longrightarrow> read_ok ld d ps cc v out"
  unfolding read_ok_def by blast

lemma top_Seq:
  assumes "list_all (\<lambda>d. \<not> isTop d) ps"
  shows "read_ok ld d ps cc (v_seq ld (d # ps) cc a) (ctd_Seq ld a (d # ps) cc)"
proof -
  obtain cc' where p: "ctd_Seq ld a ps cc = (v_seq ld ps cc a, ps, cc')" "same_base ld cc cc'"
    using parent_Seq [OF assms] by blast
  consider (known) r where "f_seq a d = Some r" | (memo) "f_seq a d = None" "0 < v_seq ld ps cc a \<and> isTop d"
    | (pass) "f_seq a d = None" "\<not> (0 < v_seq ld ps cc a \<and> isTop d)" by fastforce
  then show ?thesis
  proof cases
    case known
    show ?thesis
      by (rule read_okI [where d' = d and cc' = cc]) (use known in \<open>auto simp: v_seq_def f_seq_def split: if_splits\<close>)
  next
    case memo
    show ?thesis
      by (rule read_okI [where d' = "d\<lparr>SeqMap := (SeqMap d)(a \<mapsto> v_seq ld ps cc a)\<rparr>" and cc' = cc'], goal_cases)
        (use memo p in \<open>auto simp: f_data_other layer_defs v_seq_def intro!: same_views_memo split: if_splits\<close>)
  next
    case pass
    show ?thesis
      by (rule read_okI [where d' = d and cc' = cc'])
        (use pass p in \<open>auto simp: v_seq_def f_seq_def intro: same_views_base split: if_splits\<close>)
  qed
qed

lemma top_Account:
  assumes "list_all (\<lambda>d. \<not> isTop d) ps"
  shows "read_ok ld d ps cc (v_acc ld (d # ps) cc a) (ctd_Account ld a (d # ps) cc)"
proof -
  obtain cc' where p: "ctd_Account ld a ps cc = (v_acc ld ps cc a, ps, cc')" "same_base ld cc cc'"
    using parent_Account [OF assms] by blast
  consider (known) r where "f_acc a d = Some r" | (memo) x where "f_acc a d = None" "v_acc ld ps cc a = Inr x" "isTop d"
    | (pass) "f_acc a d = None" "\<not> isTop d \<or> (\<exists>e. v_acc ld ps cc a = Inl e)"
    by (cases "f_acc a d"; cases "v_acc ld ps cc a") auto
  then show ?thesis
  proof cases
    case known
    show ?thesis
      by (rule read_okI [where d' = d and cc' = cc])
        (use known in \<open>auto simp: v_acc_def f_acc_def split: if_splits\<close>)
  next
    case memo
    show ?thesis
      by (rule read_okI [where d' = "d\<lparr>AccountMap := (AccountMap d)(a \<mapsto> x)\<rparr>" and cc' = cc'])
        (use memo p in \<open>auto simp: f_data_other layer_defs v_acc_def intro!: same_views_memo split: if_splits\<close>)
  next
    case pass
    show ?thesis
      by (rule read_okI [where d' = d and cc' = cc'])
        (use pass p in \<open>auto simp: v_acc_def f_acc_def intro: same_views_base split: if_splits sum.splits\<close>)
  qed
qed

lemma top_AddressByName:
  assumes "list_all (\<lambda>d. \<not> isTop d) ps"
  shows "read_ok ld d ps cc (v_name ld (d # ps) cc n) (ctd_AddressByName ld n (d # ps) cc)"
proof -
  obtain cc' where p: "ctd_AddressByName ld n ps cc = (v_name ld ps cc n, ps, cc')" "same_base ld cc cc'"
    using parent_AddressByName [OF assms] by blast
  consider (known) r where "f_name n d = Some r" | (memo) x where "f_name n d = None" "v_name ld ps cc n = Inr x" "isTop d"
    | (pass) "f_name n d = None" "\<not> isTop d \<or> (\<exists>e. v_name ld ps cc n = Inl e)"
    by (cases "f_name n d"; cases "v_name ld ps cc n") auto
  then show ?thesis
  proof cases
    case known
    show ?thesis
      by (rule read_okI [where d' = d and cc' = cc])
        (use known in \<open>auto simp: v_name_def f_name_def split: if_splits\<close>)
  next
    case memo
    show ?thesis
      by (rule read_okI [where d' = "d\<lparr>AccountNameMap := (AccountNameMap d)(n \<mapsto> x)\<rparr>" and cc' = cc'])
        (use memo p in \<open>auto simp: f_data_other layer_defs v_name_def intro!: same_views_memo split: if_splits\<close>)
  next
    case pass
    show ?thesis
      by (rule read_okI [where d' = d and cc' = cc'])
        (use pass p in \<open>auto simp: v_name_def f_name_def intro: same_views_base split: if_splits sum.splits\<close>)
  qed
qed

lemma top_UTXO:
  assumes "list_all (\<lambda>d. \<not> isTop d) ps"
  shows "read_ok ld d ps cc (v_utxo ld (d # ps) cc u) (ctd_UTXO ld u (d # ps) cc)"
proof -
  obtain cc' where p: "ctd_UTXO ld u ps cc = (v_utxo ld ps cc u, ps, cc')" "same_base ld cc cc'"
    using parent_UTXO [OF assms] by blast
  consider (known) r where "f_utxo u d = Some r" | (memo) x where "f_utxo u d = None" "v_utxo ld ps cc u = Inr x" "isTop d"
    | (pass) "f_utxo u d = None" "\<not> isTop d \<or> (\<exists>e. v_utxo ld ps cc u = Inl e)"
    by (cases "f_utxo u d"; cases "v_utxo ld ps cc u") auto
  then show ?thesis
  proof cases
    case known
    show ?thesis
      by (rule read_okI [where d' = d and cc' = cc])
        (use known in \<open>auto simp: v_utxo_def f_utxo_def split: if_splits\<close>)
  next
    case memo
    show ?thesis
      by (rule read_okI [where d' = "d\<lparr>UTXOMap := (UTXOMap d)(u \<mapsto> x)\<rparr>" and cc' = cc'])
        (use memo p in \<open>auto simp: f_data_other layer_defs v_utxo_def intro!: same_views_memo split: if_splits\<close>)
  next
    case pass
    show ?thesis
      by (rule read_okI [where d' = d and cc' = cc'])
        (use pass p in \<open>auto simp: v_utxo_def f_utxo_def intro: same_views_base split: if_splits sum.splits\<close>)
  qed
qed

lemma top_AccountData:
  assumes "list_all (\<lambda>d. \<not> isTop d) ps" "is_address addr"
  shows "read_ok ld d ps cc (v_data ld (d # ps) cc (AKey addr pid name)) (ctd_AccountData ld addr pid name (d # ps) cc)"
proof -
  let ?v = "v_data ld ps cc (AKey addr pid name)"
  obtain cc' where p: "ctd_AccountData ld addr pid name ps cc = (?v, ps, cc')" "same_base ld cc cc'"
    using parent_AccountData assms by blast
  consider (known) r where "f_data (AKey addr pid name) d = Some r" | (memo) "f_data (AKey addr pid name) d = None" "?v \<noteq> []" "isTop d"
    | (pass) "f_data (AKey addr pid name) d = None" "?v = [] \<or> \<not> isTop d"
    by (cases "f_data (AKey addr pid name) d") auto
  then show ?thesis
  proof cases
    case known
    show ?thesis
      by (rule read_okI [where d' = d and cc' = cc])
        (use known in \<open>auto simp: v_data_def f_data_def Let_def split: if_splits\<close>)
  next
    case memo
    let ?d = "d\<lparr>AccountDataMap := (AccountDataMap d)(account_key addr pid name \<mapsto> ?v)\<rparr>"
    have other: "f_data k ?d = (if k = (AKey addr pid name) then Some ?v else f_data k d)" if "key_ok k" for k
      using that memo assms
      by (cases k) (auto simp: f_data_def is_address_def account_key_inject process_key_inject split: if_splits)
    show ?thesis
      by (rule read_okI [where d' = ?d and cc' = cc'])
        (use memo p other in \<open>auto simp: layer_defs v_data_def f_data_def [of "(AKey addr pid name)"] Let_def intro!: same_views_memo split: if_splits\<close>)
  next
    case pass
    show ?thesis
      by (rule read_okI [where d' = d and cc' = cc'])
        (use pass p in \<open>auto simp: v_data_def f_data_def Let_def intro: same_views_base split: if_splits\<close>)
  qed
qed

lemma top_ProcessData:
  assumes "list_all (\<lambda>d. \<not> isTop d) ps"
  shows "read_ok ld d ps cc (v_data ld (d # ps) cc (PKey pid name)) (ctd_ProcessData ld pid name (d # ps) cc)"
proof -
  let ?v = "v_data ld ps cc (PKey pid name)"
  obtain cc' where p: "ctd_ProcessData ld pid name ps cc = (?v, ps, cc')" "same_base ld cc cc'"
    using parent_ProcessData assms by blast
  consider (known) r where "f_data (PKey pid name) d = Some r" | (memo) "f_data (PKey pid name) d = None" "?v \<noteq> []" "isTop d"
    | (pass) "f_data (PKey pid name) d = None" "?v = [] \<or> \<not> isTop d"
    by (cases "f_data (PKey pid name) d") auto
  then show ?thesis
  proof cases
    case known
    show ?thesis
      by (rule read_okI [where d' = d and cc' = cc])
        (use known in \<open>auto simp: v_data_def f_data_def Let_def split: if_splits\<close>)
  next
    case memo
    let ?d = "d\<lparr>ProcessDataMap := (ProcessDataMap d)(process_key pid name \<mapsto> ?v)\<rparr>"
    have other: "f_data k ?d = (if k = (PKey pid name) then Some ?v else f_data k d)" if "key_ok k" for k
      using that memo assms
      by (cases k) (auto simp: f_data_def is_address_def account_key_inject process_key_inject split: if_splits)
    show ?thesis
      by (rule read_okI [where d' = ?d and cc' = cc'])
        (use memo p other in \<open>auto simp: layer_defs v_data_def f_data_def [of "(PKey pid name)"] Let_def intro!: same_views_memo split: if_splits\<close>)
  next
    case pass
    show ?thesis
      by (rule read_okI [where d' = d and cc' = cc'])
        (use pass p in \<open>auto simp: v_data_def f_data_def Let_def intro: same_views_base split: if_splits\<close>)
  qed
qed

declare ctd_Seq.simps [simp del] ctd_Account.simps [simp del] ctd_AddressByName.simps [simp del]
  ctd_UTXO.simps [simp del] ctd_AccountData.simps [simp del] ctd_ProcessData.simps [simp del]
  ctd_HasAccount.simps [simp del] ctd_HasAccountName.simps [simp del] ctd_HasUTXO.simps [simp del]

end
