(* ===== verification/Context_Laws.thy ===== *)
theory Context_Laws
  imports Context_Views
begin

text \<open>
  The contract of a context. \<open>absc\<close> is the state a context stands for: one value per key, whatever the
  snapshots, the cache and the loader hold. The operations of the context are described by how they change
  \<open>absc\<close>; these equations are what the processes rely on, collected in \<open>ctx_simps\<close>.
\<close>

named_theorems ctx_simps

section \<open>The abstract state\<close>

record absctx =
  a_data :: "skey \<Rightarrow> bytes"
  a_seq :: "address \<Rightarrow> u64"
  a_acc :: "address \<Rightarrow> account res"
  a_name :: "string \<Rightarrow> address res"
  a_utxo :: "u64 \<Rightarrow> utxo res"
  a_events :: "event list"
  a_eventN :: u16

definition abs_of :: "loader \<Rightarrow> ctx_data list \<Rightarrow> cache \<Rightarrow> absctx" where
  "abs_of ld st cc = \<lparr>a_data = (\<lambda>k. if key_ok k then v_data ld st cc k else []), a_seq = v_seq ld st cc,
     a_acc = v_acc ld st cc, a_name = v_name ld st cc, a_utxo = v_utxo ld st cc, a_events = v_events st,
     a_eventN = (case st of [] \<Rightarrow> 0 | d # _ \<Rightarrow> EventN d)\<rparr>"

definition absc :: "ctx \<Rightarrow> absctx" where
  "absc ctx = abs_of (ctx_loader ctx) (ctx_stack ctx) (ctx_cache ctx)"

text \<open>What \<open>Revert\<close> goes back to: the abstract states below the top snapshot.\<close>

fun abs_stack :: "loader \<Rightarrow> ctx_data list \<Rightarrow> cache \<Rightarrow> absctx list" where
  "abs_stack ld [] cc = []"
| "abs_stack ld (d # ps) cc = abs_of ld (d # ps) cc # abs_stack ld ps cc"

definition absp :: "ctx \<Rightarrow> absctx list" where
  "absp ctx = abs_stack (ctx_loader ctx) (tl (ctx_stack ctx)) (ctx_cache ctx)"

text \<open>The top snapshot memoises and no other does.\<close>

definition ctx_wf :: "ctx \<Rightarrow> bool" where
  "ctx_wf ctx \<longleftrightarrow> ctx_stack ctx \<noteq> [] \<and> isTop (hd (ctx_stack ctx)) \<and> list_all (\<lambda>d. \<not> isTop d) (tl (ctx_stack ctx))"

definition ctx_env :: "ctx \<Rightarrow> loader \<times> u32 \<times> hash256 \<times> u64" where
  "ctx_env ctx = (ctx_loader ctx, genTargetHeight ctx, genLastHash ctx, genTimestamp ctx)"

definition ctx_parents :: "ctx \<Rightarrow> ctx_data list" where "ctx_parents ctx = tl (ctx_stack ctx)"

lemma NewContext_wf [simp]: "ctx_wf (NewContext ld)"
  by (simp add: ctx_wf_def NewContext_def NewContextData_def)

lemma same_views_abs: "same_views ld st cc st' cc' \<Longrightarrow> (case st' of [] \<Rightarrow> 0 | d # _ \<Rightarrow> EventN d) = (case st of [] \<Rightarrow> 0 | d # _ \<Rightarrow> EventN d)
    \<Longrightarrow> abs_of ld st' cc' = abs_of ld st cc"
  unfolding same_views_def abs_of_def by (auto simp: fun_eq_iff)

lemma abs_of_base: "same_base ld cc cc' \<Longrightarrow> abs_of ld st cc' = abs_of ld st cc"
  by (rule same_views_abs [OF same_views_base]) auto

lemma abs_stack_base: "same_base ld cc cc' \<Longrightarrow> abs_stack ld st cc' = abs_stack ld st cc"
  by (induction st) (simp_all add: abs_of_base)

section \<open>Sequencing\<close>

lemma cbind_simps [ctx_simps]:
  "fst (cbind m f ctx) = (case fst (m ctx) of Inl e \<Rightarrow> Inl e | Inr a \<Rightarrow> fst (f a (snd (m ctx))))"
  "snd (cbind m f ctx) = (case fst (m ctx) of Inl e \<Rightarrow> snd (m ctx) | Inr a \<Rightarrow> snd (f a (snd (m ctx))))"
  by (auto simp: cbind_def split: prod.splits sum.splits)

lemma cret_simps [ctx_simps]: "fst (cret a ctx) = Inr a" "snd (cret a ctx) = ctx"
  "fst (cfail e ctx) = Inl e" "snd (cfail e ctx) = ctx"
  by (simp_all add: cret_def cfail_def)

lemma dirty_simps [ctx_simps]:
  "absc (dirty ctx) = absc ctx" "ctx_wf (dirty ctx) = ctx_wf ctx" "ctx_env (dirty ctx) = ctx_env ctx"
  "ctx_parents (dirty ctx) = ctx_parents ctx" "absp (dirty ctx) = absp ctx" "genTargetHeight (dirty ctx) = genTargetHeight ctx"
  by (simp_all add: dirty_def absc_def absp_def ctx_wf_def ctx_env_def ctx_parents_def)

section \<open>Reads\<close>

text \<open>A computation that returns \<open>r\<close> and changes nothing that can be observed.\<close>

definition pure :: "'a cm \<Rightarrow> ctx \<Rightarrow> 'a res \<Rightarrow> bool" where
  "pure m ctx r \<longleftrightarrow> fst (m ctx) = r \<and> absc (snd (m ctx)) = absc ctx \<and> ctx_wf (snd (m ctx))
     \<and> ctx_env (snd (m ctx)) = ctx_env ctx \<and> ctx_parents (snd (m ctx)) = ctx_parents ctx
     \<and> absp (snd (m ctx)) = absp ctx"

lemma read_pure:
  assumes "ctx_wf ctx"
    and "\<And>d ps. ctx_stack ctx = d # ps \<Longrightarrow> list_all (\<lambda>d. \<not> isTop d) ps \<Longrightarrow>
           read_ok (ctx_loader ctx) d ps (ctx_cache ctx) v (f (ctx_loader ctx) (d # ps) (ctx_cache ctx))"
  shows "pure (on_stack f) ctx (Inr v)"
proof -
  obtain d ps where st: "ctx_stack ctx = d # ps" "isTop d" "list_all (\<lambda>d. \<not> isTop d) ps"
    using assms(1) by (cases "ctx_stack ctx") (auto simp: ctx_wf_def)
  obtain d' cc' where r: "f (ctx_loader ctx) (d # ps) (ctx_cache ctx) = (v, d' # ps, cc')"
    "same_views (ctx_loader ctx) (d # ps) (ctx_cache ctx) (d' # ps) cc'" "isTop d' = isTop d" "EventN d' = EventN d"
    "same_base (ctx_loader ctx) (ctx_cache ctx) cc'"
    using assms(2) [OF st(1,3)] by (auto simp: read_ok_def)
  have "abs_of (ctx_loader ctx) (d' # ps) cc' = abs_of (ctx_loader ctx) (d # ps) (ctx_cache ctx)"
    using r(2,4) by (intro same_views_abs) auto
  then show ?thesis
    using st r by (simp add: pure_def on_stack_def absc_def absp_def ctx_wf_def ctx_env_def ctx_parents_def abs_stack_base)
qed

lemma pure_res: "pure m ctx (Inr r) \<Longrightarrow> pure (cbind m (\<lambda>r ctx. (r, ctx))) ctx r"
  by (simp add: pure_def ctx_simps)

lemma ctx_reads:
  assumes "ctx_wf ctx"
  shows "pure (ctx_Seq a) ctx (Inr (a_seq (absc ctx) a))"
    "pure (ctx_Account a) ctx (a_acc (absc ctx) a)"
    "pure (ctx_AddressByName n) ctx (a_name (absc ctx) n)"
    "pure (ctx_UTXO u) ctx (a_utxo (absc ctx) u)"
    "is_address a \<Longrightarrow> pure (ctx_AccountData a pid name) ctx (Inr (a_data (absc ctx) (AKey a pid name)))"
    "pure (ctx_ProcessData pid name) ctx (Inr (a_data (absc ctx) (PKey pid name)))"
proof -
  show "pure (ctx_Seq a) ctx (Inr (a_seq (absc ctx) a))"
    unfolding ctx_Seq_def by (rule read_pure [OF assms]) (simp add: absc_def abs_of_def top_Seq)
  have acc: "pure (on_stack (\<lambda>ld. ctd_Account ld a)) ctx (Inr (a_acc (absc ctx) a))" if "ctx_wf ctx" for ctx
    by (rule read_pure [OF that]) (simp add: absc_def abs_of_def top_Account)
  have "pure (on_stack_res (\<lambda>ld. ctd_Account ld a)) (dirty ctx) (a_acc (absc ctx) a)"
    unfolding on_stack_res_def using acc [of "dirty ctx"] assms by (intro pure_res) (simp add: ctx_simps)
  then show "pure (ctx_Account a) ctx (a_acc (absc ctx) a)"
    by (simp add: pure_def ctx_Account_def ctx_simps)
  show "pure (ctx_AddressByName n) ctx (a_name (absc ctx) n)"
    unfolding ctx_AddressByName_def on_stack_res_def
    by (intro pure_res read_pure [OF assms]) (simp add: absc_def abs_of_def top_AddressByName)
  show "pure (ctx_UTXO u) ctx (a_utxo (absc ctx) u)"
    unfolding ctx_UTXO_def on_stack_res_def
    by (intro pure_res read_pure [OF assms]) (simp add: absc_def abs_of_def top_UTXO)
  show "pure (ctx_AccountData a pid name) ctx (Inr (a_data (absc ctx) (AKey a pid name)))" if "is_address a"
    unfolding ctx_AccountData_def using that
    by (intro read_pure [OF assms]) (simp add: absc_def abs_of_def top_AccountData)
  show "pure (ctx_ProcessData pid name) ctx (Inr (a_data (absc ctx) (PKey pid name)))"
    unfolding ctx_ProcessData_def by (rule read_pure [OF assms]) (simp add: absc_def abs_of_def top_ProcessData)
qed

lemma pureD:
  assumes "pure m ctx r"
  shows "fst (m ctx) = r" "absc (snd (m ctx)) = absc ctx" "ctx_wf (snd (m ctx))" "ctx_env (snd (m ctx)) = ctx_env ctx"
    "ctx_parents (snd (m ctx)) = ctx_parents ctx" "absp (snd (m ctx)) = absp ctx"
  using assms by (simp_all add: pure_def)

lemmas read_simps [ctx_simps] =
  pureD [OF ctx_reads(1)] pureD [OF ctx_reads(2)] pureD [OF ctx_reads(3)] pureD [OF ctx_reads(4)]
  pureD [OF ctx_reads(5)] pureD [OF ctx_reads(6)]

section \<open>Writes\<close>

text \<open>A write to the top snapshot succeeds, changes the abstract state by \<open>g\<close> and nothing else.\<close>

definition writes :: "unit cm \<Rightarrow> ctx \<Rightarrow> (absctx \<Rightarrow> absctx) \<Rightarrow> bool" where
  "writes m ctx g \<longleftrightarrow> fst (m ctx) = Inr () \<and> absc (snd (m ctx)) = g (absc ctx) \<and> ctx_wf (snd (m ctx))
     \<and> ctx_env (snd (m ctx)) = ctx_env ctx \<and> ctx_parents (snd (m ctx)) = ctx_parents ctx
     \<and> absp (snd (m ctx)) = absp ctx"

lemma writesD:
  assumes "writes m ctx g"
  shows "fst (m ctx) = Inr ()" "absc (snd (m ctx)) = g (absc ctx)" "ctx_wf (snd (m ctx))" "ctx_env (snd (m ctx)) = ctx_env ctx"
    "ctx_parents (snd (m ctx)) = ctx_parents ctx" "absp (snd (m ctx)) = absp ctx"
  using assms by (simp_all add: writes_def)

lemma on_top_writes:
  assumes "ctx_wf ctx" "\<And>d. isTop (f d) = isTop d"
    and "\<And>ld d ps cc. abs_of ld (f d # ps) cc = g (abs_of ld (d # ps) cc)"
  shows "writes (on_top f) ctx g"
proof -
  obtain d ps where "ctx_stack ctx = d # ps" "isTop d" "list_all (\<lambda>d. \<not> isTop d) ps"
    using assms(1) by (cases "ctx_stack ctx") (auto simp: ctx_wf_def)
  then show ?thesis
    using assms(2,3)
    by (simp add: writes_def on_top_def on_stack_def absc_def absp_def ctx_wf_def ctx_env_def ctx_parents_def)
qed

lemma f_data_SetAccountData:
  assumes "key_ok k" "is_address a"
  shows "f_data k (ctd_SetAccountData a p n v d) = (if k = AKey a p n then Some v else f_data k d)"
  using assms
  by (cases k) (auto simp: f_data_def ctd_SetAccountData_def Let_def is_address_def account_key_inject)

lemma f_data_SetProcessData:
  "f_data k (ctd_SetProcessData p n v d) = (if k = PKey p n then Some v else f_data k d)"
  by (cases k) (auto simp: f_data_def ctd_SetProcessData_def Let_def process_key_inject)

lemma Set_other:
  "f_seq x (ctd_SetAccountData a p n v d) = f_seq x d" "f_acc x (ctd_SetAccountData a p n v d) = f_acc x d"
  "f_name y (ctd_SetAccountData a p n v d) = f_name y d" "f_utxo u (ctd_SetAccountData a p n v d) = f_utxo u d"
  "Events (ctd_SetAccountData a p n v d) = Events d" "EventN (ctd_SetAccountData a p n v d) = EventN d"
  "isTop (ctd_SetAccountData a p n v d) = isTop d"
  "f_seq x (ctd_SetProcessData p n v d) = f_seq x d" "f_acc x (ctd_SetProcessData p n v d) = f_acc x d"
  "f_name y (ctd_SetProcessData p n v d) = f_name y d" "f_utxo u (ctd_SetProcessData p n v d) = f_utxo u d"
  "Events (ctd_SetProcessData p n v d) = Events d" "EventN (ctd_SetProcessData p n v d) = EventN d"
  "isTop (ctd_SetProcessData p n v d) = isTop d"
  by (auto simp: ctd_SetAccountData_def ctd_SetProcessData_def layer_defs Let_def)

abbreviation set_data :: "skey \<Rightarrow> bytes \<Rightarrow> absctx \<Rightarrow> absctx" where
  "set_data k v s \<equiv> s\<lparr>a_data := (a_data s)(k := v)\<rparr>"

lemma ctx_SetAccountData_writes:
  assumes "ctx_wf ctx" "is_address a"
  shows "writes (ctx_SetAccountData a p n v) ctx (set_data (AKey a p n) v)"
proof -
  have "writes (on_top (ctd_SetAccountData a p n v)) (dirty ctx) (set_data (AKey a p n) v)"
    by (rule on_top_writes)
      (use assms in \<open>auto simp: abs_of_def fun_eq_iff view_defs f_data_SetAccountData Set_other v_events_Cons ctx_simps\<close>)
  then show ?thesis by (simp add: writes_def ctx_SetAccountData_def ctx_simps)
qed

lemma ctx_SetProcessData_writes:
  assumes "ctx_wf ctx"
  shows "writes (ctx_SetProcessData p n v) ctx (set_data (PKey p n) v)"
  unfolding ctx_SetProcessData_def
  by (rule on_top_writes [OF assms])
    (auto simp: abs_of_def fun_eq_iff view_defs f_data_SetProcessData Set_other v_events_Cons)

lemma ctx_EmitEvent_writes:
  assumes "ctx_wf ctx"
  shows "writes (ctx_EmitEvent e) ctx
     (\<lambda>s. s\<lparr>a_events := a_events s @ [event_SetN (a_eventN s) e], a_eventN := a_eventN s + 1\<rparr>)"
proof -
  have "writes (on_top (ctd_EmitEvent e)) (dirty ctx)
     (\<lambda>s. s\<lparr>a_events := a_events s @ [event_SetN (a_eventN s) e], a_eventN := a_eventN s + 1\<rparr>)"
    by (rule on_top_writes)
      (use assms in \<open>auto simp: abs_of_def fun_eq_iff view_defs f_data_other layer_defs ctd_EmitEvent_def v_events_Cons ctx_simps\<close>)
  then show ?thesis by (simp add: writes_def ctx_EmitEvent_def ctx_simps)
qed

lemmas write_simps [ctx_simps] =
  writesD [OF ctx_SetAccountData_writes] writesD [OF ctx_SetProcessData_writes] writesD [OF ctx_EmitEvent_writes]

section \<open>Snapshots\<close>

lemma set_isTop_Cons [simp]: "set_isTop b (d # ps) = d\<lparr>isTop := b\<rparr> # ps"
  by (simp add: set_isTop_def)

lemma abs_of_set_isTop [simp]: "abs_of ld (set_isTop b st) cc = abs_of ld st cc"
  by (cases st) (simp_all add: set_isTop_def abs_of_def fun_eq_iff view_defs layer_defs f_data_other v_events_Cons)

lemma abs_stack_set_isTop [simp]: "abs_stack ld (set_isTop b st) cc = abs_stack ld st cc"
  using abs_of_set_isTop [of ld b st cc] by (cases st) (simp_all add: set_isTop_def)

lemma new_layer: "f_data k (NewContextData p) = None" "f_seq a (NewContextData p) = None" "f_acc a (NewContextData p) = None"
  "f_name n (NewContextData p) = None" "f_utxo u (NewContextData p) = None"
  by (cases k; simp add: NewContextData_def f_data_def) (simp_all add: NewContextData_def layer_defs)

lemma abs_of_snapshot: "abs_of ld (NewContextData (Some d) # d # ps) cc = abs_of ld (d # ps) cc"
  by (simp add: abs_of_def fun_eq_iff view_defs new_layer v_events_Cons) (simp add: NewContextData_def)

text \<open>The snapshot number of the top snapshot.\<close>

definition ctx_sn :: "ctx \<Rightarrow> nat" where "ctx_sn ctx = length (ctx_parents ctx) + 1"

lemma Snapshot_simps [ctx_simps]:
  assumes "ctx_wf ctx"
  shows "fst (ctx_Snapshot ctx) = Inr (ctx_sn ctx + 1)" "absc (snd (ctx_Snapshot ctx)) = absc ctx"
    "absp (snd (ctx_Snapshot ctx)) = absc ctx # absp ctx" "ctx_wf (snd (ctx_Snapshot ctx))"
    "ctx_env (snd (ctx_Snapshot ctx)) = ctx_env ctx"
    "ctx_parents (snd (ctx_Snapshot ctx)) = set_isTop False (ctx_stack ctx)"
proof -
  obtain d ps where st: "ctx_stack ctx = d # ps" "isTop d" "list_all (\<lambda>d. \<not> isTop d) ps"
    using assms by (cases "ctx_stack ctx") (auto simp: ctx_wf_def)
  have "abs_of ld (NewContextData (Some d) # set_isTop False (d # ps)) cc = abs_of ld (d # ps) cc" for ld cc
    using abs_of_snapshot [of ld "d\<lparr>isTop := False\<rparr>" ps cc] abs_of_set_isTop [of ld False "d # ps" cc]
    by (simp add: NewContextData_def)
  moreover have "isTop (NewContextData (Some d))" by (simp add: NewContextData_def)
  ultimately show "fst (ctx_Snapshot ctx) = Inr (ctx_sn ctx + 1)" "absc (snd (ctx_Snapshot ctx)) = absc ctx"
    "absp (snd (ctx_Snapshot ctx)) = absc ctx # absp ctx" "ctx_wf (snd (ctx_Snapshot ctx))"
    "ctx_env (snd (ctx_Snapshot ctx)) = ctx_env ctx"
    "ctx_parents (snd (ctx_Snapshot ctx)) = set_isTop False (ctx_stack ctx)"
    using st abs_of_set_isTop [of _ False "d # ps"]
    by (simp_all add: ctx_Snapshot_def ctx_sn_def absc_def absp_def ctx_wf_def ctx_env_def ctx_parents_def dirty_def)
qed

lemma Revert_simps [ctx_simps]:
  assumes "ctx_wf ctx" "ctx_parents ctx = p # ps" "sn = ctx_sn ctx"
  shows "fst (ctx_Revert sn ctx) = Inr ()" "absc (snd (ctx_Revert sn ctx)) = hd (absp ctx)"
    "absp (snd (ctx_Revert sn ctx)) = tl (absp ctx)" "ctx_wf (snd (ctx_Revert sn ctx))"
    "ctx_env (snd (ctx_Revert sn ctx)) = ctx_env ctx"
    "ctx_stack (snd (ctx_Revert sn ctx)) = set_isTop True (p # ps)" "ctx_parents (snd (ctx_Revert sn ctx)) = ps"
proof -
  obtain d where st: "ctx_stack ctx = d # p # ps" "list_all (\<lambda>d. \<not> isTop d) ps" "sn = Suc (Suc (length ps))"
    using assms by (cases "ctx_stack ctx") (auto simp: ctx_wf_def ctx_parents_def ctx_sn_def)
  then show "fst (ctx_Revert sn ctx) = Inr ()" "absc (snd (ctx_Revert sn ctx)) = hd (absp ctx)"
    "absp (snd (ctx_Revert sn ctx)) = tl (absp ctx)" "ctx_wf (snd (ctx_Revert sn ctx))"
    "ctx_env (snd (ctx_Revert sn ctx)) = ctx_env ctx"
    "ctx_stack (snd (ctx_Revert sn ctx)) = set_isTop True (p # ps)" "ctx_parents (snd (ctx_Revert sn ctx)) = ps"
    using abs_of_set_isTop [of _ True "p # ps"]
    by (simp_all add: ctx_Revert_def Let_def absc_def absp_def ctx_wf_def ctx_env_def ctx_parents_def dirty_def)
qed

text \<open>
  \<open>Commit\<close> exactly: what the snapshot below had deleted stays deleted, even if the committed snapshot wrote
  it again; everything else keeps its value.
\<close>

definition commit_abs :: "ctx_data \<Rightarrow> absctx \<Rightarrow> absctx" where
  "commit_abs p s = s\<lparr>
     a_data := (\<lambda>k. if key_ok k \<and> s_del k p then [] else a_data s k),
     a_seq := (\<lambda>a. if DeletedAccountMap p a \<noteq> None then 0 else a_seq s a),
     a_acc := (\<lambda>a. if DeletedAccountMap p a \<noteq> None then Inl ErrDeletedAccount else a_acc s a),
     a_utxo := (\<lambda>u. if DeletedUTXOMap p u \<noteq> None then Inl ErrUsedUTXO else a_utxo s u)\<rparr>"

lemma layered_commit_data:
  "layered (f_data k) (commit_merge d p # ps) b = (if s_del k p then [] else layered (f_data k) (d # p # ps) b)"
  by (cases k) (auto simp: f_data_def commit_merge_def map_minus_def map_add_def split: option.splits)

lemma layered_commit:
  "layered (f_seq a) (commit_merge d p # ps) b1 =
     (if DeletedAccountMap p a \<noteq> None then 0 else layered (f_seq a) (d # p # ps) b1)"
  "layered (f_acc a) (commit_merge d p # ps) b2 =
     (if DeletedAccountMap p a \<noteq> None then Inl ErrDeletedAccount else layered (f_acc a) (d # p # ps) b2)"
  "layered (f_name n) (commit_merge d p # ps) b3 = layered (f_name n) (d # p # ps) b3"
  "layered (f_utxo u) (commit_merge d p # ps) b4 =
     (if DeletedUTXOMap p u \<noteq> None then Inl ErrUsedUTXO else layered (f_utxo u) (d # p # ps) b4)"
  by (auto simp: layer_defs commit_merge_def map_minus_def map_add_def split: option.splits)

lemma abs_of_commit:
  "abs_of ld (commit_merge d p # ps) cc = commit_abs p (abs_of ld (d # p # ps) cc)"
  unfolding abs_of_def commit_abs_def view_defs layered_commit_data layered_commit
  by (auto simp: fun_eq_iff v_events_Cons) (simp_all add: commit_merge_def)

lemma Commit_simps [ctx_simps]:
  assumes "ctx_wf ctx" "ctx_parents ctx = p # ps" "sn = ctx_sn ctx"
  shows "fst (ctx_Commit sn ctx) = Inr ()" "absc (snd (ctx_Commit sn ctx)) = commit_abs p (absc ctx)"
    "absp (snd (ctx_Commit sn ctx)) = tl (absp ctx)" "ctx_wf (snd (ctx_Commit sn ctx))"
    "ctx_env (snd (ctx_Commit sn ctx)) = ctx_env ctx" "ctx_parents (snd (ctx_Commit sn ctx)) = ps"
proof -
  obtain d where st: "ctx_stack ctx = d # p # ps" "list_all (\<lambda>d. \<not> isTop d) ps" "sn = Suc (Suc (length ps))"
    using assms by (cases "ctx_stack ctx") (auto simp: ctx_wf_def ctx_parents_def ctx_sn_def)
  have loop: "commit_loop sn (d # p # ps) = Inr (commit_merge d p # ps)"
    using st(3) by (cases ps) simp_all
  show "fst (ctx_Commit sn ctx) = Inr ()" "absc (snd (ctx_Commit sn ctx)) = commit_abs p (absc ctx)"
    "absp (snd (ctx_Commit sn ctx)) = tl (absp ctx)" "ctx_wf (snd (ctx_Commit sn ctx))"
    "ctx_env (snd (ctx_Commit sn ctx)) = ctx_env ctx" "ctx_parents (snd (ctx_Commit sn ctx)) = ps"
    using st(1,2) loop abs_of_commit abs_of_set_isTop [of _ True "commit_merge d p # ps"]
    by (simp_all add: ctx_Commit_def absc_def absp_def ctx_wf_def ctx_env_def ctx_parents_def dirty_def)
qed

section \<open>Accounts and sequences\<close>

lemma ctx_wfE:
  assumes "ctx_wf ctx"
  obtains d ps where "ctx_stack ctx = d # ps" "isTop d" "list_all (\<lambda>d. \<not> isTop d) ps"
  using assms by (cases "ctx_stack ctx") (auto simp: ctx_wf_def)

lemma abs_of_put_account:
  assumes "DeletedAccountMap d a = None"
  shows "abs_of ld (d\<lparr>AccountMap := (AccountMap d)(a \<mapsto> acc)\<rparr> # ps) cc =
    (abs_of ld (d # ps) cc)\<lparr>a_acc := (a_acc (abs_of ld (d # ps) cc))(a := Inr acc)\<rparr>"
  using assms by (auto simp: abs_of_def fun_eq_iff view_defs f_data_other layer_defs v_events_Cons)

lemma ctx_UpdateAccount_writes:
  assumes "ctx_wf ctx" "a_acc (absc ctx) (account_Address acc) = Inr x"
  shows "writes (ctx_UpdateAccount acc) ctx (\<lambda>s. s\<lparr>a_acc := (a_acc s)(account_Address acc := Inr acc)\<rparr>)"
proof -
  obtain d ps where st: "ctx_stack ctx = d # ps" "isTop d" "list_all (\<lambda>d. \<not> isTop d) ps"
    using assms(1) by (rule ctx_wfE)
  have "DeletedAccountMap d (account_Address acc) = None"
    using assms(2) st(1) by (auto simp: absc_def abs_of_def v_acc_def f_acc_def split: if_splits)
  then show ?thesis
    using st abs_of_put_account
    by (simp add: writes_def ctx_UpdateAccount_def on_top_def on_stack_def absc_def absp_def ctx_wf_def ctx_env_def ctx_parents_def)
qed

lemma abs_of_put_seq:
  assumes "DeletedAccountMap d a = None" "f_seq a d = None \<Longrightarrow> v = v_seq ld ps cc a" "\<And>r. f_seq a d = Some r \<Longrightarrow> v = r"
  shows "abs_of ld (d\<lparr>SeqMap := m(a \<mapsto> v + 1)\<rparr> # ps) cc =
    (abs_of ld (d\<lparr>SeqMap := m\<rparr> # ps) cc)\<lparr>a_seq := (a_seq (abs_of ld (d\<lparr>SeqMap := m\<rparr> # ps) cc))(a := v + 1)\<rparr>"
  using assms by (auto simp: abs_of_def fun_eq_iff view_defs f_data_other layer_defs v_events_Cons)

lemma ctx_AddSeq_writes:
  assumes "ctx_wf ctx"
  shows "writes (ctx_AddSeq a) ctx
    (if DeletedAccountMap (hd (ctx_stack ctx)) a \<noteq> None then (\<lambda>s. s)
     else (\<lambda>s. s\<lparr>a_seq := (a_seq s)(a := a_seq s a + 1)\<rparr>))"
proof -
  obtain d ps where st: "ctx_stack ctx = d # ps" "isTop d" "list_all (\<lambda>d. \<not> isTop d) ps"
    using assms by (rule ctx_wfE)
  show ?thesis
  proof (cases "DeletedAccountMap d a")
    case (Some x)
    then show ?thesis
      using st assms
      by (simp add: writes_def ctx_AddSeq_def on_stack_def ctd_AddSeq_def absc_def absp_def ctx_wf_def ctx_env_def ctx_parents_def dirty_def)
  next
    case None
    let ?ld = "ctx_loader ctx" and ?cc = "ctx_cache ctx" let ?v = "v_seq ?ld (d # ps) ?cc a"
    obtain cc0 where p: "ctd_Seq ?ld a ps ?cc = (v_seq ?ld ps ?cc a, ps, cc0)" "same_base ?ld ?cc cc0"
      using parent_Seq [OF st(3)] by blast
    have "\<exists>cc'. ctd_AddSeq ?ld a (d # ps) ?cc = (d\<lparr>SeqMap := (SeqMap d)(a \<mapsto> ?v + 1)\<rparr> # ps, cc') \<and> same_base ?ld ?cc cc'"
      using None p by (cases "SeqMap d a") (auto simp: ctd_AddSeq_def ctd_Seq.simps v_seq_def f_seq_def)
    then obtain cc' where r: "ctd_AddSeq ?ld a (d # ps) ?cc = (d\<lparr>SeqMap := (SeqMap d)(a \<mapsto> ?v + 1)\<rparr> # ps, cc')"
      "same_base ?ld ?cc cc'" by blast
    have "abs_of ?ld (d\<lparr>SeqMap := (SeqMap d)(a \<mapsto> ?v + 1)\<rparr> # ps) ?cc =
        (abs_of ?ld (d # ps) ?cc)\<lparr>a_seq := (a_seq (abs_of ?ld (d # ps) ?cc))(a := ?v + 1)\<rparr>"
      using abs_of_put_seq [OF None, of ?v ?ld ps ?cc "SeqMap d"] by (simp add: v_seq_def)
    moreover have "a_seq (abs_of ?ld (d # ps) ?cc) a = ?v" by (simp add: abs_of_def)
    ultimately show ?thesis
      using st None r
      by (simp add: writes_def ctx_AddSeq_def on_stack_def absc_def absp_def ctx_wf_def ctx_env_def ctx_parents_def dirty_def
          abs_of_base abs_stack_base)
  qed
qed

lemmas account_write_simps [ctx_simps] = writesD [OF ctx_UpdateAccount_writes] writesD [OF ctx_AddSeq_writes]

text \<open>Account creation.\<close>

definition account_free :: "ctx \<Rightarrow> account \<Rightarrow> bool" where
  "account_free ctx acc \<longleftrightarrow>
     exist_check (ctd_HasAccount (ctx_loader ctx) (account_Address acc) (ctx_stack ctx) (ctx_cache ctx)) ErrExistAccount = Inr ()
     \<and> exist_check (ctd_HasAccountName (ctx_loader ctx) (account_Name acc) (ctx_stack ctx) (ctx_cache ctx)) ErrExistAccountName = Inr ()"

definition account_admissible :: "(string \<Rightarrow> bytes res) \<Rightarrow> u32 \<Rightarrow> account \<Rightarrow> bool" where
  "account_admissible dec height acc \<longleftrightarrow>
     Height (account_Address acc) = Inr height \<and> account_Address acc \<noteq> NewAddress 0 0 0
     \<and> ParseAddress dec (account_Name acc) \<notin> range Inr"

lemma ctx_CreateAccount_simps:
  assumes "ctx_wf ctx" "DeletedAccountMap (hd (ctx_stack ctx)) (account_Address acc) = None"
  shows "fst (ctx_CreateAccount dec acc ctx) = Inr () \<longleftrightarrow>
           account_admissible dec (genTargetHeight ctx) acc \<and> account_free ctx acc"
    "absc (snd (ctx_CreateAccount dec acc ctx)) =
       (if fst (ctx_CreateAccount dec acc ctx) = Inr ()
        then (absc ctx)\<lparr>a_acc := (a_acc (absc ctx))(account_Address acc := Inr acc),
                        a_name := (a_name (absc ctx))(account_Name acc := Inr (account_Address acc))\<rparr>
        else absc ctx)"
    "ctx_wf (snd (ctx_CreateAccount dec acc ctx))" "ctx_env (snd (ctx_CreateAccount dec acc ctx)) = ctx_env ctx"
    "ctx_parents (snd (ctx_CreateAccount dec acc ctx)) = ctx_parents ctx"
    "absp (snd (ctx_CreateAccount dec acc ctx)) = absp ctx"
proof -
  let ?a = "account_Address acc" and ?n = "account_Name acc"
  obtain d ps where st: "ctx_stack ctx = d # ps" "isTop d" "list_all (\<lambda>d. \<not> isTop d) ps"
    using assms(1) by (rule ctx_wfE)
  let ?d = "d\<lparr>AccountMap := (AccountMap d)(?a \<mapsto> acc), AccountNameMap := (AccountNameMap d)(?n \<mapsto> ?a)\<rparr>"
  have abs: "abs_of ld (?d # ps) cc = (abs_of ld (d # ps) cc)\<lparr>a_acc := (a_acc (abs_of ld (d # ps) cc))(?a := Inr acc),
      a_name := (a_name (abs_of ld (d # ps) cc))(?n := Inr ?a)\<rparr>" for ld cc
    using assms(2) st(1) by (auto simp: abs_of_def fun_eq_iff view_defs f_data_other layer_defs v_events_Cons)
  let ?r = "ctd_CreateAccount dec (ctx_loader ctx) (genTargetHeight ctx) acc (d # ps) (ctx_cache ctx)"
  have ok: "?r = Inr (?d # ps) \<longleftrightarrow> account_admissible dec (genTargetHeight ctx) acc \<and> account_free ctx acc"
    "?r = Inr (?d # ps) \<or> (\<exists>e. ?r = Inl e)"
    by (auto simp: ctd_CreateAccount_def Let_def account_admissible_def account_free_def st(1) bind_res_Inr_iff
        split: if_splits sum.splits) (auto simp: exist_check_def split: if_splits sum.splits)
  show "fst (ctx_CreateAccount dec acc ctx) = Inr () \<longleftrightarrow>
           account_admissible dec (genTargetHeight ctx) acc \<and> account_free ctx acc"
    "absc (snd (ctx_CreateAccount dec acc ctx)) =
       (if fst (ctx_CreateAccount dec acc ctx) = Inr ()
        then (absc ctx)\<lparr>a_acc := (a_acc (absc ctx))(account_Address acc := Inr acc),
                        a_name := (a_name (absc ctx))(account_Name acc := Inr (account_Address acc))\<rparr>
        else absc ctx)"
    "ctx_wf (snd (ctx_CreateAccount dec acc ctx))" "ctx_env (snd (ctx_CreateAccount dec acc ctx)) = ctx_env ctx"
    "ctx_parents (snd (ctx_CreateAccount dec acc ctx)) = ctx_parents ctx"
    "absp (snd (ctx_CreateAccount dec acc ctx)) = absp ctx"
    using ok st abs
    by (auto simp: ctx_CreateAccount_def on_stack_res_def on_stack_def cbind_def dirty_def absc_def absp_def ctx_wf_def
        ctx_env_def ctx_parents_def)
qed

end
