(* ===== verification/Context_Runs.thy ===== *)
theory Context_Runs
  imports Context_Laws
begin

text \<open>
  Whole runs of a context: arbitrary sequences of operations with nested snapshots, what \<open>Revert\<close> and
  \<open>Commit\<close> do to them.
\<close>

section \<open>Operations leave the snapshots below alone\<close>

definition keeps :: "'a cm \<Rightarrow> bool" where
  "keeps m \<longleftrightarrow> (\<forall>ctx. ctx_wf ctx \<longrightarrow> ctx_wf (snd (m ctx)) \<and> ctx_env (snd (m ctx)) = ctx_env ctx
     \<and> ctx_parents (snd (m ctx)) = ctx_parents ctx \<and> absp (snd (m ctx)) = absp ctx)"

lemma keepsD:
  assumes "keeps m" "ctx_wf ctx"
  shows "ctx_wf (snd (m ctx))" "ctx_env (snd (m ctx)) = ctx_env ctx"
    "ctx_parents (snd (m ctx)) = ctx_parents ctx" "absp (snd (m ctx)) = absp ctx"
  using assms by (simp_all add: keeps_def)

named_theorems keeps_intros

lemma keeps_cret [keeps_intros]: "keeps (cret a)" "keeps (cfail e)"
  by (simp_all add: keeps_def ctx_simps)

lemma keeps_cbind [keeps_intros]: "keeps m \<Longrightarrow> (\<And>a. keeps (f a)) \<Longrightarrow> keeps (cbind m f)"
  unfolding keeps_def by (auto simp: cbind_def split: prod.splits sum.splits)

lemma keeps_if [keeps_intros]: "(b \<Longrightarrow> keeps m) \<Longrightarrow> (\<not> b \<Longrightarrow> keeps n) \<Longrightarrow> keeps (if b then m else n)"
  by simp

lemma keeps_dirty: "keeps m \<Longrightarrow> keeps (\<lambda>ctx. m (dirty ctx))"
  by (simp add: keeps_def ctx_simps)

definition top_only :: "(loader \<Rightarrow> ctx_data list \<Rightarrow> cache \<Rightarrow> 'a \<times> ctx_data list \<times> cache) \<Rightarrow> bool" where
  "top_only f \<longleftrightarrow> (\<forall>ld d ps cc. list_all (\<lambda>d. \<not> isTop d) ps \<longrightarrow>
     (\<exists>r d' cc'. f ld (d # ps) cc = (r, d' # ps, cc') \<and> isTop d' = isTop d \<and> same_base ld cc cc'))"

lemma keeps_on_stack: "top_only f \<Longrightarrow> keeps (on_stack f)"
  unfolding keeps_def
proof (intro allI impI)
  fix ctx assume f: "top_only f" and "ctx_wf ctx"
  then obtain d ps where st: "ctx_stack ctx = d # ps" "isTop d" "list_all (\<lambda>d. \<not> isTop d) ps"
    by (auto elim: ctx_wfE)
  obtain r d' cc' where "f (ctx_loader ctx) (d # ps) (ctx_cache ctx) = (r, d' # ps, cc')" "isTop d' = isTop d"
    "same_base (ctx_loader ctx) (ctx_cache ctx) cc'"
    using f st(3) unfolding top_only_def by blast
  then show "ctx_wf (snd (on_stack f ctx)) \<and> ctx_env (snd (on_stack f ctx)) = ctx_env ctx
     \<and> ctx_parents (snd (on_stack f ctx)) = ctx_parents ctx \<and> absp (snd (on_stack f ctx)) = absp ctx"
    using st by (simp add: on_stack_def ctx_wf_def ctx_env_def ctx_parents_def absp_def abs_stack_base)
qed

lemma keeps_on_stack_res: "top_only f \<Longrightarrow> keeps (on_stack_res f)"
  unfolding on_stack_res_def by (intro keeps_cbind keeps_on_stack) (simp_all add: keeps_def)

lemma keeps_on_top: "(\<And>d. isTop (f d) = isTop d) \<Longrightarrow> keeps (on_top f)"
  unfolding on_top_def by (intro keeps_on_stack) (simp add: top_only_def)

lemma read_top_only: "(\<And>ld d ps cc. list_all (\<lambda>d. \<not> isTop d) ps \<Longrightarrow> \<exists>v. read_ok ld d ps cc v (f ld (d # ps) cc)) \<Longrightarrow> top_only f"
  unfolding top_only_def read_ok_def by blast

lemma top_only_reads:
  "top_only (\<lambda>ld. ctd_Seq ld a)" "top_only (\<lambda>ld. ctd_Account ld a)" "top_only (\<lambda>ld. ctd_AddressByName ld n)"
  "top_only (\<lambda>ld. ctd_UTXO ld u)" "is_address addr \<Longrightarrow> top_only (\<lambda>ld. ctd_AccountData ld addr pid name)"
  "top_only (\<lambda>ld. ctd_ProcessData ld pid name)"
  by - (rule read_top_only, rule exI, rule top_Seq top_Account top_AddressByName top_UTXO top_AccountData top_ProcessData;
    assumption)+

lemma top_only_via:
  assumes "top_only f"
    and "\<And>ld d ps cc r d' cc'. f ld (d # ps) cc = (r, d' # ps, cc') \<Longrightarrow>
           (\<exists>r2 d2. g ld (d # ps) cc = (r2, d2 # ps, cc') \<and> isTop d2 = isTop d') \<or> (\<exists>r2. g ld (d # ps) cc = (r2, d # ps, cc))"
  shows "top_only g"
  unfolding top_only_def
proof (intro allI impI)
  fix ld d and ps :: "ctx_data list" and cc
  assume "list_all (\<lambda>d. \<not> isTop d) ps"
  then obtain r d' cc' where r: "f ld (d # ps) cc = (r, d' # ps, cc')" "isTop d' = isTop d" "same_base ld cc cc'"
    using assms(1) unfolding top_only_def by blast
  show "\<exists>r d' cc'. g ld (d # ps) cc = (r, d' # ps, cc') \<and> isTop d' = isTop d \<and> same_base ld cc cc'"
    using assms(2) [OF r(1)] r(2,3) same_base_refl by auto
qed

lemma top_only_writes:
  "top_only (\<lambda>ld st cc. ((), ctd_AddSeq ld a st cc))" "top_only (\<lambda>ld. ctd_DeleteAccount ld acc)"
  "top_only (\<lambda>ld. ctd_CreateUTXO ld u vout)" "top_only (\<lambda>ld. ctd_DeleteUTXO ld ut)"
  "top_only (\<lambda>ld st cc. case ctd_CreateAccount dec ld h acc st cc of
      Inl err \<Rightarrow> (Inl err, st, cc) | Inr st' \<Rightarrow> (Inr (), st', cc))"
proof -
  show "top_only (\<lambda>ld st cc. ((), ctd_AddSeq ld a st cc))"
    by (rule top_only_via [OF top_only_reads(1) [of a]]) (auto simp: ctd_AddSeq_def)
  show "top_only (\<lambda>ld. ctd_DeleteAccount ld acc)"
    by (rule top_only_via [OF top_only_reads(2) [of "account_Address acc"]])
      (auto simp: ctd_DeleteAccount_def Let_def split: sum.splits)
  show "top_only (\<lambda>ld. ctd_CreateUTXO ld u vout)"
    by (rule top_only_via [OF top_only_reads(4) [of u]]) (auto simp: ctd_CreateUTXO_def split: sum.splits)
  show "top_only (\<lambda>ld. ctd_DeleteUTXO ld ut)"
    by (rule top_only_via [OF top_only_reads(4) [of "utxo_ID ut"]]) (auto simp: ctd_DeleteUTXO_def split: sum.splits)
  show "top_only (\<lambda>ld st cc. case ctd_CreateAccount dec ld h acc st cc of
      Inl err \<Rightarrow> (Inl err, st, cc) | Inr st' \<Rightarrow> (Inr (), st', cc))"
  proof -
    have "\<exists>d'. st' = d' # ps \<and> isTop d' = isTop d" if "ctd_CreateAccount dec ld h acc (d # ps) cc = Inr st'" for ld d ps cc st'
      using that
      by (auto simp: ctd_CreateAccount_def Let_def bind_res_Inr_iff split: if_split_asm)
    then show ?thesis
      unfolding top_only_def by (fastforce split: sum.split)
  qed
qed

lemma keeps_ops [keeps_intros]:
  "keeps (ctx_Seq a)" "keeps (ctx_AddSeq a)" "keeps (ctx_Account a)" "keeps (ctx_AddressByName n)"
  "keeps (ctx_HasAccount a)" "keeps (ctx_HasAccountName n)" "keeps (ctx_DeleteAccount acc)" "keeps (ctx_UpdateAccount acc)"
  "is_address addr \<Longrightarrow> keeps (ctx_AccountData addr pid name)" "keeps (ctx_SetAccountData addr pid name v)"
  "keeps (ctx_HasUTXO u)" "keeps (ctx_UTXO u)" "keeps (ctx_CreateUTXO u vout)" "keeps (ctx_DeleteUTXO ut)"
  "keeps (ctx_EmitEvent e)" "keeps (ctx_ProcessData pid name)" "keeps (ctx_SetProcessData pid name v)"
proof -
  show "keeps (ctx_Seq a)" unfolding ctx_Seq_def by (rule keeps_on_stack [OF top_only_reads(1)])
  show "keeps (ctx_AddSeq a)" unfolding ctx_AddSeq_def [abs_def] by (rule keeps_dirty [OF keeps_on_stack [OF top_only_writes(1)]])
  show "keeps (ctx_Account a)" unfolding ctx_Account_def [abs_def] by (rule keeps_dirty [OF keeps_on_stack_res [OF top_only_reads(2)]])
  show "keeps (ctx_AddressByName n)" unfolding ctx_AddressByName_def by (rule keeps_on_stack_res [OF top_only_reads(3)])
  show "keeps (ctx_HasAccount a)" unfolding ctx_HasAccount_def by (rule keeps_on_stack_res) (simp add: top_only_def)
  show "keeps (ctx_HasAccountName n)" unfolding ctx_HasAccountName_def by (rule keeps_on_stack_res) (simp add: top_only_def)
  show "keeps (ctx_DeleteAccount acc)" unfolding ctx_DeleteAccount_def [abs_def] by (rule keeps_dirty [OF keeps_on_stack_res [OF top_only_writes(2)]])
  show "keeps (ctx_UpdateAccount acc)" unfolding ctx_UpdateAccount_def by (rule keeps_on_top) simp
  show "keeps (ctx_AccountData addr pid name)" if "is_address addr"
    unfolding ctx_AccountData_def by (rule keeps_on_stack [OF top_only_reads(5) [OF that]])
  show "keeps (ctx_SetAccountData addr pid name v)"
    unfolding ctx_SetAccountData_def [abs_def] by (intro keeps_dirty keeps_on_top) (simp add: Set_other)
  show "keeps (ctx_HasUTXO u)" unfolding ctx_HasUTXO_def by (rule keeps_on_stack_res) (simp add: top_only_def)
  show "keeps (ctx_UTXO u)" unfolding ctx_UTXO_def by (rule keeps_on_stack_res [OF top_only_reads(4)])
  show "keeps (ctx_CreateUTXO u vout)" unfolding ctx_CreateUTXO_def [abs_def] by (rule keeps_dirty [OF keeps_on_stack_res [OF top_only_writes(3)]])
  show "keeps (ctx_DeleteUTXO ut)" unfolding ctx_DeleteUTXO_def [abs_def] by (rule keeps_dirty [OF keeps_on_stack_res [OF top_only_writes(4)]])
  show "keeps (ctx_EmitEvent e)"
    unfolding ctx_EmitEvent_def [abs_def] by (intro keeps_dirty keeps_on_top) (simp add: ctd_EmitEvent_def)
  show "keeps (ctx_ProcessData pid name)" unfolding ctx_ProcessData_def by (rule keeps_on_stack [OF top_only_reads(6)])
  show "keeps (ctx_SetProcessData pid name v)"
    unfolding ctx_SetProcessData_def by (rule keeps_on_top) (simp add: Set_other)
qed

lemma keeps_CreateAccount [keeps_intros]: "keeps (ctx_CreateAccount dec acc)"
  unfolding keeps_def
proof (intro allI impI)
  fix ctx assume "ctx_wf ctx"
  then have "ctx_wf (dirty ctx)" by (simp add: ctx_simps)
  from keepsD [OF keeps_on_stack_res [OF top_only_writes(5)] this, of dec "genTargetHeight ctx" acc]
  show "ctx_wf (snd (ctx_CreateAccount dec acc ctx)) \<and> ctx_env (snd (ctx_CreateAccount dec acc ctx)) = ctx_env ctx
     \<and> ctx_parents (snd (ctx_CreateAccount dec acc ctx)) = ctx_parents ctx \<and> absp (snd (ctx_CreateAccount dec acc ctx)) = absp ctx"
    by (simp add: ctx_CreateAccount_def ctx_simps)
qed

section \<open>Runs\<close>

text \<open>
  The operations a block performs on its context, with nested snapshots that end in \<open>Commit\<close> or \<open>Revert\<close>.
\<close>

datatype cop =
    CSeq address | CAddSeq address | CAccount address | CAddressByName string
  | CCreateAccount account | CDeleteAccount account | CUpdateAccount account
  | CAccountData address u8 bytes | CSetAccountData address u8 bytes bytes
  | CUTXO u64 | CCreateUTXO u64 txout | CDeleteUTXO utxo | CEmitEvent event
  | CProcessData u8 bytes | CSetProcessData u8 bytes bytes
  | CNested bool "cop list"

primrec crun_op :: "(string \<Rightarrow> bytes res) \<Rightarrow> cop \<Rightarrow> ctx \<Rightarrow> ctx"
  and crun :: "(string \<Rightarrow> bytes res) \<Rightarrow> cop list \<Rightarrow> ctx \<Rightarrow> ctx" where
  "crun_op dec (CSeq a) = snd \<circ> ctx_Seq a"
| "crun_op dec (CAddSeq a) = snd \<circ> ctx_AddSeq a"
| "crun_op dec (CAccount a) = snd \<circ> ctx_Account a"
| "crun_op dec (CAddressByName n) = snd \<circ> ctx_AddressByName n"
| "crun_op dec (CCreateAccount acc) = snd \<circ> ctx_CreateAccount dec acc"
| "crun_op dec (CDeleteAccount acc) = snd \<circ> ctx_DeleteAccount acc"
| "crun_op dec (CUpdateAccount acc) = snd \<circ> ctx_UpdateAccount acc"
| "crun_op dec (CAccountData a p n) = snd \<circ> ctx_AccountData a p n"
| "crun_op dec (CSetAccountData a p n v) = snd \<circ> ctx_SetAccountData a p n v"
| "crun_op dec (CUTXO u) = snd \<circ> ctx_UTXO u"
| "crun_op dec (CCreateUTXO u vout) = snd \<circ> ctx_CreateUTXO u vout"
| "crun_op dec (CDeleteUTXO ut) = snd \<circ> ctx_DeleteUTXO ut"
| "crun_op dec (CEmitEvent e) = snd \<circ> ctx_EmitEvent e"
| "crun_op dec (CProcessData p n) = snd \<circ> ctx_ProcessData p n"
| "crun_op dec (CSetProcessData p n v) = snd \<circ> ctx_SetProcessData p n v"
| "crun_op dec (CNested commit ops) = (\<lambda>ctx.
     let ctx1 = crun dec ops (snd (ctx_Snapshot ctx)); sn = ctx_sn ctx + 1
     in snd (if commit then ctx_Commit sn ctx1 else ctx_Revert sn ctx1))"
| "crun dec [] = (\<lambda>ctx. ctx)"
| "crun dec (x # xs) = (\<lambda>ctx. crun dec xs (crun_op dec x ctx))"

primrec cop_ok :: "cop \<Rightarrow> bool" and cops_ok :: "cop list \<Rightarrow> bool" where
  "cop_ok (CSeq a) = True" | "cop_ok (CAddSeq a) = True" | "cop_ok (CAccount a) = True" | "cop_ok (CAddressByName n) = True"
| "cop_ok (CCreateAccount acc) = True" | "cop_ok (CDeleteAccount acc) = True" | "cop_ok (CUpdateAccount acc) = True"
| "cop_ok (CAccountData a p n) = is_address a" | "cop_ok (CSetAccountData a p n v) = is_address a"
| "cop_ok (CUTXO u) = True" | "cop_ok (CCreateUTXO u vout) = True" | "cop_ok (CDeleteUTXO ut) = True"
| "cop_ok (CEmitEvent e) = True" | "cop_ok (CProcessData p n) = True" | "cop_ok (CSetProcessData p n v) = True"
| "cop_ok (CNested c ops) = cops_ok ops"
| "cops_ok [] = True" | "cops_ok (x # xs) = (cop_ok x \<and> cops_ok xs)"

definition bracketed_run :: "(ctx \<Rightarrow> ctx) \<Rightarrow> bool" where
  "bracketed_run f \<longleftrightarrow> (\<forall>ctx. ctx_wf ctx \<longrightarrow> ctx_wf (f ctx) \<and> ctx_env (f ctx) = ctx_env ctx
     \<and> ctx_parents (f ctx) = ctx_parents ctx \<and> absp (f ctx) = absp ctx)"

lemma keeps_bracketed: "keeps m \<Longrightarrow> bracketed_run (snd \<circ> m)"
  by (simp add: keeps_def bracketed_run_def)

lemma ctx_stack_parents:
  assumes "ctx_wf ctx" shows "ctx_stack ctx = hd (ctx_stack ctx) # ctx_parents ctx"
  using assms by (simp add: ctx_wf_def ctx_parents_def)

text \<open>After a snapshot and a bracketed run, the snapshot can be committed or reverted by its number.\<close>

lemma snapshot_run:
  assumes "ctx_wf ctx" "bracketed_run f"
  defines "ctx1 \<equiv> f (snd (ctx_Snapshot ctx))"
  shows "ctx_wf ctx1" "ctx_parents ctx1 = (hd (ctx_stack ctx))\<lparr>isTop := False\<rparr> # ctx_parents ctx"
    "ctx_sn ctx + 1 = ctx_sn ctx1" "absp ctx1 = absc ctx # absp ctx" "ctx_env ctx1 = ctx_env ctx"
proof -
  have wf: "ctx_wf (snd (ctx_Snapshot ctx))" using assms(1) by (simp add: ctx_simps)
  have par: "ctx_parents (snd (ctx_Snapshot ctx)) = (hd (ctx_stack ctx))\<lparr>isTop := False\<rparr> # ctx_parents ctx"
    using assms(1) ctx_stack_parents [OF assms(1)] by (metis Snapshot_simps(6) set_isTop_Cons)
  show "ctx_wf ctx1" "ctx_env ctx1 = ctx_env ctx" "absp ctx1 = absc ctx # absp ctx"
    using assms(2) wf assms(1) by (simp_all add: bracketed_run_def ctx1_def ctx_simps)
  show p: "ctx_parents ctx1 = (hd (ctx_stack ctx))\<lparr>isTop := False\<rparr> # ctx_parents ctx"
    using assms(2) wf par by (simp add: bracketed_run_def ctx1_def)
  show "ctx_sn ctx + 1 = ctx_sn ctx1" by (simp add: ctx_sn_def p)
qed

lemma nested_bracketed:
  assumes "bracketed_run f"
  shows "bracketed_run (\<lambda>ctx. snd (if c then ctx_Commit (ctx_sn ctx + 1) (f (snd (ctx_Snapshot ctx)))
                                   else ctx_Revert (ctx_sn ctx + 1) (f (snd (ctx_Snapshot ctx)))))"
  unfolding bracketed_run_def
proof (intro allI impI)
  fix ctx assume "ctx_wf ctx"
  note r = snapshot_run [OF this assms]
  show "ctx_wf (snd (if c then ctx_Commit (ctx_sn ctx + 1) (f (snd (ctx_Snapshot ctx)))
             else ctx_Revert (ctx_sn ctx + 1) (f (snd (ctx_Snapshot ctx))))) \<and>
        ctx_env (snd (if c then ctx_Commit (ctx_sn ctx + 1) (f (snd (ctx_Snapshot ctx)))
             else ctx_Revert (ctx_sn ctx + 1) (f (snd (ctx_Snapshot ctx))))) = ctx_env ctx \<and>
        ctx_parents (snd (if c then ctx_Commit (ctx_sn ctx + 1) (f (snd (ctx_Snapshot ctx)))
             else ctx_Revert (ctx_sn ctx + 1) (f (snd (ctx_Snapshot ctx))))) = ctx_parents ctx \<and>
        absp (snd (if c then ctx_Commit (ctx_sn ctx + 1) (f (snd (ctx_Snapshot ctx)))
             else ctx_Revert (ctx_sn ctx + 1) (f (snd (ctx_Snapshot ctx))))) = absp ctx"
    using Commit_simps [OF r(1-3)] Revert_simps [OF r(1-3)] r(4,5) by (cases c) simp_all
qed

lemma crun_list:
  assumes "\<And>x. x \<in> set xs \<Longrightarrow> cop_ok x \<Longrightarrow> bracketed_run (crun_op dec x)" "cops_ok xs"
  shows "bracketed_run (crun dec xs)"
  using assms by (induction xs) (auto simp: bracketed_run_def)

lemma crun_op_bracketed: "cop_ok x \<Longrightarrow> bracketed_run (crun_op dec x)"
proof (induction x)
  case (CNested c ops)
  then have "bracketed_run (crun dec ops)" by (intro crun_list) auto
  then show ?case unfolding crun_op.simps Let_def by (rule nested_bracketed)
qed (auto intro!: keeps_bracketed keeps_intros)

lemma crun_bracketed: "cops_ok ops \<Longrightarrow> bracketed_run (crun dec ops)"
  by (intro crun_list crun_op_bracketed)

lemma Snapshot_NewContext: "ctx_Snapshot (NewContext ld) = (Inr 2, snd (ctx_Snapshot (NewContext ld)))"
proof -
  have "ctx_sn (NewContext ld) = 1" by (simp add: ctx_sn_def ctx_parents_def NewContext_def)
  then show ?thesis using Snapshot_simps(1) [OF NewContext_wf, of ld] by (simp add: prod_eq_iff)
qed

lemma NewContext_top:
  "DeletedAccountDataMap (hd (ctx_stack (NewContext ld))) = Map.empty"
  "DeletedProcessDataMap (hd (ctx_stack (NewContext ld))) = Map.empty"
  "DeletedAccountMap (hd (ctx_stack (NewContext ld))) = Map.empty"
  "DeletedUTXOMap (hd (ctx_stack (NewContext ld))) = Map.empty"
  by (simp_all add: NewContext_def NewContextData_def)



text \<open>
  C7. The exact effect of \<open>Commit\<close>. After a snapshot and any run of operations, committing succeeds,
  removes one level of the stack, and keeps every value the run left, except that whatever was marked as
  deleted in the snapshot below stays deleted. If nothing was marked there, the committed state is exactly
  the state before the commit.
\<close>

theorem Commit_effect:
  assumes "ctx_wf ctx" "cops_ok ops" "ctx_Snapshot ctx = (Inr sn, ctx1)"
    and "ctx_Commit sn (crun dec ops ctx1) = (r, ctx2)"
  shows "r = Inr () \<and> ctx_wf ctx2 \<and> ctx_StackSize ctx2 = ctx_StackSize ctx
       \<and> absc ctx2 = commit_abs (hd (ctx_stack ctx)) (absc (crun dec ops ctx1))
       \<and> (DeletedAccountDataMap (hd (ctx_stack ctx)) = Map.empty \<and> DeletedProcessDataMap (hd (ctx_stack ctx)) = Map.empty
            \<and> DeletedAccountMap (hd (ctx_stack ctx)) = Map.empty \<and> DeletedUTXOMap (hd (ctx_stack ctx)) = Map.empty
          \<longrightarrow> absc ctx2 = absc (crun dec ops ctx1))"
proof -
  have sn: "sn = ctx_sn ctx + 1" "ctx1 = snd (ctx_Snapshot ctx)"
    using Snapshot_simps(1) [OF assms(1)] assms(3) by auto
  note run = snapshot_run [OF assms(1) crun_bracketed [OF assms(2), of dec]]
  note com = Commit_simps [OF run(1-3)]
  have top: "commit_abs (d\<lparr>isTop := b\<rparr>) s = commit_abs d s" for d b s
  proof -
    have "s_del k (d\<lparr>isTop := b\<rparr>) = s_del k d" for k by (cases k) auto
    then show ?thesis by (simp add: commit_abs_def)
  qed
  have none: "commit_abs d s = s" if "DeletedAccountDataMap d = Map.empty" "DeletedProcessDataMap d = Map.empty"
    "DeletedAccountMap d = Map.empty" "DeletedUTXOMap d = Map.empty" for d s
  proof -
    have "\<not> s_del k d" for k using that by (cases k) auto
    then show ?thesis using that by (simp add: commit_abs_def)
  qed
  have size: "ctx_StackSize c = Suc (length (ctx_parents c))" if "ctx_wf c" for c
    using arg_cong [OF ctx_stack_parents [OF that], of length] by (simp add: ctx_StackSize_def)
  show ?thesis using com assms(1,4) sn top none size by auto
qed

theorem Commit_effect_witness:
  "let ctx = NewContext emptyLoader; ctx1 = snd (ctx_Snapshot ctx); ops = [CSetProcessData 1 [7] [9]]
   in absc (snd (ctx_Commit 2 (crun (\<lambda>_. Inl Panic) ops ctx1))) = absc (crun (\<lambda>_. Inl Panic) ops ctx1)"
proof -
  let ?ctx = "NewContext emptyLoader" let ?ops = "[CSetProcessData 1 [7] [9]]"
  show ?thesis
    using Commit_effect [of ?ctx ?ops 2 "snd (ctx_Snapshot ?ctx)" "\<lambda>_. Inl Panic", OF _ _ Snapshot_NewContext prod.collapse [symmetric]]
    by (auto simp: Let_def NewContext_top)
qed

text \<open>
  C34. \<open>Commit\<close> can lose a write. If a data key is emptied in a snapshot and written again in a snapshot on
  top of it, the write is visible until the commit and gone after it: \<open>Commit\<close> copies the value but never
  clears the deletion mark below. Balances are stored this way, so an account that is emptied by one
  transaction of a block and credited by a later one keeps nothing.
\<close>

theorem Commit_loses_write:
  fixes pid :: u8 and name v :: bytes
  assumes "ctx_wf ctx" "is_address a"
  defines "ctx1 \<equiv> snd (ctx_SetAccountData a pid name [] ctx)"
  defines "ctx2 \<equiv> snd (ctx_SetAccountData a pid name v (snd (ctx_Snapshot ctx1)))"
  shows "fst (ctx_AccountData a pid name ctx2) = Inr v
       \<and> fst (ctx_AccountData a pid name (snd (ctx_Commit (ctx_sn ctx1 + 1) ctx2))) = Inr []"
proof -
  let ?f = "snd \<circ> ctx_SetAccountData a pid name v"
  have wf: "ctx_wf ctx1" using assms(1,2) by (simp add: ctx1_def ctx_simps)
  note run = snapshot_run [OF wf keeps_bracketed [OF keeps_ops(10)], of a pid name v]
  have del: "DeletedAccountDataMap (hd (ctx_stack ctx1)) (account_key a pid name) \<noteq> None"
    using assms(1) by (auto simp: ctx1_def ctx_SetAccountData_def on_top_def on_stack_def dirty_def ctd_SetAccountData_def
        Let_def elim!: ctx_wfE)
  have wf2: "ctx_wf ctx2" and par: "ctx_parents ctx2 = (hd (ctx_stack ctx1))\<lparr>isTop := False\<rparr> # ctx_parents ctx1"
    and sn: "ctx_sn ctx1 + 1 = ctx_sn ctx2"
    using run(1-3) by (simp_all add: ctx2_def)
  have "fst (ctx_AccountData a pid name ctx2) = Inr v"
    using wf assms(2) by (simp add: ctx2_def ctx_simps)
  moreover have "fst (ctx_AccountData a pid name (snd (ctx_Commit (ctx_sn ctx1 + 1) ctx2))) = Inr []"
    using Commit_simps [OF wf2 par sn] assms(2) del by (simp add: ctx_simps commit_abs_def)
  ultimately show ?thesis ..
qed

theorem Commit_loses_write_witness:
  "let ctx1 = snd (ctx_SetAccountData (NewAddress 1 0 0) 1 [16] [] (NewContext emptyLoader));
       ctx2 = snd (ctx_SetAccountData (NewAddress 1 0 0) 1 [16] [5] (snd (ctx_Snapshot ctx1)))
   in fst (ctx_AccountData (NewAddress 1 0 0) 1 [16] ctx2) = Inr [5]
    \<and> fst (ctx_AccountData (NewAddress 1 0 0) 1 [16] (snd (ctx_Commit (ctx_sn ctx1 + 1) ctx2))) = Inr []"
  unfolding Let_def by (rule Commit_loses_write) simp_all

end
