(* ===== verification/Process_Base.thy ===== *)
theory Process_Base
  imports Context_Runs
begin

text \<open>
  What the processes (\<open>process/*\<close>) share: the wrapper that ties a context to the data of one process
  (\<open>core/types/context_wrapper.go\<close>), the admin process (\<open>process/admin\<close>), account names, and the laws of
  the deletion marks of the top snapshot, which decide what a commit keeps. A process is named by its
  \<open>pid\<close>; \<open>SwitchContextWrapper\<close> replaces the pid of a wrapper and keeps its context, so the operations
  of a process take the pid they switch to as an argument.
\<close>

section \<open>Deletion marks\<close>

definition marked :: "ctx \<Rightarrow> skey \<Rightarrow> bool" where
  "marked ctx k \<longleftrightarrow> key_ok k \<and> s_del k (hd (ctx_stack ctx))"

definition deleted :: "ctx \<Rightarrow> address \<Rightarrow> bool" where
  "deleted ctx a \<longleftrightarrow> DeletedAccountMap (hd (ctx_stack ctx)) a \<noteq> None"

text \<open>A computation that keeps the deletion marks of the top snapshot.\<close>

definition keeps_marks :: "'a cm \<Rightarrow> bool" where
  "keeps_marks m \<longleftrightarrow> (\<forall>ctx. ctx_wf ctx \<longrightarrow> marked (snd (m ctx)) = marked ctx \<and> deleted (snd (m ctx)) = deleted ctx)"

definition same_marks :: "ctx_data \<Rightarrow> 'a \<times> ctx_data list \<times> cache \<Rightarrow> bool" where
  "same_marks d out \<longleftrightarrow> (case out of (_, st, _) \<Rightarrow>
     DeletedAccountDataMap (hd st) = DeletedAccountDataMap d \<and> DeletedProcessDataMap (hd st) = DeletedProcessDataMap d
     \<and> DeletedAccountMap (hd st) = DeletedAccountMap d)"

lemma keeps_marks_on_stack:
  assumes "\<And>ld d ps cc. same_marks d (f ld (d # ps) cc)"
  shows "keeps_marks (on_stack f)"
  unfolding keeps_marks_def
proof (intro allI impI)
  fix ctx assume "ctx_wf ctx"
  then obtain d ps where st: "ctx_stack ctx = d # ps" by (rule ctx_wfE)
  obtain r st' cc' where r: "f (ctx_loader ctx) (d # ps) (ctx_cache ctx) = (r, st', cc')" by (cases "f (ctx_loader ctx) (d # ps) (ctx_cache ctx)")
  have same: "same_marks d (r, st', cc')" using assms [of d "ctx_loader ctx" ps "ctx_cache ctx"] r by simp
  then have "s_del k (hd st') = s_del k d" for k by (cases k) (auto simp: same_marks_def)
  then show "marked (snd (on_stack f ctx)) = marked ctx \<and> deleted (snd (on_stack f ctx)) = deleted ctx"
    using same st r by (simp add: fun_eq_iff marked_def deleted_def on_stack_def same_marks_def)
qed

lemma keeps_marks_on_stack_res: "keeps_marks (on_stack f) \<Longrightarrow> keeps_marks (on_stack_res f)"
  by (simp add: keeps_marks_def on_stack_res_def ctx_simps split: sum.splits)

lemma dirty_marks [ctx_simps]: "marked (dirty ctx) = marked ctx" "deleted (dirty ctx) = deleted ctx"
  by (simp_all add: fun_eq_iff marked_def deleted_def dirty_def)

lemma keeps_marks_dirty: "keeps_marks m \<Longrightarrow> keeps_marks (\<lambda>ctx. m (dirty ctx))"
  by (simp add: keeps_marks_def ctx_simps)

lemma same_marks_reads:
  "same_marks d (ctd_Seq ld a (d # ps) cc)" "same_marks d (ctd_Account ld a (d # ps) cc)"
  "same_marks d (ctd_AddressByName ld n (d # ps) cc)" "same_marks d (ctd_AccountData ld a pid name (d # ps) cc)"
  "same_marks d (ctd_ProcessData ld pid name (d # ps) cc)"
  by (auto simp: same_marks_def ctd_Seq.simps ctd_Account.simps ctd_AddressByName.simps ctd_AccountData.simps
      ctd_ProcessData.simps Let_def split: option.splits prod.splits sum.splits)

lemma keeps_marks_reads:
  "keeps_marks (ctx_Seq a)" "keeps_marks (ctx_Account a)" "keeps_marks (ctx_AddressByName n)"
  "keeps_marks (ctx_HasAccount a)" "keeps_marks (ctx_HasAccountName n)"
  "keeps_marks (ctx_AccountData a pid name)" "keeps_marks (ctx_ProcessData pid name)"
  unfolding ctx_Seq_def ctx_Account_def [abs_def] ctx_AddressByName_def ctx_HasAccount_def ctx_HasAccountName_def
    ctx_AccountData_def ctx_ProcessData_def
  by (intro keeps_marks_dirty keeps_marks_on_stack_res keeps_marks_on_stack same_marks_reads; simp add: same_marks_def)+

lemma keeps_marksD:
  assumes "keeps_marks m" "ctx_wf ctx"
  shows "marked (snd (m ctx)) = marked ctx" "deleted (snd (m ctx)) = deleted ctx"
  using assms by (simp_all add: keeps_marks_def)

lemmas marks_read_simps [ctx_simps] =
  keeps_marksD [OF keeps_marks_reads(1)] keeps_marksD [OF keeps_marks_reads(2)] keeps_marksD [OF keeps_marks_reads(3)]
  keeps_marksD [OF keeps_marks_reads(4)] keeps_marksD [OF keeps_marks_reads(5)] keeps_marksD [OF keeps_marks_reads(6)]
  keeps_marksD [OF keeps_marks_reads(7)]

text \<open>Writing a value clears the mark of its key, writing an empty value sets it.\<close>

lemma s_del_SetAccountData:
  assumes "key_ok k" "is_address a"
  shows "s_del k (ctd_SetAccountData a p n v d) = (if k = AKey a p n then v = [] else s_del k d)"
  using assms by (cases k) (auto simp: ctd_SetAccountData_def Let_def is_address_def account_key_inject)

lemma s_del_SetProcessData:
  "s_del k (ctd_SetProcessData p n v d) = (if k = PKey p n then v = [] else s_del k d)"
  by (cases k) (auto simp: ctd_SetProcessData_def Let_def process_key_inject)

lemma hd_on_top: "ctx_wf ctx \<Longrightarrow> hd (ctx_stack (snd (on_top f ctx))) = f (hd (ctx_stack ctx))"
  by (erule ctx_wfE) (simp add: on_top_def on_stack_def)

lemma hd_dirty: "ctx_stack (dirty ctx) = ctx_stack ctx"
  by (simp add: dirty_def)

lemma Set_marks_other:
  "DeletedAccountMap (ctd_SetAccountData a p n v d) = DeletedAccountMap d"
  "DeletedAccountMap (ctd_SetProcessData p n v d) = DeletedAccountMap d"
  "DeletedAccountMap (ctd_EmitEvent e d) = DeletedAccountMap d"
  "s_del k (d\<lparr>AccountMap := m\<rparr>) = s_del k d" "s_del k (ctd_EmitEvent e d) = s_del k d" "s_del k (d\<lparr>isTop := b\<rparr>) = s_del k d"
  by (simp_all add: ctd_SetAccountData_def ctd_SetProcessData_def ctd_EmitEvent_def Let_def) (cases k; simp)+

lemma marks_write_simps [ctx_simps]:
  assumes "ctx_wf ctx"
  shows "is_address a \<Longrightarrow> marked (snd (ctx_SetAccountData a p n v ctx)) = (marked ctx)(AKey a p n := v = [])"
    "marked (snd (ctx_SetProcessData p n v ctx)) = (marked ctx)(PKey p n := v = [])"
    "deleted (snd (ctx_SetAccountData a p n v ctx)) = deleted ctx"
    "deleted (snd (ctx_SetProcessData p n v ctx)) = deleted ctx"
    "marked (snd (ctx_UpdateAccount acc ctx)) = marked ctx" "deleted (snd (ctx_UpdateAccount acc ctx)) = deleted ctx"
    "marked (snd (ctx_EmitEvent e ctx)) = marked ctx" "deleted (snd (ctx_EmitEvent e ctx)) = deleted ctx"
  using assms
  by (auto simp: fun_eq_iff marked_def deleted_def ctx_SetAccountData_def ctx_SetProcessData_def ctx_UpdateAccount_def
      ctx_EmitEvent_def hd_on_top hd_dirty dirty_simps s_del_SetAccountData s_del_SetProcessData Set_marks_other
      simp del: s_del.simps)

lemma marks_Snapshot [ctx_simps]:
  assumes "ctx_wf ctx"
  shows "marked (snd (ctx_Snapshot ctx)) = (\<lambda>_. False)" "deleted (snd (ctx_Snapshot ctx)) = (\<lambda>_. False)"
proof -
  have "\<not> s_del k (NewContextData p)" for k p by (cases k) (simp_all add: NewContextData_def)
  moreover have "DeletedAccountMap (NewContextData p) = Map.empty" for p by (simp add: NewContextData_def)
  ultimately show "marked (snd (ctx_Snapshot ctx)) = (\<lambda>_. False)" "deleted (snd (ctx_Snapshot ctx)) = (\<lambda>_. False)"
    using assms by (auto simp: fun_eq_iff marked_def deleted_def ctx_Snapshot_def Let_def elim!: ctx_wfE)
qed

section \<open>Running a function in a snapshot\<close>

text \<open>
  The bracket the processes use: take a snapshot, run a function, revert on an error and commit otherwise.
  After a panic the node stops, and the state returned with it is of no interest.
\<close>

definition in_snapshot :: "unit cm \<Rightarrow> unit cm" where
  "in_snapshot fn = cbind ctx_Snapshot (\<lambda>sn ctx.
     case fn ctx of
       (Inl err, ctx') \<Rightarrow> cbind (ctx_Revert sn) (\<lambda>_. cfail err) ctx'
     | (Inr _, ctx') \<Rightarrow> ctx_Commit sn ctx')"

text \<open>What a commit onto the present top snapshot makes of the state of the committed one.\<close>

definition commit_view :: "ctx \<Rightarrow> absctx \<Rightarrow> absctx" where
  "commit_view ctx = commit_abs (hd (ctx_stack ctx))"

lemma commit_view_data [ctx_simps]:
  "a_data (commit_view ctx s) k = (if marked ctx k then [] else a_data s k)"
  by (auto simp: commit_view_def commit_abs_def marked_def)

lemma commit_view_acc [ctx_simps]:
  "a_acc (commit_view ctx s) a = (if deleted ctx a then Inl ErrDeletedAccount else a_acc s a)"
  "a_seq (commit_view ctx s) a = (if deleted ctx a then 0 else a_seq s a)"
  "a_name (commit_view ctx s) = a_name s" "a_events (commit_view ctx s) = a_events s"
  by (auto simp: commit_view_def commit_abs_def deleted_def)

lemma commit_abs_isTop: "commit_abs (d\<lparr>isTop := b\<rparr>) s = commit_abs d s"
  by (simp add: commit_abs_def Set_marks_other)

lemma s_del_commit_merge: "s_del k (commit_merge d p) \<longleftrightarrow> s_del k p \<or> s_del k d"
  by (cases k) (auto simp: commit_merge_def map_add_def split: option.splits)

lemma in_snapshot_simps:
  assumes wf: "ctx_wf ctx" and fn: "keeps fn"
  defines "ctx1 \<equiv> snd (ctx_Snapshot ctx)"
  shows "fst (in_snapshot fn ctx) = fst (fn ctx1)"
    "absc (snd (in_snapshot fn ctx)) = (case fst (fn ctx1) of Inl _ \<Rightarrow> absc ctx | Inr _ \<Rightarrow> commit_view ctx (absc (snd (fn ctx1))))"
    "marked (snd (in_snapshot fn ctx)) =
       (case fst (fn ctx1) of Inl _ \<Rightarrow> marked ctx | Inr _ \<Rightarrow> (\<lambda>k. marked ctx k \<or> marked (snd (fn ctx1)) k))"
    "deleted (snd (in_snapshot fn ctx)) =
       (case fst (fn ctx1) of Inl _ \<Rightarrow> deleted ctx | Inr _ \<Rightarrow> (\<lambda>a. deleted ctx a \<or> deleted (snd (fn ctx1)) a))"
    "ctx_wf (snd (in_snapshot fn ctx))" "ctx_env (snd (in_snapshot fn ctx)) = ctx_env ctx"
    "ctx_parents (snd (in_snapshot fn ctx)) = ctx_parents ctx" "absp (snd (in_snapshot fn ctx)) = absp ctx"
proof -
  define sn where "sn = ctx_sn ctx + 1"
  note run = snapshot_run [OF wf keeps_bracketed [OF fn]]
  obtain d ps where st: "ctx_stack ctx = d # ps" using wf by (rule ctx_wfE)
  have s1: "ctx_wf (snd (fn ctx1))" "ctx_parents (snd (fn ctx1)) = d\<lparr>isTop := False\<rparr> # ctx_parents ctx"
    "sn = ctx_sn (snd (fn ctx1))" "absp (snd (fn ctx1)) = absc ctx # absp ctx" "ctx_env (snd (fn ctx1)) = ctx_env ctx"
    using run st by (simp_all add: ctx1_def sn_def)
  note rv = Revert_simps [OF s1(1-3)] and cm = Commit_simps [OF s1(1-3)]
  have open_bracket: "in_snapshot fn ctx =
      (case fst (fn ctx1) of Inl err \<Rightarrow> (Inl err, snd (ctx_Revert sn (snd (fn ctx1))))
       | Inr _ \<Rightarrow> ctx_Commit sn (snd (fn ctx1)))"
    using Snapshot_simps(1) [OF wf] rv(1)
    by (auto simp: in_snapshot_def cbind_def cfail_def ctx1_def sn_def split: prod.splits sum.splits)
  have mr: "marked (snd (ctx_Revert sn (snd (fn ctx1)))) = marked ctx"
    "deleted (snd (ctx_Revert sn (snd (fn ctx1)))) = deleted ctx"
    by (simp_all add: fun_eq_iff marked_def deleted_def rv(6) st Set_marks_other)
  obtain d2 where st2: "ctx_stack (snd (fn ctx1)) = d2 # d\<lparr>isTop := False\<rparr> # ctx_parents ctx"
    using ctx_stack_parents [OF s1(1)] s1(2) by metis
  have "commit_loop sn (ctx_stack (snd (fn ctx1))) = Inr (commit_merge d2 (d\<lparr>isTop := False\<rparr>) # ctx_parents ctx)"
    by (cases "ctx_parents ctx") (simp_all add: st2 ctx_sn_def sn_def)
  then have top: "hd (ctx_stack (snd (ctx_Commit sn (snd (fn ctx1))))) = (commit_merge d2 (d\<lparr>isTop := False\<rparr>))\<lparr>isTop := True\<rparr>"
    by (simp add: ctx_Commit_def)
  have mc: "marked (snd (ctx_Commit sn (snd (fn ctx1)))) = (\<lambda>k. marked ctx k \<or> marked (snd (fn ctx1)) k)"
    "deleted (snd (ctx_Commit sn (snd (fn ctx1)))) = (\<lambda>a. deleted ctx a \<or> deleted (snd (fn ctx1)) a)"
    by (auto simp: fun_eq_iff marked_def deleted_def top st2 st Set_marks_other s_del_commit_merge)
      (auto simp: commit_merge_def map_add_def split: option.splits)
  show "fst (in_snapshot fn ctx) = fst (fn ctx1)" using cm(1) by (simp add: open_bracket split: sum.splits)
  show "absc (snd (in_snapshot fn ctx)) = (case fst (fn ctx1) of Inl _ \<Rightarrow> absc ctx | Inr _ \<Rightarrow> commit_view ctx (absc (snd (fn ctx1))))"
    "marked (snd (in_snapshot fn ctx)) =
       (case fst (fn ctx1) of Inl _ \<Rightarrow> marked ctx | Inr _ \<Rightarrow> (\<lambda>k. marked ctx k \<or> marked (snd (fn ctx1)) k))"
    "deleted (snd (in_snapshot fn ctx)) =
       (case fst (fn ctx1) of Inl _ \<Rightarrow> deleted ctx | Inr _ \<Rightarrow> (\<lambda>a. deleted ctx a \<or> deleted (snd (fn ctx1)) a))"
    using rv(2) cm(2) s1(4) by (simp_all add: open_bracket commit_view_def st commit_abs_isTop mr mc split: sum.splits)
  show "ctx_wf (snd (in_snapshot fn ctx))" "ctx_env (snd (in_snapshot fn ctx)) = ctx_env ctx"
    "ctx_parents (snd (in_snapshot fn ctx)) = ctx_parents ctx" "absp (snd (in_snapshot fn ctx)) = absp ctx"
    using rv cm s1 by (simp_all add: open_bracket split: sum.splits)
qed

lemma keeps_in_snapshot [keeps_intros]: "keeps fn \<Longrightarrow> keeps (in_snapshot fn)"
  unfolding keeps_def [of "in_snapshot fn"] by (simp add: in_snapshot_simps)

section \<open>Context wrapper\<close>

abbreviation ctw_AccountData :: "u8 \<Rightarrow> address \<Rightarrow> bytes \<Rightarrow> bytes cm" where
  "ctw_AccountData pid addr name \<equiv> ctx_AccountData addr pid name"

abbreviation ctw_SetAccountData :: "u8 \<Rightarrow> address \<Rightarrow> bytes \<Rightarrow> bytes \<Rightarrow> unit cm" where
  "ctw_SetAccountData pid addr name value \<equiv> ctx_SetAccountData addr pid name value"

abbreviation ctw_ProcessData :: "u8 \<Rightarrow> bytes \<Rightarrow> bytes cm" where
  "ctw_ProcessData pid name \<equiv> ctx_ProcessData pid name"

abbreviation ctw_SetProcessData :: "u8 \<Rightarrow> bytes \<Rightarrow> bytes \<Rightarrow> unit cm" where
  "ctw_SetProcessData pid name value \<equiv> ctx_SetProcessData pid name value"

definition ctx_TargetHeight :: "u32 cm" where
  "ctx_TargetHeight ctx = (Inr (genTargetHeight ctx), ctx)"

lemma TargetHeight_simps [ctx_simps]:
  "fst (ctx_TargetHeight ctx) = Inr (genTargetHeight ctx)" "snd (ctx_TargetHeight ctx) = ctx"
  by (simp_all add: ctx_TargetHeight_def)

lemma keeps_TargetHeight [keeps_intros]: "keeps ctx_TargetHeight"
  by (simp add: keeps_def ctx_TargetHeight_def)

lemma genTargetHeight_env: "ctx_env ctx' = ctx_env ctx \<Longrightarrow> genTargetHeight ctx' = genTargetHeight ctx"
  by (simp add: ctx_env_def)

text \<open>A result computed without the context.\<close>

definition clift :: "'a res \<Rightarrow> 'a cm" where "clift r ctx = (r, ctx)"

lemma clift_simps [ctx_simps]: "fst (clift r ctx) = r" "snd (clift r ctx) = ctx"
  by (simp_all add: clift_def)

lemma keeps_clift [keeps_intros]: "keeps (clift r)"
  by (simp add: keeps_def clift_def)

text \<open>A guard: fail with \<open>err\<close> if \<open>b\<close> holds.\<close>

definition cguard :: "bool \<Rightarrow> error \<Rightarrow> unit cm" where
  "cguard b err = (if b then cfail err else cret ())"

lemma cguard_simps [ctx_simps]: "fst (cguard b e ctx) = (if b then Inl e else Inr ())" "snd (cguard b e ctx) = ctx"
  by (simp_all add: cguard_def ctx_simps)

lemma keeps_cguard [keeps_intros]: "keeps (cguard b e)"
  unfolding cguard_def by (intro keeps_intros)

section \<open>Account names\<close>

definition name_char :: "char \<Rightarrow> bool" where
  "name_char c \<longleftrightarrow> (let n = of_char c :: nat in
     (48 \<le> n \<and> n \<le> 57) \<or> (97 \<le> n \<and> n \<le> 122) \<or> (65 \<le> n \<and> n \<le> 90)
     \<or> c = CHR ''.'' \<or> c = CHR ''-'' \<or> c = CHR ''_'' \<or> c = CHR ''@'')"

definition IsAllowedAccountName :: "(string \<Rightarrow> bytes res) \<Rightarrow> string \<Rightarrow> bool" where
  "IsAllowedAccountName dec Name \<longleftrightarrow>
     8 \<le> length Name \<and> length Name \<le> 40
     \<and> (case ParseAddress dec Name of Inl _ \<Rightarrow> True | Inr _ \<Rightarrow> False)
     \<and> list_all name_char Name"

section \<open>Admin process\<close>

definition tagAdminAddress :: bytes where "tagAdminAddress = [1, 1]"

definition toAdminAddressKey :: "string \<Rightarrow> bytes" where
  "toAdminAddressKey Name = tagAdminAddress @ map of_char Name"

text \<open>\<open>addrMap\<close> is a Go map: the list gives its entries in the order the loop visits them.\<close>

fun InitAdmin :: "u8 \<Rightarrow> (string \<times> address) list \<Rightarrow> unit cm" where
  "InitAdmin pid [] = cret ()"
| "InitAdmin pid ((name, adminAddr) # addrMap) =
     cbind (ctw_SetProcessData pid (toAdminAddressKey name) adminAddr) (\<lambda>_. InitAdmin pid addrMap)"

definition AdminAddress :: "u8 \<Rightarrow> string \<Rightarrow> address cm" where
  "AdminAddress pid name =
     cbind (ctw_ProcessData pid (toAdminAddressKey name)) (\<lambda>bs.
       if length bs = 0 then cfail Panic else cret (go_copy (replicate AddressSize 0) bs))"

definition admin_view :: "u8 \<Rightarrow> absctx \<Rightarrow> string \<Rightarrow> address res" where
  "admin_view pid s name = (let bs = a_data s (PKey pid (toAdminAddressKey name)) in
     if bs = [] then Inl Panic else Inr (go_copy (replicate AddressSize 0) bs))"

lemma AdminAddress_pure: "ctx_wf ctx \<Longrightarrow> pure (AdminAddress pid name) ctx (admin_view pid (absc ctx) name)"
  by (simp add: pure_def AdminAddress_def admin_view_def Let_def ctx_simps)

lemmas AdminAddress_simps [ctx_simps] = pureD [OF AdminAddress_pure]

lemma keeps_AdminAddress [keeps_intros]: "keeps (AdminAddress pid name)"
  unfolding AdminAddress_def by (intro keeps_intros)

lemma of_char_byte_inj: "inj (of_char :: char \<Rightarrow> byte)"
proof (rule injI)
  fix c d :: char assume "(of_char c :: byte) = of_char d"
  then have "unat (of_char c :: byte) = unat (of_char d :: byte)" by simp
  moreover have "unat (of_char x :: byte) = of_char x" for x :: char
  proof -
    have "(of_char x :: byte) = word_of_nat (of_char x)" by (rule of_nat_of_char [symmetric])
    moreover have "of_char x < (256 :: nat)" by simp
    ultimately show ?thesis by (simp add: unat_of_nat)
  qed
  ultimately have "(of_char c :: nat) = of_char d" by simp
  then show "c = d" by simp
qed

lemma toAdminAddressKey_inject [simp]: "toAdminAddressKey n = toAdminAddressKey n' \<longleftrightarrow> n = n'"
  using map_injective [OF _ of_char_byte_inj] by (auto simp: toAdminAddressKey_def)

section \<open>Creating accounts changes no data\<close>

lemma CreateAccount_data:
  assumes "ctx_wf ctx"
  shows "a_data (absc (snd (ctx_CreateAccount dec acc ctx))) = a_data (absc ctx)"
proof -
  obtain d ps where st: "ctx_stack ctx = d # ps" using assms by (rule ctx_wfE)
  have "a_data (abs_of ld (d\<lparr>AccountMap := m, AccountNameMap := n\<rparr> # ps) cc) = a_data (abs_of ld (d # ps) cc)" for ld m n cc
    by (simp add: abs_of_def fun_eq_iff v_data_def f_data_other)
  then show ?thesis
    using st by (auto simp: ctx_CreateAccount_def on_stack_res_def on_stack_def cbind_def dirty_def absc_def ctd_CreateAccount_def
        Let_def bind_res_Inr_iff split: sum.splits if_splits)
qed

section \<open>Existence of accounts is not touched by data\<close>

definition has_view :: "ctx \<Rightarrow> address \<Rightarrow> bool res" where
  "has_view ctx a = ctd_HasAccount (ctx_loader ctx) a (ctx_stack ctx) (ctx_cache ctx)"

definition acc_part :: "ctx_data \<Rightarrow> (address \<rightharpoonup> account) \<times> (address \<rightharpoonup> account)" where
  "acc_part d = (DeletedAccountMap d, AccountMap d)"

lemma HasAccount_acc_part:
  "map acc_part st = map acc_part st' \<Longrightarrow> cc_AccountMap cc = cc_AccountMap cc' \<Longrightarrow>
   ctd_HasAccount ld a st cc = ctd_HasAccount ld a st' cc'"
proof (induction st arbitrary: st')
  case Nil
  then show ?case by (simp add: ctd_HasAccount.simps cc_HasAccount_def)
next
  case (Cons d st)
  then obtain d' ds where "st' = d' # ds" by (cases st') auto
  then show ?case using Cons by (simp add: ctd_HasAccount.simps acc_part_def)
qed

lemma data_reads_acc_part:
  "ctd_AccountData ld a pid name st cc = (v, st', cc') \<Longrightarrow> map acc_part st' = map acc_part st \<and> cc_AccountMap cc' = cc_AccountMap cc"
  "ctd_ProcessData ld pid name st cc = (v, st', cc') \<Longrightarrow> map acc_part st' = map acc_part st \<and> cc_AccountMap cc' = cc_AccountMap cc"
proof -
  show "ctd_AccountData ld a pid name st cc = (v, st', cc') \<Longrightarrow> map acc_part st' = map acc_part st \<and> cc_AccountMap cc' = cc_AccountMap cc"
  proof (induction st arbitrary: v st' cc')
    case Nil
    then show ?case by (auto simp: ctd_AccountData.simps cc_AccountData_def Let_def split: option.splits)
  next
    case (Cons d st)
    obtain w st2 cc2 where r: "ctd_AccountData ld a pid name st cc = (w, st2, cc2)" by (cases "ctd_AccountData ld a pid name st cc")
    show ?case
      using Cons.prems Cons.IH [OF r] r
      by (auto simp: ctd_AccountData.simps acc_part_def Let_def split: if_splits option.splits)
  qed
  show "ctd_ProcessData ld pid name st cc = (v, st', cc') \<Longrightarrow> map acc_part st' = map acc_part st \<and> cc_AccountMap cc' = cc_AccountMap cc"
  proof (induction st arbitrary: v st' cc')
    case Nil
    then show ?case by (auto simp: ctd_ProcessData.simps cc_ProcessData_def Let_def split: option.splits)
  next
    case (Cons d st)
    obtain w st2 cc2 where r: "ctd_ProcessData ld pid name st cc = (w, st2, cc2)" by (cases "ctd_ProcessData ld pid name st cc")
    show ?case
      using Cons.prems Cons.IH [OF r] r
      by (auto simp: ctd_ProcessData.simps acc_part_def Let_def split: if_splits option.splits)
  qed
qed

lemma has_view_on_stack:
  assumes "\<And>ld st cc v st' cc'. f ld st cc = (v, st', cc') \<Longrightarrow> st \<noteq> [] \<Longrightarrow> map acc_part st' = map acc_part st \<and> cc_AccountMap cc' = cc_AccountMap cc"
  shows "has_view (snd (on_stack f ctx)) = has_view ctx"
proof (cases "ctx_stack ctx = []")
  case True
  then show ?thesis by (simp add: on_stack_def)
next
  case False
  obtain v st' cc' where r: "f (ctx_loader ctx) (ctx_stack ctx) (ctx_cache ctx) = (v, st', cc')"
    by (cases "f (ctx_loader ctx) (ctx_stack ctx) (ctx_cache ctx)")
  show ?thesis
    using assms [OF r False] False r HasAccount_acc_part by (simp add: fun_eq_iff has_view_def on_stack_def)
qed

lemma has_view_dirty [ctx_simps]: "has_view (dirty ctx) = has_view ctx"
  by (simp add: fun_eq_iff has_view_def dirty_def)

lemma has_view_simps [ctx_simps]:
  "has_view (snd (ctx_AccountData a pid name ctx)) = has_view ctx"
  "has_view (snd (ctx_ProcessData pid name ctx)) = has_view ctx"
  "has_view (snd (ctx_SetAccountData a pid name v ctx)) = has_view ctx"
  "has_view (snd (ctx_SetProcessData pid name v ctx)) = has_view ctx"
proof -
  have top: "has_view (snd (on_top f ctx)) = has_view ctx" if "\<And>d. acc_part (f d) = acc_part d" for f ctx
    unfolding on_top_def
  proof (rule has_view_on_stack)
    fix ld and st st' :: "ctx_data list" and cc cc' :: cache and v
    assume "((), f (hd st) # tl st, cc) = (v, st', cc')" "st \<noteq> []"
    then show "map acc_part st' = map acc_part st \<and> cc_AccountMap cc' = cc_AccountMap cc"
      by (cases st) (auto simp: that)
  qed
  show "has_view (snd (ctx_AccountData a pid name ctx)) = has_view ctx"
    unfolding ctx_AccountData_def by (rule has_view_on_stack) (rule data_reads_acc_part)
  show "has_view (snd (ctx_ProcessData pid name ctx)) = has_view ctx"
    unfolding ctx_ProcessData_def by (rule has_view_on_stack) (rule data_reads_acc_part)
  show "has_view (snd (ctx_SetAccountData a pid name v ctx)) = has_view ctx"
    unfolding ctx_SetAccountData_def by (simp add: top ctx_simps acc_part_def ctd_SetAccountData_def Let_def)
  show "has_view (snd (ctx_SetProcessData pid name v ctx)) = has_view ctx"
    unfolding ctx_SetProcessData_def by (simp add: top acc_part_def ctd_SetProcessData_def Let_def)
qed

lemma HasAccount_simps:
  assumes "ctx_wf ctx"
  shows "ctx_HasAccount a ctx = (has_view ctx a, ctx)"
  using assms by (auto simp: ctx_HasAccount_def on_stack_res_def on_stack_def cbind_def has_view_def split: sum.splits elim!: ctx_wfE)

section \<open>Proof rules for code on a context\<close>

text \<open>
  \<open>post m ctx Q\<close>: running \<open>m\<close> on \<open>ctx\<close> ends with a result and a context that satisfy \<open>Q\<close>. The rules name the
  context after each operation and record by \<open>after\<close> what is known of it, so that the proof of a long
  handler stays linear in its length.
\<close>

definition post :: "'a cm \<Rightarrow> ctx \<Rightarrow> ('a res \<Rightarrow> ctx \<Rightarrow> bool) \<Rightarrow> bool" where
  "post m ctx Q \<longleftrightarrow> Q (fst (m ctx)) (snd (m ctx))"

definition after :: "ctx \<Rightarrow> absctx \<Rightarrow> (skey \<Rightarrow> bool) \<Rightarrow> ctx \<Rightarrow> bool" where
  "after ctx s M c \<longleftrightarrow> ctx_wf c \<and> absc c = s \<and> marked c = M \<and> deleted c = deleted ctx \<and> has_view c = has_view ctx
     \<and> ctx_env c = ctx_env ctx \<and> ctx_parents c = ctx_parents ctx \<and> absp c = absp ctx"

named_theorems post_intros

lemma postD: "post m ctx Q \<Longrightarrow> Q (fst (m ctx)) (snd (m ctx))"
  by (simp add: post_def)

lemma post_mono: "post m ctx P \<Longrightarrow> (\<And>r c. P r c \<Longrightarrow> Q r c) \<Longrightarrow> post m ctx Q"
  by (simp add: post_def)

lemma post_basic [post_intros]:
  "Q (Inr x) ctx \<Longrightarrow> post (cret x) ctx Q" "Q (Inl e) ctx \<Longrightarrow> post (cfail e) ctx Q" "Q r ctx \<Longrightarrow> post (clift r) ctx Q"
  "(b \<Longrightarrow> post m ctx Q) \<Longrightarrow> (\<not> b \<Longrightarrow> post n ctx Q) \<Longrightarrow> post (if b then m else n) ctx Q"
  by (simp_all add: post_def ctx_simps)

lemma post_bind_basic [post_intros]:
  "post (f x) ctx Q \<Longrightarrow> post (cbind (cret x) f) ctx Q" "Q (Inl e) ctx \<Longrightarrow> post (cbind (cfail e) f) ctx Q"
  "post (cbind l (\<lambda>x. cbind (g x) f)) ctx Q \<Longrightarrow> post (cbind (cbind l g) f) ctx Q"
  "(b \<Longrightarrow> post (cbind m f) ctx Q) \<Longrightarrow> (\<not> b \<Longrightarrow> post (cbind n f) ctx Q) \<Longrightarrow> post (cbind (if b then m else n) f) ctx Q"
  "(\<And>e. r = Inl e \<Longrightarrow> Q (Inl e) ctx) \<Longrightarrow> (\<And>x. r = Inr x \<Longrightarrow> post (f x) ctx Q) \<Longrightarrow> post (cbind (clift r) f) ctx Q"
  "(b \<Longrightarrow> Q (Inl e) ctx) \<Longrightarrow> (\<not> b \<Longrightarrow> post (h ()) ctx Q) \<Longrightarrow> post (cbind (cguard b e) h) ctx Q"
  "post (k (genTargetHeight ctx)) ctx Q \<Longrightarrow> post (cbind ctx_TargetHeight k) ctx Q"
  by (auto simp: post_def ctx_simps split: sum.splits prod.splits)

text \<open>An operation whose result is known and that leaves \<open>s\<close> and \<open>M\<close>.\<close>

lemma post_bindI:
  assumes "fst (m ctx) = Inr x" "after ctx s M (snd (m ctx))" "\<And>c. after ctx s M c \<Longrightarrow> post (f x) c Q"
  shows "post (cbind m f) ctx Q"
  using assms(1) assms(3) [OF assms(2)] by (simp add: post_def ctx_simps)

lemma post_lastI:
  assumes "fst (m ctx) = r" "after ctx s M (snd (m ctx))" "\<And>c. after ctx s M c \<Longrightarrow> Q r c"
  shows "post m ctx Q"
  using assms(1) assms(3) [OF assms(2)] by (simp add: post_def)

lemma after_data_ops:
  assumes "ctx_wf ctx"
  shows "is_address a \<Longrightarrow> after ctx (absc ctx) (marked ctx) (snd (ctx_AccountData a pid name ctx))"
    "after ctx (absc ctx) (marked ctx) (snd (ctx_ProcessData pid name ctx))"
    "is_address a \<Longrightarrow> after ctx (set_data (AKey a pid name) v (absc ctx)) ((marked ctx)(AKey a pid name := v = []))
       (snd (ctx_SetAccountData a pid name v ctx))"
    "after ctx (set_data (PKey pid name) v (absc ctx)) ((marked ctx)(PKey pid name := v = []))
       (snd (ctx_SetProcessData pid name v ctx))"
  using assms by (simp_all add: after_def ctx_simps)

lemma post_bind_data [post_intros]:
  "ctx_wf ctx \<Longrightarrow> is_address a \<Longrightarrow> (\<And>c. after ctx (absc ctx) (marked ctx) c \<Longrightarrow> post (f (a_data (absc ctx) (AKey a pid name))) c Q) \<Longrightarrow>
   post (cbind (ctx_AccountData a pid name) f) ctx Q"
  "ctx_wf ctx \<Longrightarrow> (\<And>c. after ctx (absc ctx) (marked ctx) c \<Longrightarrow> post (g (a_data (absc ctx) (PKey pid name))) c Q) \<Longrightarrow>
   post (cbind (ctx_ProcessData pid name) g) ctx Q"
  "ctx_wf ctx \<Longrightarrow> is_address a \<Longrightarrow>
   (\<And>c. after ctx (set_data (AKey a pid name) v (absc ctx)) ((marked ctx)(AKey a pid name := v = [])) c \<Longrightarrow> post (h ()) c Q) \<Longrightarrow>
   post (cbind (ctx_SetAccountData a pid name v) h) ctx Q"
  "ctx_wf ctx \<Longrightarrow>
   (\<And>c. after ctx (set_data (PKey pid name) v (absc ctx)) ((marked ctx)(PKey pid name := v = [])) c \<Longrightarrow> post (h ()) c Q) \<Longrightarrow>
   post (cbind (ctx_SetProcessData pid name v) h) ctx Q"
  by - (rule post_bindI [OF pureD(1) [OF ctx_reads(5)] after_data_ops(1)]
      post_bindI [OF pureD(1) [OF ctx_reads(6)] after_data_ops(2)]
      post_bindI [OF writesD(1) [OF ctx_SetAccountData_writes] after_data_ops(3)]
      post_bindI [OF writesD(1) [OF ctx_SetProcessData_writes] after_data_ops(4)];
      assumption | simp)+

lemma post_data [post_intros]:
  "ctx_wf ctx \<Longrightarrow> is_address a \<Longrightarrow> (\<And>c. after ctx (absc ctx) (marked ctx) c \<Longrightarrow> Q1 (Inr (a_data (absc ctx) (AKey a pid name))) c) \<Longrightarrow>
   post (ctx_AccountData a pid name) ctx Q1"
  "ctx_wf ctx \<Longrightarrow> (\<And>c. after ctx (absc ctx) (marked ctx) c \<Longrightarrow> Q1 (Inr (a_data (absc ctx) (PKey pid name))) c) \<Longrightarrow>
   post (ctx_ProcessData pid name) ctx Q1"
  "ctx_wf ctx \<Longrightarrow> is_address a \<Longrightarrow>
   (\<And>c. after ctx (set_data (AKey a pid name) v (absc ctx)) ((marked ctx)(AKey a pid name := v = [])) c \<Longrightarrow> Q (Inr ()) c) \<Longrightarrow>
   post (ctx_SetAccountData a pid name v) ctx Q"
  "ctx_wf ctx \<Longrightarrow>
   (\<And>c. after ctx (set_data (PKey pid name) v (absc ctx)) ((marked ctx)(PKey pid name := v = [])) c \<Longrightarrow> Q (Inr ()) c) \<Longrightarrow>
   post (ctx_SetProcessData pid name v) ctx Q"
  by - (rule post_lastI [OF pureD(1) [OF ctx_reads(5)] after_data_ops(1)]
      post_lastI [OF pureD(1) [OF ctx_reads(6)] after_data_ops(2)]
      post_lastI [OF writesD(1) [OF ctx_SetAccountData_writes] after_data_ops(3)]
      post_lastI [OF writesD(1) [OF ctx_SetProcessData_writes] after_data_ops(4)];
      assumption | simp)+

lemma afterD:
  assumes "after ctx s M c"
  shows "ctx_wf c" "absc c = s" "marked c = M" "deleted c = deleted ctx" "has_view c = has_view ctx"
    "ctx_env c = ctx_env ctx" "ctx_parents c = ctx_parents ctx" "absp c = absp ctx"
  using assms by (simp_all add: after_def)

end
