(* ===== verification/Vault.thy ===== *)
theory Vault
  imports Process_Base "HOL-Library.AList"
begin

text \<open>
  \<open>process/vault\<close>: the process that keeps the balances. Every operation runs on a context and uses the
  data of the vault's pid. \<open>vault\<close> holds what the process is wired to: its pid, the pid of the admin
  process, the base58 decoder of account names and the encoder of the policy (both third-party packages).
\<close>

record vault_policy =
  AccountCreationAmount :: amount

record vault =
  v_pid :: u8
  v_admin :: u8
  v_base58 :: "string \<Rightarrow> bytes res"
  v_Marshal :: "vault_policy option \<Rightarrow> bytes res"
  v_Unmarshal :: "bytes \<Rightarrow> vault_policy option res"

definition vault_Name :: string where "vault_Name = ''fleta.vault''"

section \<open>Keys\<close>

definition tagBalance :: bytes where "tagBalance = [1, 1]"
definition tagLockedBalance :: bytes where "tagLockedBalance = [2, 1]"
definition tagLockedBalanceNumber :: bytes where "tagLockedBalanceNumber = [2, 2]"
definition tagLockedBalanceReverse :: bytes where "tagLockedBalanceReverse = [2, 3]"
definition tagLockedBalanceCount :: bytes where "tagLockedBalanceCount = [2, 4]"
definition tagLockedBalanceSum :: bytes where "tagLockedBalanceSum = [2, 5]"
definition tagCollectedFee :: bytes where "tagCollectedFee = [3, 1]"
definition tagPolicy :: bytes where "tagPolicy = [4, 0]"

lemmas vault_tags = tagBalance_def tagLockedBalance_def tagLockedBalanceNumber_def tagLockedBalanceReverse_def
  tagLockedBalanceCount_def tagLockedBalanceSum_def tagCollectedFee_def tagPolicy_def

definition toLockedBalanceKey :: "u32 \<Rightarrow> address \<Rightarrow> bytes" where
  "toLockedBalanceKey height addr = tagLockedBalance @ be32 height @ addr"

definition toLockedBalanceNumberKey :: "u32 \<Rightarrow> address \<Rightarrow> bytes" where
  "toLockedBalanceNumberKey height addr = tagLockedBalanceNumber @ be32 height @ addr"

definition toLockedBalanceReverseKey :: "u32 \<Rightarrow> u32 \<Rightarrow> bytes" where
  "toLockedBalanceReverseKey height num = tagLockedBalanceReverse @ be32 height @ be32 num"

definition toLockedBalanceCountKey :: "u32 \<Rightarrow> bytes" where
  "toLockedBalanceCountKey height = tagLockedBalanceCount @ be32 height"

section \<open>Balances\<close>

definition Balance :: "vault \<Rightarrow> address \<Rightarrow> amount cm" where
  "Balance p addr = cbind (ctw_AccountData (v_pid p) addr tagBalance) (\<lambda>bs.
     cret (if 0 < length bs then NewAmountFromBytes bs else NewCoinAmount 0 0))"

definition AddBalance :: "vault \<Rightarrow> address \<Rightarrow> amount \<Rightarrow> unit cm" where
  "AddBalance p addr am =
     (let zero = NewCoinAmount 0 0 in
      if amount_Less am zero then cfail ErrMinusInput
      else cbind (Balance p addr) (\<lambda>b. ctw_SetAccountData (v_pid p) addr tagBalance (amount_Bytes (b + am))))"

definition RemoveBalance :: "vault \<Rightarrow> address \<Rightarrow> unit cm" where
  "RemoveBalance p addr = ctw_SetAccountData (v_pid p) addr tagBalance []"

definition SubBalance :: "vault \<Rightarrow> address \<Rightarrow> amount \<Rightarrow> unit cm" where
  "SubBalance p addr am = cbind (Balance p addr) (\<lambda>sum.
     if amount_Less sum am then cfail ErrMinusBalance
     else if amount_IsZero (sum - am) then RemoveBalance p addr
     else ctw_SetAccountData (v_pid p) addr tagBalance (amount_Bytes (sum - am)))"

definition CollectedFee :: "vault \<Rightarrow> amount cm" where
  "CollectedFee p = cbind (ctw_ProcessData (v_pid p) tagCollectedFee) (\<lambda>bs.
     cret (if 0 < length bs then NewAmountFromBytes bs else NewCoinAmount 0 0))"

definition AddCollectedFee :: "vault \<Rightarrow> amount \<Rightarrow> unit cm" where
  "AddCollectedFee p am =
     (let zero = NewCoinAmount 0 0 in
      if amount_Less am zero then cfail ErrMinusInput
      else cbind (CollectedFee p) (\<lambda>f. ctw_SetProcessData (v_pid p) tagCollectedFee (amount_Bytes (f + am))))"

definition SubCollectedFee :: "vault \<Rightarrow> amount \<Rightarrow> unit cm" where
  "SubCollectedFee p am = cbind (CollectedFee p) (\<lambda>total.
     if amount_Less total am then cfail ErrMinusCollectedFee
     else if amount_IsZero (total - am) then ctw_SetProcessData (v_pid p) tagCollectedFee []
     else ctw_SetProcessData (v_pid p) tagCollectedFee (amount_Bytes (total - am)))"

section \<open>Locked balances\<close>

definition LockedBalance :: "vault \<Rightarrow> address \<Rightarrow> u32 \<Rightarrow> amount cm" where
  "LockedBalance p addr UnlockedHeight =
     cbind (ctw_ProcessData (v_pid p) (toLockedBalanceKey UnlockedHeight addr)) (\<lambda>bs.
       cret (if 0 < length bs then NewAmountFromBytes bs else NewCoinAmount 0 0))"

definition TotalLockedBalanceByAddress :: "vault \<Rightarrow> address \<Rightarrow> amount cm" where
  "TotalLockedBalanceByAddress p addr =
     cbind (ctw_AccountData (v_pid p) addr tagLockedBalanceSum) (\<lambda>bs.
       cret (if 0 < length bs then NewAmountFromBytes bs else NewCoinAmount 0 0))"

definition AddLockedBalance :: "vault \<Rightarrow> address \<Rightarrow> u32 \<Rightarrow> amount \<Rightarrow> unit cm" where
  "AddLockedBalance p addr UnlockedHeight am =
     (let zero = NewCoinAmount 0 0 in
      if amount_Less am zero then cfail ErrMinusInput
      else
        cbind (ctw_ProcessData (v_pid p) (toLockedBalanceNumberKey UnlockedHeight addr)) (\<lambda>ns.
        cbind (if length ns = 0 then
                 cbind (ctw_ProcessData (v_pid p) (toLockedBalanceCountKey UnlockedHeight)) (\<lambda>bs.
                 cbind (if 0 < length bs then clift (BytesToUint32 bs) else cret 0) (\<lambda>Count.
                 cbind (ctw_SetProcessData (v_pid p) (toLockedBalanceNumberKey UnlockedHeight addr) (Uint32ToBytes Count)) (\<lambda>_.
                 cbind (ctw_SetProcessData (v_pid p) (toLockedBalanceReverseKey UnlockedHeight Count) addr) (\<lambda>_.
                 ctw_SetProcessData (v_pid p) (toLockedBalanceCountKey UnlockedHeight) (Uint32ToBytes (Count + 1))))))
               else cret ()) (\<lambda>_.
        cbind (LockedBalance p addr UnlockedHeight) (\<lambda>lb.
        cbind (ctw_SetProcessData (v_pid p) (toLockedBalanceKey UnlockedHeight addr) (amount_Bytes (lb + am))) (\<lambda>_.
        cbind (TotalLockedBalanceByAddress p addr) (\<lambda>sum.
        ctw_SetAccountData (v_pid p) addr tagLockedBalanceSum (amount_Bytes (sum + am))))))))"

text \<open>The loop over the numbered entries of a height, and the map it fills.\<close>

fun flush_loop :: "vault \<Rightarrow> u32 \<Rightarrow> u32 list \<Rightarrow> (address \<times> amount) list \<Rightarrow> (address \<times> amount) list cm" where
  "flush_loop p UnlockedHeight [] LockedBalanceMap = cret LockedBalanceMap"
| "flush_loop p UnlockedHeight (i # is) LockedBalanceMap =
     cbind (ctw_ProcessData (v_pid p) (toLockedBalanceReverseKey UnlockedHeight i)) (\<lambda>bs.
     let addr = go_copy (replicate AddressSize 0) bs in
     cbind (LockedBalance p addr UnlockedHeight) (\<lambda>lb.
     cbind (ctw_SetProcessData (v_pid p) (toLockedBalanceKey UnlockedHeight addr) []) (\<lambda>_.
     cbind (ctw_SetProcessData (v_pid p) (toLockedBalanceNumberKey UnlockedHeight addr) []) (\<lambda>_.
     cbind (ctw_SetProcessData (v_pid p) (toLockedBalanceReverseKey UnlockedHeight i) []) (\<lambda>_.
     flush_loop p UnlockedHeight is (AList.update addr lb LockedBalanceMap))))))"

definition flushLockedBalanceMap :: "vault \<Rightarrow> u32 \<Rightarrow> (address \<times> amount) list cm" where
  "flushLockedBalanceMap p UnlockedHeight =
     cbind (ctw_ProcessData (v_pid p) (toLockedBalanceCountKey UnlockedHeight)) (\<lambda>bs.
       if 0 < length bs then
         cbind (clift (BytesToUint32 bs)) (\<lambda>Count.
         cbind (flush_loop p UnlockedHeight (map word_of_nat [0..<unat Count]) []) (\<lambda>m.
         cbind (ctw_SetProcessData (v_pid p) (toLockedBalanceCountKey UnlockedHeight) []) (\<lambda>_.
         cret m)))
       else cret [])"

text \<open>The body of the loop over \<open>LockedBalanceMap\<close>.\<close>

definition unlock_one :: "vault \<Rightarrow> address \<Rightarrow> amount \<Rightarrow> unit cm" where
  "unlock_one p addr am = (\<lambda>ctx.
     case ctx_HasAccount addr ctx of
       (Inl err, ctx1) \<Rightarrow>
         if err = ErrDeletedAccount then ctw_SetAccountData (v_pid p) addr tagLockedBalanceSum [] ctx1
         else (Inl err, ctx1)
     | (Inr has, ctx1) \<Rightarrow>
         if \<not> has then ctw_SetAccountData (v_pid p) addr tagLockedBalanceSum [] ctx1
         else cbind (AddBalance p addr am) (\<lambda>_.
              cbind (TotalLockedBalanceByAddress p addr) (\<lambda>total.
                if \<not> amount_IsZero (total - am) then ctw_SetAccountData (v_pid p) addr tagLockedBalanceSum (amount_Bytes (total - am))
                else ctw_SetAccountData (v_pid p) addr tagLockedBalanceSum [])) ctx1)"

fun unlock_all :: "vault \<Rightarrow> (address \<times> amount) list \<Rightarrow> unit cm" where
  "unlock_all p [] = cret ()"
| "unlock_all p ((addr, am) # LockedBalanceMap) = cbind (unlock_one p addr am) (\<lambda>_. unlock_all p LockedBalanceMap)"

text \<open>
  \<open>range\<close> over a Go map visits the entries in an order the run-time picks: \<open>order\<close> gives it.
\<close>

definition vault_AfterExecuteTransactions ::
    "((address \<times> amount) list \<Rightarrow> (address \<times> amount) list) \<Rightarrow> vault \<Rightarrow> u32 \<Rightarrow> unit cm" where
  "vault_AfterExecuteTransactions order p height =
     cbind (flushLockedBalanceMap p height) (\<lambda>LockedBalanceMap. unlock_all p (order LockedBalanceMap))"

section \<open>Policy\<close>

definition vault_InitPolicy :: "vault \<Rightarrow> vault_policy option \<Rightarrow> unit cm" where
  "vault_InitPolicy p policy = cbind (clift (v_Marshal p policy)) (\<lambda>bs. ctw_SetProcessData (v_pid p) tagPolicy bs)"

text \<open>Reading the policy back: using a nil policy panics.\<close>

definition vault_Policy :: "vault \<Rightarrow> vault_policy cm" where
  "vault_Policy p = cbind (ctw_ProcessData (v_pid p) tagPolicy) (\<lambda>bs.
     cbind (clift (v_Unmarshal p bs)) (\<lambda>policy.
       case policy of None \<Rightarrow> cfail Panic | Some pc \<Rightarrow> cret pc))"

definition vault_OnLoadChain :: "vault \<Rightarrow> unit cm" where
  "vault_OnLoadChain p = cbind (AdminAddress (v_admin p) vault_Name) (\<lambda>_.
     cbind (ctw_ProcessData (v_pid p) tagPolicy) (\<lambda>bs.
       if length bs = 0 then cfail ErrPolicyShouldBeSetupInApplication else cret ()))"

section \<open>Fees\<close>

text \<open>The interface \<open>FeeTransaction\<close>.\<close>

record fee_tx =
  ft_From :: address
  ft_Fee :: "amount res"

definition CheckFeePayableWith :: "vault \<Rightarrow> fee_tx \<Rightarrow> amount option \<Rightarrow> unit cm" where
  "CheckFeePayableWith p tx am =
     cbind (clift (ft_Fee tx)) (\<lambda>fee.
     let total = (case am of Some a \<Rightarrow> a + fee | None \<Rightarrow> fee) in
     cbind (Balance p (ft_From tx)) (\<lambda>b.
       if amount_Less b total then cfail ErrInsufficientFee else cret ()))"

definition CheckFeePayable :: "vault \<Rightarrow> fee_tx \<Rightarrow> unit cm" where
  "CheckFeePayable p tx = CheckFeePayableWith p tx None"

definition WithFee :: "vault \<Rightarrow> fee_tx \<Rightarrow> unit cm \<Rightarrow> unit cm" where
  "WithFee p tx fn =
     cbind (clift (ft_Fee tx)) (\<lambda>fee.
     cbind (SubBalance p (ft_From tx) fee) (\<lambda>_.
     cbind (CollectedFee p) (\<lambda>f.
     cbind (ctw_SetProcessData (v_pid p) tagCollectedFee (amount_Bytes (f + fee))) (\<lambda>_.
     in_snapshot fn))))"

section \<open>Transactions\<close>

text \<open>The checks the transactions repeat: the sequence, and the signers of the sending account.\<close>

definition check_seq :: "u64 \<Rightarrow> address \<Rightarrow> unit cm" where
  "check_seq seq from = cbind (ctx_Seq from) (\<lambda>s. cguard (seq \<le> s) ErrInvalidSequence)"

definition check_signers :: "address \<Rightarrow> public_hash list \<Rightarrow> unit cm" where
  "check_signers from signers = cbind (ctx_Account from) (\<lambda>fromAcc. clift (account_Validate fromAcc signers))"

record transfer =
  tr_Timestamp :: u64
  tr_Seq :: u64
  tr_From :: address
  tr_To :: address
  tr_Amount :: amount

definition transfer_fee :: "transfer \<Rightarrow> fee_tx" where
  "transfer_fee tx = \<lparr>ft_From = tr_From tx, ft_Fee = amount_DivC COIN 10\<rparr>"

definition transfer_Validate :: "vault \<Rightarrow> transfer \<Rightarrow> public_hash list \<Rightarrow> unit cm" where
  "transfer_Validate p tx signers =
     cbind (clift (amount_DivC COIN 10)) (\<lambda>dust.
     cbind (cguard (amount_Less (tr_Amount tx) dust) ErrDustAmount) (\<lambda>_.
     cbind (ctx_HasAccount (tr_To tx)) (\<lambda>has.
     cbind (cguard (\<not> has) ErrNotExistAccount) (\<lambda>_.
     cbind (check_signers (tr_From tx) signers) (\<lambda>_.
     CheckFeePayableWith p (transfer_fee tx) (Some (tr_Amount tx)))))))"

definition transfer_Execute :: "vault \<Rightarrow> transfer \<Rightarrow> u16 \<Rightarrow> unit cm" where
  "transfer_Execute p tx index = WithFee p (transfer_fee tx)
     (cbind (SubBalance p (tr_From tx) (tr_Amount tx)) (\<lambda>_.
      AddBalance p (tr_To tx) (tr_Amount tx)))"

record burn =
  bu_Timestamp :: u64
  bu_Seq :: u64
  bu_From :: address
  bu_Amount :: amount

definition burn_fee :: "burn \<Rightarrow> fee_tx" where
  "burn_fee tx = \<lparr>ft_From = bu_From tx, ft_Fee = amount_DivC COIN 10\<rparr>"

definition burn_Validate :: "vault \<Rightarrow> burn \<Rightarrow> public_hash list \<Rightarrow> unit cm" where
  "burn_Validate p tx signers =
     cbind (check_seq (bu_Seq tx) (bu_From tx)) (\<lambda>_.
     cbind (check_signers (bu_From tx) signers) (\<lambda>_.
     CheckFeePayableWith p (burn_fee tx) (Some (bu_Amount tx))))"

definition burn_Execute :: "vault \<Rightarrow> burn \<Rightarrow> u16 \<Rightarrow> unit cm" where
  "burn_Execute p tx index = WithFee p (burn_fee tx) (SubBalance p (bu_From tx) (bu_Amount tx))"

record create_account =
  ca_Timestamp :: u64
  ca_Seq :: u64
  ca_From :: address
  ca_Name :: string
  ca_KeyHash :: public_hash

definition create_account_fee :: "create_account \<Rightarrow> fee_tx" where
  "create_account_fee tx = \<lparr>ft_From = ca_From tx, ft_Fee = amount_DivC COIN 10\<rparr>"

definition create_account_Validate :: "vault \<Rightarrow> create_account \<Rightarrow> public_hash list \<Rightarrow> unit cm" where
  "create_account_Validate p tx signers =
     cbind (cguard (\<not> IsAllowedAccountName (v_base58 p) (ca_Name tx)) ErrInvalidAccountName) (\<lambda>_.
     cbind (check_seq (ca_Seq tx) (ca_From tx)) (\<lambda>_.
     cbind (ctx_HasAccountName (ca_Name tx)) (\<lambda>has.
     cbind (cguard has ErrExistAccountName) (\<lambda>_.
     cbind (check_signers (ca_From tx) signers) (\<lambda>_.
     cbind (vault_Policy p) (\<lambda>policy.
     CheckFeePayableWith p (create_account_fee tx) (Some (AccountCreationAmount policy))))))))"

definition create_account_Execute :: "vault \<Rightarrow> create_account \<Rightarrow> u16 \<Rightarrow> unit cm" where
  "create_account_Execute p tx index = WithFee p (create_account_fee tx)
     (cbind (vault_Policy p) (\<lambda>policy.
      cbind (SubBalance p (ca_From tx) (AccountCreationAmount policy)) (\<lambda>_.
      cbind (AddCollectedFee p (AccountCreationAmount policy)) (\<lambda>_.
      cbind ctx_TargetHeight (\<lambda>height.
      ctx_CreateAccount (v_base58 p) (SingleAccount (NewAddress height index 0) (ca_Name tx) (ca_KeyHash tx)))))))"

record create_multi_account =
  cm_Timestamp :: u64
  cm_Seq :: u64
  cm_From :: address
  cm_Name :: string
  cm_Requried :: u8
  cm_KeyHashes :: "public_hash list"

definition create_multi_account_fee :: "create_multi_account \<Rightarrow> fee_tx" where
  "create_multi_account_fee tx = \<lparr>ft_From = cm_From tx, ft_Fee = amount_DivC COIN 10\<rparr>"

definition create_multi_account_Validate :: "vault \<Rightarrow> create_multi_account \<Rightarrow> public_hash list \<Rightarrow> unit cm" where
  "create_multi_account_Validate p tx signers =
     cbind (cguard (\<not> IsAllowedAccountName (v_base58 p) (cm_Name tx)) ErrInvalidAccountName) (\<lambda>_.
     cbind (cguard (cm_Requried tx < 1) ErrInvalidRequiredKeyHashCount) (\<lambda>_.
     cbind (cguard (length (cm_KeyHashes tx) \<le> 1 \<or> 10 < length (cm_KeyHashes tx)) ErrInvalidMultiKeyHashCount) (\<lambda>_.
     cbind (cguard (length (remdups (cm_KeyHashes tx)) \<noteq> length (cm_KeyHashes tx)) ErrInvalidMultiKeyHashCount) (\<lambda>_.
     cbind (check_seq (cm_Seq tx) (cm_From tx)) (\<lambda>_.
     cbind (check_signers (cm_From tx) signers) (\<lambda>_.
     CheckFeePayableWith p (create_multi_account_fee tx) (Some (amount_MulC COIN 10))))))))"

definition create_multi_account_Execute :: "vault \<Rightarrow> create_multi_account \<Rightarrow> u16 \<Rightarrow> unit cm" where
  "create_multi_account_Execute p tx index = WithFee p (create_multi_account_fee tx)
     (let CreationCost = amount_MulC COIN 10 in
      cbind (SubBalance p (cm_From tx) CreationCost) (\<lambda>_.
      cbind (AddCollectedFee p CreationCost) (\<lambda>_.
      cbind ctx_TargetHeight (\<lambda>height.
      ctx_CreateAccount (v_base58 p)
        (MultiAccount (NewAddress height index 0) (cm_Name tx) (cm_Requried tx) (cm_KeyHashes tx))))))"

record issue_account =
  ia_Timestamp :: u64
  ia_Seq :: u64
  ia_From :: address
  ia_Name :: string
  ia_KeyHash :: public_hash

definition issue_account_Validate :: "vault \<Rightarrow> issue_account \<Rightarrow> public_hash list \<Rightarrow> unit cm" where
  "issue_account_Validate p tx signers =
     cbind (AdminAddress (v_admin p) vault_Name) (\<lambda>adm.
     cbind (cguard (ia_From tx \<noteq> adm) ErrUnauthorizedTransaction) (\<lambda>_.
     cbind (check_seq (ia_Seq tx) (ia_From tx)) (\<lambda>_.
     cbind (ctx_HasAccountName (ia_Name tx)) (\<lambda>has.
     cbind (cguard has ErrExistAccountName) (\<lambda>_.
     check_signers (ia_From tx) signers)))))"

definition issue_account_Execute :: "vault \<Rightarrow> issue_account \<Rightarrow> u16 \<Rightarrow> unit cm" where
  "issue_account_Execute p tx index =
     cbind ctx_TargetHeight (\<lambda>height.
     ctx_CreateAccount (v_base58 p) (SingleAccount (NewAddress height index 0) (ia_Name tx) (ia_KeyHash tx)))"

record update_policy =
  up_Timestamp :: u64
  up_Seq :: u64
  up_From :: address
  up_Policy :: "vault_policy option"

definition update_policy_Validate :: "vault \<Rightarrow> update_policy \<Rightarrow> public_hash list \<Rightarrow> unit cm" where
  "update_policy_Validate p tx signers =
     cbind (AdminAddress (v_admin p) vault_Name) (\<lambda>adm.
     cbind (cguard (up_From tx \<noteq> adm) ErrUnauthorizedTransaction) (\<lambda>_.
     cbind (cguard (up_Policy tx = None) ErrInvalidPolicy) (\<lambda>_.
     cbind (check_seq (up_Seq tx) (up_From tx)) (\<lambda>_.
     check_signers (up_From tx) signers))))"

definition update_policy_Execute :: "vault \<Rightarrow> update_policy \<Rightarrow> u16 \<Rightarrow> unit cm" where
  "update_policy_Execute p tx index =
     cbind (clift (v_Marshal p (up_Policy tx))) (\<lambda>bs. ctw_SetProcessData (v_pid p) tagPolicy bs)"

end
