(* ===== verification/Vault_Laws.thy ===== *)
theory Vault_Laws
  imports Vault
begin

text \<open>
  The laws of the vault. A stored amount (a balance, the collected fee, and later the staked amounts of the
  formulator process) is a cell of the context's data with an adding and a subtracting operation; the locale
  \<open>amount_cells\<close> states that contract and derives the equations the transactions rest on.
\<close>

section \<open>Cells of amounts\<close>

lemma NewCoinAmount_zero [simp]: "NewCoinAmount 0 0 = 0"
  by (simp add: NewCoinAmount_eq)

lemma amount_bytes_simps [simp]:
  "NewAmountFromBytes [] = 0" "NewAmountFromBytes (amount_Bytes am) = \<bar>am\<bar>" "amount_Bytes am = [] \<longleftrightarrow> am = 0"
proof -
  show "NewAmountFromBytes [] = 0" by (simp add: NewAmountFromBytes_def)
  show "NewAmountFromBytes (amount_Bytes am) = \<bar>am\<bar>"
    by (simp add: amount_Bytes_def NewAmountFromBytes_nat_bytes)
  show "amount_Bytes am = [] \<longleftrightarrow> am = 0"
    by (simp add: amount_Bytes_def nat_bytes.simps [of "nat \<bar>am\<bar>"])
qed

lemma amount_Bytes_zero [simp]: "amount_Bytes 0 = []"
  by simp

lemma NewAmountFromBytes_nonneg [simp]: "0 \<le> NewAmountFromBytes bs"
  by (induction bs rule: rev_induct) (simp_all add: NewAmountFromBytes_snoc)

lemma NewAmountFromBytes_not_less [simp]: "\<not> NewAmountFromBytes bs < 0"
  by (simp add: not_less)

lemma read_amount: "(if 0 < length bs then NewAmountFromBytes bs else NewCoinAmount 0 0) = NewAmountFromBytes bs"
  by simp

lemmas amount_order_simps [simp] = amount_Less_def amount_IsZero_def

text \<open>A write of one key, with its effect on the deletion marks.\<close>

definition puts :: "unit cm \<Rightarrow> ctx \<Rightarrow> skey \<Rightarrow> bytes \<Rightarrow> bool" where
  "puts m ctx k v \<longleftrightarrow> writes m ctx (set_data k v) \<and> marked (snd (m ctx)) = (marked ctx)(k := v = [])
     \<and> deleted (snd (m ctx)) = deleted ctx"

text \<open>A computation that only fails.\<close>

definition fails :: "'a cm \<Rightarrow> ctx \<Rightarrow> error \<Rightarrow> bool" where
  "fails m ctx e \<longleftrightarrow> pure m ctx (Inl e) \<and> marked (snd (m ctx)) = marked ctx \<and> deleted (snd (m ctx)) = deleted ctx"

locale amount_cells =
  fixes ok :: "'i \<Rightarrow> bool" and key :: "'i \<Rightarrow> skey" and read :: "'i \<Rightarrow> amount cm"
    and add sub :: "'i \<Rightarrow> amount \<Rightarrow> unit cm" and low :: error
  assumes read_law: "ok i \<Longrightarrow> ctx_wf ctx \<Longrightarrow> pure (read i) ctx (Inr (NewAmountFromBytes (a_data (absc ctx) (key i))))"
    and add_law: "ok i \<Longrightarrow> ctx_wf ctx \<Longrightarrow> 0 \<le> am \<Longrightarrow>
        puts (add i am) ctx (key i) (amount_Bytes (NewAmountFromBytes (a_data (absc ctx) (key i)) + am))"
    and add_minus: "ok i \<Longrightarrow> ctx_wf ctx \<Longrightarrow> am < 0 \<Longrightarrow> fails (add i am) ctx ErrMinusInput"
    and sub_law: "ok i \<Longrightarrow> ctx_wf ctx \<Longrightarrow> am \<le> NewAmountFromBytes (a_data (absc ctx) (key i)) \<Longrightarrow>
        puts (sub i am) ctx (key i) (amount_Bytes (NewAmountFromBytes (a_data (absc ctx) (key i)) - am))"
    and sub_low: "ok i \<Longrightarrow> ctx_wf ctx \<Longrightarrow> NewAmountFromBytes (a_data (absc ctx) (key i)) < am \<Longrightarrow> fails (sub i am) ctx low"
begin

abbreviation get :: "absctx \<Rightarrow> 'i \<Rightarrow> amount" where
  "get s i \<equiv> NewAmountFromBytes (a_data s (key i))"

lemma read_simps:
  assumes "ok i" "ctx_wf ctx"
  shows "fst (read i ctx) = Inr (get (absc ctx) i)" "absc (snd (read i ctx)) = absc ctx" "ctx_wf (snd (read i ctx))"
    "ctx_env (snd (read i ctx)) = ctx_env ctx" "ctx_parents (snd (read i ctx)) = ctx_parents ctx" "absp (snd (read i ctx)) = absp ctx"
  using read_law [OF assms] by (simp_all add: pure_def)

lemma add_simps:
  assumes "ok i" "ctx_wf ctx"
  shows "fst (add i am ctx) = (if am < 0 then Inl ErrMinusInput else Inr ())"
    "absc (snd (add i am ctx)) = (if am < 0 then absc ctx else set_data (key i) (amount_Bytes (get (absc ctx) i + am)) (absc ctx))"
    "marked (snd (add i am ctx)) = (if am < 0 then marked ctx else (marked ctx)(key i := get (absc ctx) i + am = 0))"
    "deleted (snd (add i am ctx)) = deleted ctx" "ctx_wf (snd (add i am ctx))" "ctx_env (snd (add i am ctx)) = ctx_env ctx"
    "ctx_parents (snd (add i am ctx)) = ctx_parents ctx" "absp (snd (add i am ctx)) = absp ctx"
  using add_law [OF assms, of am] add_minus [OF assms, of am]
  by (cases "am < 0"; simp add: puts_def fails_def pure_def writes_def)+

lemma sub_simps:
  assumes "ok i" "ctx_wf ctx"
  shows "fst (sub i am ctx) = (if get (absc ctx) i < am then Inl low else Inr ())"
    "absc (snd (sub i am ctx)) = (if get (absc ctx) i < am then absc ctx
       else set_data (key i) (amount_Bytes (get (absc ctx) i - am)) (absc ctx))"
    "marked (snd (sub i am ctx)) = (if get (absc ctx) i < am then marked ctx else (marked ctx)(key i := get (absc ctx) i = am))"
    "deleted (snd (sub i am ctx)) = deleted ctx" "ctx_wf (snd (sub i am ctx))" "ctx_env (snd (sub i am ctx)) = ctx_env ctx"
    "ctx_parents (snd (sub i am ctx)) = ctx_parents ctx" "absp (snd (sub i am ctx)) = absp ctx"
  using sub_law [OF assms, of am] sub_low [OF assms, of am]
  by (cases "get (absc ctx) i < am"; simp add: puts_def fails_def pure_def writes_def)+

lemma add_keeps: "ok i \<Longrightarrow> keeps (add i am)"
  by (simp add: keeps_def add_simps)

lemma sub_keeps: "ok i \<Longrightarrow> keeps (sub i am)"
  by (simp add: keeps_def sub_simps)

lemma read_keeps: "ok i \<Longrightarrow> keeps (read i)"
  by (simp add: keeps_def read_simps)

text \<open>Taking an amount out again restores the cell.\<close>

lemma add_sub:
  assumes "ok i" "ctx_wf ctx" "0 \<le> am"
  shows "fst (cbind (add i am) (\<lambda>_. sub i am) ctx) = Inr ()"
    "get (absc (snd (cbind (add i am) (\<lambda>_. sub i am) ctx))) i = get (absc ctx) i"
  using assms by (simp_all add: ctx_simps add_simps sub_simps)

end

section \<open>Balances and the collected fee\<close>

lemma Balance_eq: "Balance p a = cbind (ctw_AccountData (v_pid p) a tagBalance) (\<lambda>bs. cret (NewAmountFromBytes bs))"
  unfolding Balance_def read_amount ..

lemma CollectedFee_eq: "CollectedFee p = cbind (ctw_ProcessData (v_pid p) tagCollectedFee) (\<lambda>bs. cret (NewAmountFromBytes bs))"
  unfolding CollectedFee_def read_amount ..

lemma SubBalance_eq: "SubBalance p a am = cbind (Balance p a) (\<lambda>b.
    if b < am then cfail ErrMinusBalance else ctw_SetAccountData (v_pid p) a tagBalance (amount_Bytes (b - am)))"
  unfolding SubBalance_def RemoveBalance_def by (rule arg_cong [where f = "cbind _"]) auto

lemma SubCollectedFee_eq: "SubCollectedFee p am = cbind (CollectedFee p) (\<lambda>b.
    if b < am then cfail ErrMinusCollectedFee else ctw_SetProcessData (v_pid p) tagCollectedFee (amount_Bytes (b - am)))"
  unfolding SubCollectedFee_def by (rule arg_cong [where f = "cbind _"]) auto

interpretation balance: amount_cells is_address "\<lambda>a. AKey a (v_pid p) tagBalance" "Balance p" "AddBalance p" "SubBalance p" ErrMinusBalance
  for p
  by unfold_locales
    (simp_all add: pure_def puts_def fails_def writes_def Balance_eq AddBalance_def SubBalance_eq Let_def ctx_simps)

interpretation fee: amount_cells "\<lambda>_. True" "\<lambda>_ :: unit. PKey (v_pid p) tagCollectedFee" "\<lambda>_. CollectedFee p"
    "\<lambda>_. AddCollectedFee p" "\<lambda>_. SubCollectedFee p" ErrMinusCollectedFee
  for p
  by unfold_locales
    (simp_all add: pure_def puts_def fails_def writes_def CollectedFee_eq AddCollectedFee_def SubCollectedFee_eq Let_def ctx_simps)

section \<open>Charging the fee\<close>

definition bal :: "vault \<Rightarrow> absctx \<Rightarrow> address \<Rightarrow> amount" where
  "bal p s a = NewAmountFromBytes (a_data s (AKey a (v_pid p) tagBalance))"

definition fees :: "vault \<Rightarrow> absctx \<Rightarrow> amount" where
  "fees p s = NewAmountFromBytes (a_data s (PKey (v_pid p) tagCollectedFee))"

lemma bal_nonneg [simp]: "0 \<le> bal p s a" "0 \<le> fees p s"
  by (simp_all add: bal_def fees_def)

lemma cbind_assoc: "cbind (cbind m f) g = cbind m (\<lambda>x. cbind (f x) g)"
  by (auto simp: fun_eq_iff cbind_def split: prod.splits sum.splits)

definition charge_fee :: "vault \<Rightarrow> fee_tx \<Rightarrow> unit cm" where
  "charge_fee p tx =
     cbind (clift (ft_Fee tx)) (\<lambda>fee.
     cbind (SubBalance p (ft_From tx) fee) (\<lambda>_.
     cbind (CollectedFee p) (\<lambda>f.
     ctw_SetProcessData (v_pid p) tagCollectedFee (amount_Bytes (f + fee)))))"

lemma WithFee_eq: "WithFee p tx fn = cbind (charge_fee p tx) (\<lambda>_. in_snapshot fn)"
  by (simp add: WithFee_def charge_fee_def cbind_assoc)

definition charged :: "vault \<Rightarrow> address \<Rightarrow> amount \<Rightarrow> absctx \<Rightarrow> absctx" where
  "charged p a am s = set_data (PKey (v_pid p) tagCollectedFee) (amount_Bytes (fees p s + am))
     (set_data (AKey a (v_pid p) tagBalance) (amount_Bytes (bal p s a - am)) s)"

lemma charge_fee_simps:
  assumes "ctx_wf ctx" "is_address (ft_From tx)" "ft_Fee tx = Inr am"
  shows "fst (charge_fee p tx ctx) = (if bal p (absc ctx) (ft_From tx) < am then Inl ErrMinusBalance else Inr ())"
    "absc (snd (charge_fee p tx ctx)) =
       (if bal p (absc ctx) (ft_From tx) < am then absc ctx else charged p (ft_From tx) am (absc ctx))"
    "marked (snd (charge_fee p tx ctx)) =
       (if bal p (absc ctx) (ft_From tx) < am then marked ctx
        else (marked ctx)(AKey (ft_From tx) (v_pid p) tagBalance := bal p (absc ctx) (ft_From tx) = am,
                          PKey (v_pid p) tagCollectedFee := fees p (absc ctx) + am = 0))"
    "deleted (snd (charge_fee p tx ctx)) = deleted ctx" "ctx_wf (snd (charge_fee p tx ctx))"
    "ctx_env (snd (charge_fee p tx ctx)) = ctx_env ctx" "ctx_parents (snd (charge_fee p tx ctx)) = ctx_parents ctx"
    "absp (snd (charge_fee p tx ctx)) = absp ctx"
  using assms
  by (simp_all add: charge_fee_def ctx_simps balance.sub_simps fee.read_simps CollectedFee_eq bal_def fees_def charged_def)

lemma keeps_charge_fee [keeps_intros]: "is_address (ft_From tx) \<Longrightarrow> keeps (charge_fee p tx)"
  unfolding charge_fee_def by (intro keeps_intros balance.sub_keeps) (simp_all add: CollectedFee_eq keeps_intros)

lemma keeps_WithFee [keeps_intros]: "is_address (ft_From tx) \<Longrightarrow> keeps fn \<Longrightarrow> keeps (WithFee p tx fn)"
  unfolding WithFee_eq by (intro keeps_intros)

text \<open>
  The three outcomes of a transaction that pays a fee: the fee cannot be paid and nothing happens; the body
  fails and only the fee is paid; the body succeeds on the state after the fee, and is committed.
\<close>

lemma WithFee_outcomes:
  assumes "ctx_wf ctx" "is_address a" "ft_From tx = a" "ft_Fee tx = Inr am" "keeps fn"
  obtains
    (poor) "bal p (absc ctx) a < am" "fst (WithFee p tx fn ctx) = Inl ErrMinusBalance"
      "absc (snd (WithFee p tx fn ctx)) = absc ctx" "marked (snd (WithFee p tx fn ctx)) = marked ctx"
  | (failed) e ctx2 where "am \<le> bal p (absc ctx) a" "ctx_wf ctx2" "absc ctx2 = charged p a am (absc ctx)"
      "marked ctx2 = (\<lambda>_. False)" "deleted ctx2 = (\<lambda>_. False)" "ctx_env ctx2 = ctx_env ctx" "fst (fn ctx2) = Inl e"
      "fst (WithFee p tx fn ctx) = Inl e" "absc (snd (WithFee p tx fn ctx)) = charged p a am (absc ctx)"
  | (paid) ctx1 ctx2 where "am \<le> bal p (absc ctx) a" "ctx_wf ctx2" "absc ctx2 = charged p a am (absc ctx)"
      "marked ctx2 = (\<lambda>_. False)" "deleted ctx2 = (\<lambda>_. False)" "ctx_env ctx2 = ctx_env ctx" "fst (fn ctx2) = Inr ()"
      "marked ctx1 = (marked ctx)(AKey a (v_pid p) tagBalance := bal p (absc ctx) a = am,
                          PKey (v_pid p) tagCollectedFee := fees p (absc ctx) + am = 0)" "deleted ctx1 = deleted ctx"
      "fst (WithFee p tx fn ctx) = Inr ()" "absc (snd (WithFee p tx fn ctx)) = commit_view ctx1 (absc (snd (fn ctx2)))"
      "marked (snd (WithFee p tx fn ctx)) = (\<lambda>k. marked ctx1 k \<or> marked (snd (fn ctx2)) k)"
proof -
  define ctx1 where "ctx1 = snd (charge_fee p tx ctx)"
  define ctx2 where "ctx2 = snd (ctx_Snapshot ctx1)"
  have addr: "is_address (ft_From tx)" using assms(2,3) by simp
  note ch = charge_fee_simps [OF assms(1) addr assms(4), of p, folded ctx1_def, unfolded assms(3)]
  note sn = Snapshot_simps [OF ch(5), folded ctx2_def] marks_Snapshot [OF ch(5), folded ctx2_def]
  note isn = in_snapshot_simps [OF ch(5) assms(5), folded ctx2_def]
  show thesis
  proof (cases "bal p (absc ctx) a < am")
    case True
    with ch(1-3) show thesis by (intro poor) (simp_all add: WithFee_eq ctx_simps ctx1_def)
  next
    case False
    then have wf: "WithFee p tx fn ctx = in_snapshot fn ctx1"
      using ch(1) by (auto simp add: WithFee_eq cbind_def ctx1_def split: prod.splits sum.splits)
    show thesis
    proof (cases "fst (fn ctx2)")
      case (Inl e)
      with False ch sn isn show thesis by (intro failed [of ctx2 e]) (simp_all add: wf)
    next
      case (Inr u)
      with False ch sn isn show thesis by (intro paid [of ctx2 ctx1]) (simp_all add: wf)
    qed
  qed
qed

end
