(* ===== verification/Vault_Txs.thy ===== *)
theory Vault_Txs
  imports Vault_Laws
begin

text \<open>
  The transactions of the vault: what they do to the balances on every branch, and that no sequence of them
  creates coins.
\<close>

section \<open>The fee\<close>

definition TX_FEE :: amount where "TX_FEE = 100000000000000000"

lemma tx_fee: "amount_DivC COIN 10 = Inr TX_FEE"
  by (simp add: amount_DivC_def amount_Div_def COIN_def NewCoinAmount_eq FractionalMax_def TX_FEE_def)

lemma TX_FEE_pos [simp]: "0 < TX_FEE" "0 \<le> TX_FEE" "TX_FEE \<noteq> 0"
  by (simp_all add: TX_FEE_def)

lemma fee_simps [simp]:
  "ft_From (transfer_fee t) = tr_From t" "ft_Fee (transfer_fee t) = Inr TX_FEE"
  "ft_From (burn_fee b) = bu_From b" "ft_Fee (burn_fee b) = Inr TX_FEE"
  "ft_From (create_account_fee c) = ca_From c" "ft_Fee (create_account_fee c) = Inr TX_FEE"
  "ft_From (create_multi_account_fee m) = cm_From m" "ft_Fee (create_multi_account_fee m) = Inr TX_FEE"
  by (simp_all add: transfer_fee_def burn_fee_def create_account_fee_def create_multi_account_fee_def tx_fee)

section \<open>Balances of a state\<close>

lemma tag_distinct [simp]:
  "tagBalance \<noteq> tagLockedBalanceSum" "tagLockedBalanceSum \<noteq> tagBalance" "tagCollectedFee \<noteq> tagPolicy" "tagPolicy \<noteq> tagCollectedFee"
  by (simp_all add: vault_tags)

lemma charged_simps:
  assumes "0 \<le> am" "am \<le> bal p s a"
  shows "bal p (charged p a am s) b = (if b = a then bal p s a - am else bal p s b)" "fees p (charged p a am s) = fees p s + am"
  using assms by (simp_all add: charged_def bal_def fees_def)

lemma marked_empty: "ctx_wf ctx \<Longrightarrow> marked ctx k \<Longrightarrow> a_data (absc ctx) k = []"
  by (auto simp: marked_def absc_def abs_of_def v_data_def f_data_def elim!: ctx_wfE)

lemma marked_bal: "ctx_wf ctx \<Longrightarrow> marked ctx (AKey a (v_pid p) tagBalance) \<Longrightarrow> bal p (absc ctx) a = 0"
  by (simp add: bal_def marked_empty)

lemma commit_view_bal:
  "bal p (commit_view ctx s) a = (if marked ctx (AKey a (v_pid p) tagBalance) then 0 else bal p s a)"
  "fees p (commit_view ctx s) = (if marked ctx (PKey (v_pid p) tagCollectedFee) then 0 else fees p s)"
  by (simp_all add: bal_def fees_def ctx_simps)

section \<open>Transfer\<close>

lemma transfer_body_keeps: "is_address a \<Longrightarrow> is_address b \<Longrightarrow> keeps (cbind (SubBalance p a am) (\<lambda>_. AddBalance p b am))"
  by (intro keeps_intros balance.sub_keeps balance.add_keeps)

lemma transfer_body_simps:
  fixes p :: vault
  assumes "ctx_wf ctx" "is_address a" "is_address b" "0 \<le> am"
  defines "m \<equiv> cbind (SubBalance p a am) (\<lambda>_. AddBalance p b am)"
  shows "fst (m ctx) = (if bal p (absc ctx) a < am then Inl ErrMinusBalance else Inr ())"
    "am \<le> bal p (absc ctx) a \<Longrightarrow> bal p (absc (snd (m ctx))) c =
       bal p (absc ctx) c - (if c = a then am else 0) + (if c = b then am else 0)"
    "am \<le> bal p (absc ctx) a \<Longrightarrow> fees p (absc (snd (m ctx))) = fees p (absc ctx)"
    "am \<le> bal p (absc ctx) a \<Longrightarrow> k \<noteq> AKey a (v_pid p) tagBalance \<Longrightarrow> k \<noteq> AKey b (v_pid p) tagBalance \<Longrightarrow>
       a_data (absc (snd (m ctx))) k = a_data (absc ctx) k"
  using assms(1-4) by (auto simp: m_def ctx_simps balance.sub_simps balance.add_simps bal_def fees_def)

lemma transfer_paid:
  fixes p :: vault
  assumes "ctx_wf ctx" "ctx_wf ctx2" "is_address a" "is_address b" "0 \<le> am" "TX_FEE \<le> bal p (absc ctx) a"
    "absc ctx2 = charged p a TX_FEE (absc ctx)" "am \<le> bal p (absc ctx2) a"
    "marked ctx1 = (marked ctx)(AKey a (v_pid p) tagBalance := bal p (absc ctx) a = TX_FEE,
                                PKey (v_pid p) tagCollectedFee := fees p (absc ctx) + TX_FEE = 0)"
  defines "s \<equiv> absc ctx"
    and "s' \<equiv> commit_view ctx1 (absc (snd (cbind (SubBalance p a am) (\<lambda>_. AddBalance p b am) ctx2)))"
  shows "fees p s' = fees p s + TX_FEE"
    "bal p s' c = (if marked ctx (AKey c (v_pid p) tagBalance) \<and> c \<noteq> a then 0
       else bal p s c - (if c = a then TX_FEE + am else 0) + (if c = b then am else 0))"
    "(\<forall>a. k \<noteq> AKey a (v_pid p) tagBalance) \<Longrightarrow> k \<noteq> PKey (v_pid p) tagCollectedFee \<Longrightarrow> a_data s' k = a_data s k"
proof -
  note body = transfer_body_simps(2-4) [OF assms(2-5) assms(8)]
  have "fees p (absc ctx) + TX_FEE \<noteq> 0" using bal_nonneg(2) [of p "absc ctx"] TX_FEE_pos(1) by linarith
  then show "fees p s' = fees p s + TX_FEE"
    using assms(6,7,9) body(2) by (simp add: s_def s'_def commit_view_bal charged_simps)
  show "bal p s' c = (if marked ctx (AKey c (v_pid p) tagBalance) \<and> c \<noteq> a then 0
       else bal p s c - (if c = a then TX_FEE + am else 0) + (if c = b then am else 0))"
    using assms(5-9) body(1) [of c] by (auto simp: s_def s'_def commit_view_bal charged_simps)
  show "a_data s' k = a_data s k" if "\<forall>a. k \<noteq> AKey a (v_pid p) tagBalance" "k \<noteq> PKey (v_pid p) tagCollectedFee"
    using assms(7,9) body(3) [of k] that marked_empty [OF assms(1), of k]
    by (auto simp: s_def s'_def ctx_simps charged_def)
qed

lemma transfer_fails:
  fixes p :: vault
  assumes "ctx_wf ctx" "is_address (tr_From tx)" "is_address (tr_To tx)" "0 \<le> tr_Amount tx"
  shows "bal p (absc ctx) (tr_From tx) < TX_FEE \<Longrightarrow>
      fst (transfer_Execute p tx index ctx) = Inl ErrMinusBalance \<and> absc (snd (transfer_Execute p tx index ctx)) = absc ctx"
    "TX_FEE \<le> bal p (absc ctx) (tr_From tx) \<Longrightarrow> bal p (absc ctx) (tr_From tx) < TX_FEE + tr_Amount tx \<Longrightarrow>
      fst (transfer_Execute p tx index ctx) = Inl ErrMinusBalance
      \<and> absc (snd (transfer_Execute p tx index ctx)) = charged p (tr_From tx) TX_FEE (absc ctx)"
proof -
  note out = assms(1,2) fee_simps(1,2) [of tx] transfer_body_keeps [OF assms(2,3), of p "tr_Amount tx"]
  show "fst (transfer_Execute p tx index ctx) = Inl ErrMinusBalance \<and> absc (snd (transfer_Execute p tx index ctx)) = absc ctx"
    if "bal p (absc ctx) (tr_From tx) < TX_FEE"
    using out that by (cases rule: WithFee_outcomes [where p = p]) (auto simp: transfer_Execute_def)
  show "fst (transfer_Execute p tx index ctx) = Inl ErrMinusBalance
      \<and> absc (snd (transfer_Execute p tx index ctx)) = charged p (tr_From tx) TX_FEE (absc ctx)"
    if le: "TX_FEE \<le> bal p (absc ctx) (tr_From tx)" and lt: "bal p (absc ctx) (tr_From tx) < TX_FEE + tr_Amount tx"
  proof -
    have body: "fst (cbind (SubBalance p (tr_From tx) (tr_Amount tx)) (\<lambda>_. AddBalance p (tr_To tx) (tr_Amount tx)) c) = Inl ErrMinusBalance"
      if "ctx_wf c" "absc c = charged p (tr_From tx) TX_FEE (absc ctx)" for c
      using transfer_body_simps(1) [OF that(1) assms(2-4), of p] le lt by (simp add: that(2) charged_simps)
    from out show ?thesis
    proof (cases rule: WithFee_outcomes [where p = p])
      case poor
      then show ?thesis using le by simp
    next
      case (failed e ctx2)
      then show ?thesis using body [OF failed(2,3)] by (simp add: transfer_Execute_def)
    next
      case (paid ctx1 ctx2)
      then show ?thesis using body [OF paid(2,3)] by simp
    qed
  qed
qed

lemma transfer_succeeds:
  fixes p :: vault and index :: u16
  assumes "ctx_wf ctx" "is_address (tr_From tx)" "is_address (tr_To tx)" "0 \<le> tr_Amount tx"
    and "TX_FEE + tr_Amount tx \<le> bal p (absc ctx) (tr_From tx)"
  defines "s \<equiv> absc ctx" and "ctx' \<equiv> snd (transfer_Execute p tx index ctx)"
    and "a \<equiv> tr_From tx" and "b \<equiv> tr_To tx" and "am \<equiv> tr_Amount tx"
  shows "fst (transfer_Execute p tx index ctx) = Inr ()" "fees p (absc ctx') = fees p s + TX_FEE"
    "bal p (absc ctx') c = (if marked ctx (AKey c (v_pid p) tagBalance) \<and> c \<noteq> a then 0
       else bal p s c - (if c = a then TX_FEE + am else 0) + (if c = b then am else 0))"
    "(\<forall>c. k \<noteq> AKey c (v_pid p) tagBalance) \<Longrightarrow> k \<noteq> PKey (v_pid p) tagCollectedFee \<Longrightarrow> a_data (absc ctx') k = a_data s k"
    "a \<noteq> b \<Longrightarrow> bal p s a = TX_FEE + am \<Longrightarrow> marked ctx' (AKey a (v_pid p) tagBalance)"
    "a \<noteq> b \<Longrightarrow> 0 < am \<Longrightarrow> \<not> marked ctx (AKey b (v_pid p) tagBalance) \<Longrightarrow> \<not> marked ctx' (AKey b (v_pid p) tagBalance)"
proof -
  note fields = assms(2-4) [folded a_def b_def am_def]
  have "fst (transfer_Execute p tx index ctx) = Inr () \<and> fees p (absc ctx') = fees p s + TX_FEE
    \<and> (\<forall>c. bal p (absc ctx') c = (if marked ctx (AKey c (v_pid p) tagBalance) \<and> c \<noteq> a then 0
       else bal p s c - (if c = a then TX_FEE + am else 0) + (if c = b then am else 0)))
    \<and> (\<forall>k. (\<forall>c. k \<noteq> AKey c (v_pid p) tagBalance) \<and> k \<noteq> PKey (v_pid p) tagCollectedFee \<longrightarrow> a_data (absc ctx') k = a_data s k)
    \<and> (a \<noteq> b \<and> bal p s a = TX_FEE + am \<longrightarrow> marked ctx' (AKey a (v_pid p) tagBalance))
    \<and> (a \<noteq> b \<and> 0 < am \<and> \<not> marked ctx (AKey b (v_pid p) tagBalance) \<longrightarrow> \<not> marked ctx' (AKey b (v_pid p) tagBalance))"
    using assms(1) fields(1) fee_simps(1,2) [of tx, folded a_def] transfer_body_keeps [OF fields(1,2), of p am]
  proof (cases rule: WithFee_outcomes [where p = p])
    case poor
    then show ?thesis using assms(5) fields(3) by (simp add: a_def am_def)
  next
    case (failed e ctx2)
    then show ?thesis
      using transfer_body_simps(1) [OF failed(2) fields, of p] assms(5) by (simp add: a_def am_def charged_simps)
  next
    case (paid ctx1 ctx2)
    have ge: "am \<le> bal p (absc ctx2) a" using assms(5) paid(1,3) by (simp add: charged_simps a_def am_def)
    have ex: "transfer_Execute p tx index ctx = WithFee p (transfer_fee tx) (cbind (SubBalance p a am) (\<lambda>_. AddBalance p b am)) ctx"
      by (simp add: transfer_Execute_def a_def b_def am_def)
    have "marked (snd (cbind (SubBalance p a am) (\<lambda>_. AddBalance p b am) ctx2)) (AKey c (v_pid p) tagBalance) \<longleftrightarrow>
        (if c = b then bal p (absc ctx2) b - (if a = b then am else 0) + am = 0
         else c = a \<and> bal p (absc ctx2) a = am)" for c
      using ge fields paid(2,4) by (auto simp: ctx_simps balance.sub_simps balance.add_simps bal_def)
    moreover have "bal p (absc ctx2) a = bal p s a - TX_FEE" "a \<noteq> b \<Longrightarrow> bal p (absc ctx2) b = bal p s b"
      using paid(1,3) by (simp_all add: charged_simps s_def)
    moreover have "0 < am \<Longrightarrow> bal p (absc ctx) b + am \<noteq> 0" using bal_nonneg(1) [of p "absc ctx" b] by linarith
    ultimately show ?thesis
      using transfer_paid [OF assms(1) paid(2) fields paid(1,3) ge paid(8)] paid(8,10,11,12)
      by (auto simp: ex ctx'_def s_def)
  qed
  then show "fst (transfer_Execute p tx index ctx) = Inr ()" "fees p (absc ctx') = fees p s + TX_FEE"
    "bal p (absc ctx') c = (if marked ctx (AKey c (v_pid p) tagBalance) \<and> c \<noteq> a then 0
       else bal p s c - (if c = a then TX_FEE + am else 0) + (if c = b then am else 0))"
    "(\<forall>c. k \<noteq> AKey c (v_pid p) tagBalance) \<Longrightarrow> k \<noteq> PKey (v_pid p) tagCollectedFee \<Longrightarrow> a_data (absc ctx') k = a_data s k"
    "a \<noteq> b \<Longrightarrow> bal p s a = TX_FEE + am \<Longrightarrow> marked ctx' (AKey a (v_pid p) tagBalance)"
    "a \<noteq> b \<Longrightarrow> 0 < am \<Longrightarrow> \<not> marked ctx (AKey b (v_pid p) tagBalance) \<Longrightarrow> \<not> marked ctx' (AKey b (v_pid p) tagBalance)"
    by blast+
qed

text \<open>
  C9. What a \<open>Transfer\<close> does, on every branch. A sender who cannot pay the fee of 0.1 coin changes nothing. A
  sender who can pay the fee but not the amount pays the fee, and only that. Otherwise the transfer
  succeeds: the sender loses amount and fee, the receiver gains the amount, the collected fee grows by the
  fee and nothing else changes, except that a receiver whose balance was emptied earlier in the same
  snapshot ends with nothing.
\<close>

theorem transfer_effect:
  fixes p :: vault
  assumes "ctx_wf ctx" "is_address (tr_From tx)" "is_address (tr_To tx)" "0 \<le> tr_Amount tx"
    and "transfer_Execute p tx index ctx = (r, ctx')"
  defines "s \<equiv> absc ctx" and "s' \<equiv> absc ctx'" and "a \<equiv> tr_From tx" and "b \<equiv> tr_To tx" and "am \<equiv> tr_Amount tx"
  shows "(bal p s a < TX_FEE \<longrightarrow> r = Inl ErrMinusBalance \<and> s' = s)
    \<and> (TX_FEE \<le> bal p s a \<and> bal p s a < TX_FEE + am \<longrightarrow> r = Inl ErrMinusBalance \<and> s' = charged p a TX_FEE s)
    \<and> (TX_FEE + am \<le> bal p s a \<longrightarrow>
        r = Inr () \<and> fees p s' = fees p s + TX_FEE
        \<and> (\<forall>c. bal p s' c =
             (if marked ctx (AKey c (v_pid p) tagBalance) \<and> c \<noteq> a then 0
              else bal p s c - (if c = a then TX_FEE + am else 0) + (if c = b then am else 0)))
        \<and> (\<forall>k. (\<forall>c. k \<noteq> AKey c (v_pid p) tagBalance) \<and> k \<noteq> PKey (v_pid p) tagCollectedFee \<longrightarrow> a_data s' k = a_data s k))"
proof -
  have r: "r = fst (transfer_Execute p tx index ctx)" "s' = absc (snd (transfer_Execute p tx index ctx))"
    by (simp_all add: assms(5) s'_def)
  show ?thesis
    unfolding r s_def a_def b_def am_def
    using transfer_fails [OF assms(1-4), of p index] transfer_succeeds(1-4) [where p = p and index = index, OF assms(1-4)] by blast
qed

text \<open>A small concrete chain for the examples: every address has an account, one of them is funded.\<close>

definition loader0 :: loader where
  "loader0 = emptyLoader\<lparr>ld_HasAccount := (\<lambda>_. Inr True), ld_Account := (\<lambda>a. Inr (SingleAccount a ''account0'' [7]))\<rparr>"

definition vault0 :: vault where
  "vault0 = \<lparr>v_pid = 1, v_admin = 2, v_base58 = (\<lambda>_. Inl (LibError 0)),
     v_Marshal = (\<lambda>pc. Inr (case pc of None \<Rightarrow> [192] | Some c \<Rightarrow> amount_Bytes (AccountCreationAmount c))),
     v_Unmarshal = (\<lambda>bs. Inr (Some \<lparr>AccountCreationAmount = NewAmountFromBytes bs\<rparr>))\<rparr>"

definition funded :: "address \<Rightarrow> amount \<Rightarrow> ctx" where
  "funded a am = snd (AddBalance vault0 a am (NewContext loader0))"

lemma NewContext_data: "a_data (absc (NewContext loader0)) k = []"
proof -
  have "v_data loader0 [NewContextData None] newContextCache k = []"
    by (cases k) (simp_all add: v_data_def f_data_def NewContextData_def newContextCache_def loader0_def emptyLoader_def)
  then show ?thesis by (simp add: absc_def abs_of_def NewContext_def)
qed

lemma NewContext_marks: "marked (NewContext ld) = (\<lambda>_. False)" "deleted (NewContext ld) = (\<lambda>_. False)"
proof -
  have "\<not> s_del k (NewContextData None)" for k by (cases k) (simp_all add: NewContextData_def)
  then show "marked (NewContext ld) = (\<lambda>_. False)" "deleted (NewContext ld) = (\<lambda>_. False)"
    by (simp_all add: fun_eq_iff marked_def deleted_def NewContext_def NewContextData_def)
qed

lemma funded_simps:
  assumes "is_address a" "0 < am"
  shows "ctx_wf (funded a am)" "bal vault0 (absc (funded a am)) c = (if c = a then am else 0)"
    "fees vault0 (absc (funded a am)) = 0" "marked (funded a am) = (\<lambda>_. False)"
    "has_view (funded a am) b = Inr True" "a_acc (absc (funded a am)) b = Inr (SingleAccount b ''account0'' [7])"
proof -
  have base: "has_view (NewContext loader0) b = Inr True" "a_acc (absc (NewContext loader0)) b = Inr (SingleAccount b ''account0'' [7])"
    by (simp_all add: has_view_def absc_def abs_of_def v_acc_def f_acc_def b_acc_def NewContext_def ctd_HasAccount.simps cc_HasAccount_def
        NewContextData_def newContextCache_def loader0_def)
  show "ctx_wf (funded a am)" "bal vault0 (absc (funded a am)) c = (if c = a then am else 0)"
    "fees vault0 (absc (funded a am)) = 0" "marked (funded a am) = (\<lambda>_. False)"
    using assms by (auto simp: funded_def balance.add_simps bal_def fees_def NewContext_data NewContext_marks)
  have "has_view (snd (AddBalance p a am ctx)) = has_view ctx" for p ctx
    using assms by (simp add: AddBalance_def Balance_eq ctx_simps split: sum.splits)
  then show "has_view (funded a am) b = Inr True" by (simp add: funded_def base)
  show "a_acc (absc (funded a am)) b = Inr (SingleAccount b ''account0'' [7])"
    using assms base by (simp add: funded_def balance.add_simps)
qed

theorem transfer_effect_witness:
  "\<exists>ctx'. transfer_Execute vault0 \<lparr>tr_Timestamp = 0, tr_Seq = 1, tr_From = NewAddress 1 0 0, tr_To = NewAddress 1 1 0, tr_Amount = TX_FEE\<rparr> 0
       (funded (NewAddress 1 0 0) (10 * TX_FEE)) = (Inr (), ctx')
     \<and> bal vault0 (absc ctx') (NewAddress 1 0 0) = 8 * TX_FEE \<and> bal vault0 (absc ctx') (NewAddress 1 1 0) = TX_FEE"
proof -
  let ?tx = "\<lparr>tr_Timestamp = 0, tr_Seq = 1, tr_From = NewAddress 1 0 0, tr_To = NewAddress 1 1 0, tr_Amount = TX_FEE\<rparr>"
  let ?ctx = "funded (NewAddress 1 0 0) (10 * TX_FEE)"
  have "0 < 10 * TX_FEE" by simp
  note f = funded_simps [OF is_address_NewAddress this, of 1 0 0]
  have "fst (transfer_Execute vault0 ?tx 0 ?ctx) = Inr ()
     \<and> bal vault0 (absc (snd (transfer_Execute vault0 ?tx 0 ?ctx))) (NewAddress 1 0 0) = 8 * TX_FEE
     \<and> bal vault0 (absc (snd (transfer_Execute vault0 ?tx 0 ?ctx))) (NewAddress 1 1 0) = TX_FEE"
    using transfer_effect [of ?ctx ?tx vault0 0, OF f(1) _ _ _ prod.collapse [symmetric]] f by simp
  then show ?thesis by (metis prod.collapse)
qed

section \<open>No transaction creates coins\<close>

definition total_coins :: "vault \<Rightarrow> absctx \<Rightarrow> amount" where
  "total_coins p s = (\<Sum>a | is_address a. bal p s a) + fees p s"

lemma finite_addresses: "finite {a. is_address a}"
  using finite_lists_length_eq [of "UNIV :: byte set" AddressSize] by (simp add: is_address_def)

lemma sum_change:
  fixes f g :: "'a \<Rightarrow> int"
  assumes "finite A" "x \<in> A" "\<And>y. y \<in> A \<Longrightarrow> y \<noteq> x \<Longrightarrow> g y = f y"
  shows "sum g A = sum f A - f x + g x"
proof -
  have "sum g (A - {x}) = sum f (A - {x})" using assms(3) by (intro sum.cong) auto
  then show ?thesis using sum.remove [OF assms(1,2), of f] sum.remove [OF assms(1,2), of g] by simp
qed

lemma coins_set:
  "is_address a \<Longrightarrow> total_coins p (set_data (AKey a (v_pid p) tagBalance) v s) = total_coins p s - bal p s a + NewAmountFromBytes v"
  "total_coins p (set_data (PKey (v_pid p) tagCollectedFee) v s) = total_coins p s - fees p s + NewAmountFromBytes v"
proof -
  assume "is_address a"
  then have "(\<Sum>c | is_address c. bal p (set_data (AKey a (v_pid p) tagBalance) v s) c)
      = (\<Sum>c | is_address c. bal p s c) - bal p s a + NewAmountFromBytes v"
    using sum_change [OF finite_addresses, of a "bal p (set_data (AKey a (v_pid p) tagBalance) v s)" "bal p s"] by (simp add: bal_def)
  then show "total_coins p (set_data (AKey a (v_pid p) tagBalance) v s) = total_coins p s - bal p s a + NewAmountFromBytes v"
    by (simp add: total_coins_def fees_def)
qed (simp add: total_coins_def fees_def bal_def)

lemma coins_other:
  "n \<noteq> tagCollectedFee \<Longrightarrow> total_coins p (set_data (PKey (v_pid p) n) v s) = total_coins p s"
  "a_data s = a_data s' \<Longrightarrow> total_coins p s = total_coins p s'"
  by (simp_all add: total_coins_def fees_def bal_def)

lemma coins_charged: "is_address a \<Longrightarrow> 0 \<le> am \<Longrightarrow> am \<le> bal p s a \<Longrightarrow> total_coins p (charged p a am s) = total_coins p s"
  unfolding charged_def coins_set(2) coins_set(1) by (simp add: fees_def bal_def)

text \<open>A commit can only lose coins.\<close>

lemma coins_commit: "total_coins p (commit_view ctx s) \<le> total_coins p s"
  unfolding total_coins_def by (intro add_mono sum_mono) (simp_all add: commit_view_bal)

lemma coins_sub:
  assumes "ctx_wf ctx" "is_address a" "0 \<le> am"
  shows "total_coins p (absc (snd (SubBalance p a am ctx))) \<le> total_coins p (absc ctx)"
    "am \<le> bal p (absc ctx) a \<Longrightarrow> total_coins p (absc (snd (SubBalance p a am ctx))) = total_coins p (absc ctx) - am"
  using assms by (simp_all add: balance.sub_simps coins_set [unfolded bal_def] not_less bal_def)

lemma coins_sub_any:
  assumes "ctx_wf ctx" "is_address a" "am \<le> bal p (absc ctx) a"
  shows "total_coins p (absc (snd (SubBalance p a am ctx))) = total_coins p (absc ctx) - am"
  using assms by (simp add: balance.sub_simps coins_set bal_def)

lemma coins_add:
  assumes "ctx_wf ctx" "is_address a" "0 \<le> am"
  shows "total_coins p (absc (snd (AddBalance p a am ctx))) = total_coins p (absc ctx) + am"
  using assms by (simp add: balance.add_simps coins_set bal_def)

lemma coins_fee:
  assumes "ctx_wf ctx" "0 \<le> am"
  shows "total_coins p (absc (snd (AddCollectedFee p am ctx))) = total_coins p (absc ctx) + am"
  using assms by (simp add: fee.add_simps coins_set fees_def)

lemma WithFee_coins:
  assumes "ctx_wf ctx" "is_address (ft_From tx)" "ft_Fee tx = Inr am" "0 \<le> am" "keeps fn"
    and "\<And>ctx2. ctx_wf ctx2 \<Longrightarrow> fst (fn ctx2) = Inr () \<Longrightarrow> total_coins p (absc (snd (fn ctx2))) \<le> total_coins p (absc ctx2)"
  shows "total_coins p (absc (snd (WithFee p tx fn ctx))) \<le> total_coins p (absc ctx)"
  using assms(1,2) refl [of "ft_From tx"] assms(3,5)
proof (cases rule: WithFee_outcomes [where p = p])
  case poor
  then show ?thesis by simp
next
  case (failed e ctx2)
  then show ?thesis using coins_charged [OF assms(2,4) failed(1)] by simp
next
  case (paid ctx1 ctx2)
  have "total_coins p (absc (snd (WithFee p tx fn ctx))) \<le> total_coins p (absc (snd (fn ctx2)))"
    unfolding paid(11) by (rule coins_commit)
  also have "\<dots> \<le> total_coins p (absc ctx2)" using assms(6) paid(2,7) by blast
  also have "\<dots> = total_coins p (absc ctx)" unfolding paid(3) by (rule coins_charged [OF assms(2,4) paid(1)])
  finally show ?thesis .
qed

lemma cbind_Inr: "fst (cbind m f ctx) = Inr y \<longleftrightarrow> (\<exists>x. fst (m ctx) = Inr x \<and> fst (f x (snd (m ctx))) = Inr y)"
  by (auto simp: ctx_simps split: sum.splits)

text \<open>The transactions that \<open>Init\<close> registers, and how one is executed.\<close>

datatype vault_tx =
    Transfer transfer | Burn burn | CreateAccount create_account | CreateMultiAccount create_multi_account
  | IssueAccount issue_account | UpdatePolicy update_policy

fun vault_Execute :: "vault \<Rightarrow> vault_tx \<Rightarrow> u16 \<Rightarrow> unit cm" where
  "vault_Execute p (Transfer tx) index = transfer_Execute p tx index"
| "vault_Execute p (Burn tx) index = burn_Execute p tx index"
| "vault_Execute p (CreateAccount tx) index = create_account_Execute p tx index"
| "vault_Execute p (CreateMultiAccount tx) index = create_multi_account_Execute p tx index"
| "vault_Execute p (IssueAccount tx) index = issue_account_Execute p tx index"
| "vault_Execute p (UpdatePolicy tx) index = update_policy_Execute p tx index"

text \<open>What decoding guarantees of a transaction: addresses are addresses and amounts are not negative.\<close>

fun vault_tx_ok :: "vault_tx \<Rightarrow> bool" where
  "vault_tx_ok (Transfer tx) \<longleftrightarrow> is_address (tr_From tx) \<and> is_address (tr_To tx) \<and> 0 \<le> tr_Amount tx"
| "vault_tx_ok (Burn tx) \<longleftrightarrow> is_address (bu_From tx) \<and> 0 \<le> bu_Amount tx"
| "vault_tx_ok (CreateAccount tx) \<longleftrightarrow> is_address (ca_From tx)"
| "vault_tx_ok (CreateMultiAccount tx) \<longleftrightarrow> is_address (cm_From tx)"
| "vault_tx_ok (IssueAccount tx) \<longleftrightarrow> is_address (ia_From tx)"
| "vault_tx_ok (UpdatePolicy tx) \<longleftrightarrow> is_address (up_From tx)"

lemma keeps_vault_Policy [keeps_intros]: "keeps (vault_Policy p)"
  unfolding vault_Policy_def by (intro keeps_intros) (auto split: option.split intro: keeps_intros)

lemmas keeps_vault_ops [keeps_intros] = balance.sub_keeps balance.add_keeps fee.add_keeps [simplified] fee.sub_keeps [simplified]

lemma vault_Execute_keeps: "vault_tx_ok tx \<Longrightarrow> keeps (vault_Execute p tx index)"
  by (cases tx) (auto simp: transfer_Execute_def burn_Execute_def create_account_Execute_def create_multi_account_Execute_def
      issue_account_Execute_def update_policy_Execute_def Let_def intro!: keeps_intros)

text \<open>Paying for a creation: the cost goes to the collected fee, and the new account has no coins.\<close>

lemma pay_creation_coins:
  assumes "ctx_wf ctx" "is_address a"
    and "fst (cbind (SubBalance p a cost) (\<lambda>_. cbind (AddCollectedFee p cost) (\<lambda>_.
           cbind ctx_TargetHeight (\<lambda>h. ctx_CreateAccount dec (acc h)))) ctx) = Inr ()"
  shows "total_coins p (absc (snd (cbind (SubBalance p a cost) (\<lambda>_. cbind (AddCollectedFee p cost) (\<lambda>_.
           cbind ctx_TargetHeight (\<lambda>h. ctx_CreateAccount dec (acc h)))) ctx))) = total_coins p (absc ctx)"
proof -
  let ?c1 = "snd (SubBalance p a cost ctx)" let ?c2 = "snd (AddCollectedFee p cost ?c1)"
  have wf: "ctx_wf ?c1" "ctx_wf ?c2" using assms(1,2) by (simp_all add: balance.sub_simps fee.add_simps)
  have ok: "cost \<le> bal p (absc ctx) a" "0 \<le> cost"
    using assms by (auto simp: ctx_simps balance.sub_simps fee.add_simps bal_def split: if_splits sum.splits)
  have "fst (SubBalance p a cost ctx) = Inr ()" "fst (AddCollectedFee p cost ?c1) = Inr ()"
    using ok assms(1,2) wf by (simp_all add: balance.sub_simps fee.add_simps bal_def)
  then have "total_coins p (absc (snd (cbind (SubBalance p a cost) (\<lambda>_. cbind (AddCollectedFee p cost) (\<lambda>_.
           cbind ctx_TargetHeight (\<lambda>h. ctx_CreateAccount dec (acc h)))) ctx))) = total_coins p (absc ?c2)"
    by (simp add: ctx_simps coins_other(2) [OF CreateAccount_data [OF wf(2)]])
  then show ?thesis
    using coins_sub_any [OF assms(1,2) ok(1)] coins_fee [OF wf(1) ok(2)] by simp
qed

lemma vault_Execute_coins:
  assumes "ctx_wf ctx" "vault_tx_ok tx"
  shows "total_coins p (absc (snd (vault_Execute p tx index ctx))) \<le> total_coins p (absc ctx)"
proof (cases tx)
  case (Transfer t)
  then have ok: "is_address (tr_From t)" "is_address (tr_To t)" "0 \<le> tr_Amount t" using assms(2) by simp_all
  have "total_coins p (absc (snd (cbind (SubBalance p (tr_From t) (tr_Amount t)) (\<lambda>_. AddBalance p (tr_To t) (tr_Amount t)) c)))
      \<le> total_coins p (absc c)" if "ctx_wf c" for c
    using that ok coins_sub [OF that ok(1,3), of p] coins_add [OF balance.sub_simps(5) [OF ok(1) that] ok(2,3), of p]
    by (auto simp: ctx_simps balance.sub_simps bal_def split: if_splits sum.splits)
  then show ?thesis
    using Transfer ok assms(1) by (auto simp: transfer_Execute_def intro!: WithFee_coins [where am = TX_FEE] keeps_intros)
next
  case (Burn b)
  then show ?thesis
    using assms by (auto simp: burn_Execute_def intro!: WithFee_coins [where am = TX_FEE] keeps_intros coins_sub(1))
next
  case (CreateAccount c)
  have "total_coins p (absc (snd (cbind (vault_Policy p) f c2))) \<le> total_coins p (absc c2)"
    if "ctx_wf c2" "\<And>pc c2. ctx_wf c2 \<Longrightarrow> fst (f pc c2) = Inr () \<Longrightarrow> total_coins p (absc (snd (f pc c2))) \<le> total_coins p (absc c2)"
      "fst (cbind (vault_Policy p) f c2) = Inr ()" for c2 f
  proof -
    have "ctx_wf (snd (vault_Policy p c2))" "absc (snd (vault_Policy p c2)) = absc c2"
      using that(1) by (auto simp: vault_Policy_def ctx_simps split: sum.splits option.splits)
    with that(2,3) show ?thesis by (auto simp: ctx_simps split: sum.splits) (metis (no_types, lifting))
  qed
  then show ?thesis
    using CreateAccount assms
    by (auto simp: create_account_Execute_def pay_creation_coins intro!: WithFee_coins [where am = TX_FEE] keeps_intros)
next
  case (CreateMultiAccount m)
  then show ?thesis
    using assms
    by (auto simp: create_multi_account_Execute_def Let_def pay_creation_coins intro!: WithFee_coins [where am = TX_FEE] keeps_intros)
next
  case (IssueAccount i)
  then show ?thesis
    using assms(1) by (simp add: issue_account_Execute_def ctx_simps coins_other(2) [OF CreateAccount_data])
next
  case (UpdatePolicy u)
  then show ?thesis
    using assms(1) by (auto simp: update_policy_Execute_def ctx_simps coins_other(1) split: sum.splits)
qed

fun vault_run :: "vault \<Rightarrow> (vault_tx \<times> u16) list \<Rightarrow> ctx \<Rightarrow> ctx" where
  "vault_run p [] ctx = ctx"
| "vault_run p ((tx, index) # txs) ctx = vault_run p txs (snd (vault_Execute p tx index ctx))"

text \<open>
  C8. No sequence of vault transactions creates coins. Whatever transactions are executed, in whatever order
  and whether they fail or succeed, the balances of all accounts together with the collected fee never
  grow, and the context stays well formed.
\<close>

theorem vault_no_mint:
  assumes "ctx_wf ctx" "\<forall>(tx, index) \<in> set txs. vault_tx_ok tx"
  shows "ctx_wf (vault_run p txs ctx) \<and> total_coins p (absc (vault_run p txs ctx)) \<le> total_coins p (absc ctx)"
  using assms
proof (induction p txs ctx rule: vault_run.induct)
  case (2 p tx index txs ctx)
  let ?ctx = "snd (vault_Execute p tx index ctx)"
  have "ctx_wf ?ctx" using keepsD(1) [OF vault_Execute_keeps] 2(2,3) by auto
  moreover have "total_coins p (absc ?ctx) \<le> total_coins p (absc ctx)" using 2(2,3) by (auto intro: vault_Execute_coins)
  ultimately show ?case using "2.IH" 2(3) by (auto intro: order_trans)
qed simp

theorem vault_no_mint_witness:
  "total_coins vault0 (absc (vault_run vault0
      [(Transfer \<lparr>tr_Timestamp = 0, tr_Seq = 1, tr_From = NewAddress 1 0 0, tr_To = NewAddress 1 1 0, tr_Amount = TX_FEE\<rparr>, 0),
       (Burn \<lparr>bu_Timestamp = 0, bu_Seq = 2, bu_From = NewAddress 1 1 0, bu_Amount = 1\<rparr>, 1)]
      (funded (NewAddress 1 0 0) (10 * TX_FEE))))
   \<le> total_coins vault0 (absc (funded (NewAddress 1 0 0) (10 * TX_FEE)))"
  using vault_no_mint [of "funded (NewAddress 1 0 0) (10 * TX_FEE)"
      "[(Transfer \<lparr>tr_Timestamp = 0, tr_Seq = 1, tr_From = NewAddress 1 0 0, tr_To = NewAddress 1 1 0, tr_Amount = TX_FEE\<rparr>, 0),
       (Burn \<lparr>bu_Timestamp = 0, bu_Seq = 2, bu_From = NewAddress 1 1 0, bu_Amount = 1\<rparr>, 1)]" vault0]
  by (simp add: funded_simps)

text \<open>
  C35. A transfer back to an emptied account destroys the coins. If \<open>a\<close> sends everything it has to \<open>b\<close>, and \<open>b\<close>
  then sends \<open>y\<close> back in the same block, both transfers succeed, \<open>b\<close> pays \<open>y\<close> and its fee, and \<open>a\<close> ends with
  nothing.
\<close>

theorem transfer_back_lost:
  fixes p :: vault
  assumes "ctx_wf ctx" "is_address a" "is_address b" "a \<noteq> b" "0 < x" "0 < y"
    and "bal p (absc ctx) a = TX_FEE + x" "TX_FEE + y \<le> bal p (absc ctx) b + x" "\<not> marked ctx (AKey b (v_pid p) tagBalance)"
    and "transfer_Execute p \<lparr>tr_Timestamp = t1, tr_Seq = n1, tr_From = a, tr_To = b, tr_Amount = x\<rparr> i1 ctx = (r1, ctx1)"
    and "transfer_Execute p \<lparr>tr_Timestamp = t2, tr_Seq = n2, tr_From = b, tr_To = a, tr_Amount = y\<rparr> i2 ctx1 = (r2, ctx2)"
  shows "r1 = Inr () \<and> r2 = Inr () \<and> bal p (absc ctx2) a = 0 \<and> bal p (absc ctx2) b = bal p (absc ctx) b + x - (TX_FEE + y)
    \<and> fees p (absc ctx2) = fees p (absc ctx) + 2 * TX_FEE"
proof -
  let ?tx1 = "\<lparr>tr_Timestamp = t1, tr_Seq = n1, tr_From = a, tr_To = b, tr_Amount = x\<rparr>"
  let ?tx2 = "\<lparr>tr_Timestamp = t2, tr_Seq = n2, tr_From = b, tr_To = a, tr_Amount = y\<rparr>"
  have run: "ctx1 = snd (transfer_Execute p ?tx1 i1 ctx)" "r1 = fst (transfer_Execute p ?tx1 i1 ctx)"
    "ctx2 = snd (transfer_Execute p ?tx2 i2 ctx1)" "r2 = fst (transfer_Execute p ?tx2 i2 ctx1)"
    by (simp_all add: assms(10,11))
  have "keeps (transfer_Execute p ?tx1 i1)" using vault_Execute_keeps [of "Transfer ?tx1" p i1] assms(2,3,5) by simp
  then have wf: "ctx_wf ctx1" using assms(1) unfolding run(1) by (rule keepsD(1))
  have "TX_FEE + tr_Amount ?tx1 \<le> bal p (absc ctx) (tr_From ?tx1)" using assms(7) by simp
  note t1 = transfer_succeeds [OF assms(1) _ _ _ this, where index = i1, folded run(1) run(2), simplified]
  have m: "marked ctx1 (AKey a (v_pid p) tagBalance)" "\<not> marked ctx1 (AKey b (v_pid p) tagBalance)"
    and b1: "bal p (absc ctx1) b = bal p (absc ctx) b + x" "fees p (absc ctx1) = fees p (absc ctx) + TX_FEE" "r1 = Inr ()"
    using t1(1,2,5,6) t1(3) [of b] assms(2-9) by simp_all
  have "TX_FEE + tr_Amount ?tx2 \<le> bal p (absc ctx1) (tr_From ?tx2)" using assms(8) b1 by simp
  note t2 = transfer_succeeds [OF wf _ _ _ this, where index = i2, folded run(3) run(4), simplified]
  show ?thesis using t2(1,2) t2(3) [of a] t2(3) [of b] assms(2-6) m b1 by simp
qed

theorem transfer_back_lost_witness:
  "let a = NewAddress 1 0 0; b = NewAddress 1 1 0; ctx = funded a (4 * TX_FEE);
       ctx1 = snd (transfer_Execute vault0 \<lparr>tr_Timestamp = 0, tr_Seq = 1, tr_From = a, tr_To = b, tr_Amount = 3 * TX_FEE\<rparr> 0 ctx);
       ctx2 = snd (transfer_Execute vault0 \<lparr>tr_Timestamp = 0, tr_Seq = 1, tr_From = b, tr_To = a, tr_Amount = TX_FEE\<rparr> 1 ctx1)
   in bal vault0 (absc ctx2) a = 0 \<and> bal vault0 (absc ctx2) b = TX_FEE"
proof -
  let ?a = "NewAddress 1 0 0" and ?b = "NewAddress 1 1 0" let ?ctx = "funded ?a (4 * TX_FEE)"
  have "0 < 4 * TX_FEE" by simp
  note f = funded_simps [OF is_address_NewAddress this, of 1 0 0]
  show ?thesis
    unfolding Let_def
    using transfer_back_lost [of ?ctx ?a ?b "3 * TX_FEE" TX_FEE vault0, OF f(1) _ _ _ _ _ _ _ _ prod.collapse [symmetric] prod.collapse [symmetric],
        of 0 1 0 0 1 1] f
    by simp
qed

section \<open>Validation is enough\<close>

lemma check_signers_simps:
  assumes "ctx_wf ctx"
  shows "fst (check_signers a signers ctx) = (case a_acc (absc ctx) a of Inl e \<Rightarrow> Inl e | Inr acc \<Rightarrow> account_Validate acc signers)"
    "absc (snd (check_signers a signers ctx)) = absc ctx" "ctx_wf (snd (check_signers a signers ctx))"
  using assms by (simp_all add: check_signers_def ctx_simps split: sum.splits)

lemma CheckFeePayableWith_simps:
  assumes "ctx_wf ctx" "is_address (ft_From tx)" "ft_Fee tx = Inr fee"
  shows "fst (CheckFeePayableWith p tx (Some am) ctx) =
      (if bal p (absc ctx) (ft_From tx) < am + fee then Inl ErrInsufficientFee else Inr ())"
    "absc (snd (CheckFeePayableWith p tx (Some am) ctx)) = absc ctx" "ctx_wf (snd (CheckFeePayableWith p tx (Some am) ctx))"
  using assms by (simp_all add: CheckFeePayableWith_def ctx_simps balance.read_simps bal_def)

text \<open>
  C21. A validated transfer is authorised and cannot fail. If \<open>Validate\<close> accepts a transfer, its amount is at
  least the dust limit, the receiver exists, the sending account exists and accepted the signers, nothing
  was changed, and \<open>Execute\<close> on the same state succeeds.
\<close>

theorem validated_transfer_executes:
  assumes "ctx_wf ctx" "is_address (tr_From tx)" "is_address (tr_To tx)"
    and "transfer_Validate p tx signers ctx = (Inr (), ctx1)"
  shows "TX_FEE \<le> tr_Amount tx \<and> has_view ctx (tr_To tx) = Inr True
    \<and> (\<exists>acc. a_acc (absc ctx) (tr_From tx) = Inr acc \<and> account_Validate acc signers = Inr ())
    \<and> absc ctx1 = absc ctx \<and> fst (transfer_Execute p tx index ctx1) = Inr ()"
proof -
  let ?chk = "cbind (check_signers (tr_From tx) signers) (\<lambda>_. CheckFeePayableWith p (transfer_fee tx) (Some (tr_Amount tx)))"
  have v: "transfer_Validate p tx signers ctx =
     (if tr_Amount tx < TX_FEE then (Inl ErrDustAmount, ctx)
      else case has_view ctx (tr_To tx) of Inl e \<Rightarrow> (Inl e, ctx) | Inr has \<Rightarrow> if \<not> has then (Inl ErrNotExistAccount, ctx) else ?chk ctx)"
    by (auto simp: transfer_Validate_def tx_fee cbind_def clift_def cguard_def cfail_def cret_def HasAccount_simps [OF assms(1)]
        split: sum.splits)
  then have pre: "TX_FEE \<le> tr_Amount tx" "has_view ctx (tr_To tx) = Inr True" "?chk ctx = (Inr (), ctx1)"
    using assms(4) by (auto split: if_splits sum.splits)
  note cs = check_signers_simps [OF assms(1), of "tr_From tx" signers]
  have ok: "fst (?chk ctx) = Inr ()" "ctx1 = snd (?chk ctx)" using pre(3) by simp_all
  obtain acc where acc: "a_acc (absc ctx) (tr_From tx) = Inr acc" "account_Validate acc signers = Inr ()"
    using ok(1) cs(1) by (auto simp: cbind_Inr split: sum.splits)
  then have fs: "fst (check_signers (tr_From tx) signers ctx) = Inr ()" using cs(1) by simp
  note cf = CheckFeePayableWith_simps [OF cs(3), of "transfer_fee tx" TX_FEE p "tr_Amount tx"]
  have bal: "TX_FEE + tr_Amount tx \<le> bal p (absc ctx) (tr_From tx)"
    using ok(1) cf(1) fs cs(2) assms(2) by (auto simp: cbind_Inr split: if_splits)
  have c1: "absc ctx1 = absc ctx" "ctx_wf ctx1" using ok(2) cf(2,3) fs cs(2) assms(2) by (simp_all add: ctx_simps)
  have "0 \<le> tr_Amount tx" using pre(1) TX_FEE_pos by linarith
  then have "fst (transfer_Execute p tx index ctx1) = Inr ()"
    using transfer_succeeds(1) [OF c1(2) assms(2,3)] bal c1(1) by simp
  then show ?thesis using pre acc c1(1) by blast
qed

theorem validated_transfer_executes_witness:
  "let tx = \<lparr>tr_Timestamp = 0, tr_Seq = 1, tr_From = NewAddress 1 0 0, tr_To = NewAddress 1 1 0, tr_Amount = TX_FEE\<rparr>;
       ctx = funded (NewAddress 1 0 0) (10 * TX_FEE); out = transfer_Validate vault0 tx [[7]] ctx
   in fst out = Inr () \<and> fst (transfer_Execute vault0 tx 0 (snd out)) = Inr ()"
proof -
  let ?tx = "\<lparr>tr_Timestamp = 0, tr_Seq = 1, tr_From = NewAddress 1 0 0, tr_To = NewAddress 1 1 0, tr_Amount = TX_FEE\<rparr>"
  let ?ctx = "funded (NewAddress 1 0 0) (10 * TX_FEE)"
  have "0 < 10 * TX_FEE" by simp
  note f = funded_simps [OF is_address_NewAddress this, of 1 0 0]
  have "fst (transfer_Validate vault0 ?tx [[7]] ?ctx) = Inr ()"
    using f by (simp add: transfer_Validate_def tx_fee ctx_simps HasAccount_simps check_signers_simps CheckFeePayableWith_simps)
  then show ?thesis
    using validated_transfer_executes [of ?ctx ?tx vault0 "[[7]]" "snd (transfer_Validate vault0 ?tx [[7]] ?ctx)" 0] f(1)
    by (simp add: Let_def prod_eq_iff)
qed

end
