(* ===== verification/Vault_Locked.thy ===== *)
theory Vault_Locked
  imports Vault_Txs "HOL-Library.Multiset"
begin

text \<open>
  Locked balances: amounts that become spendable at a given height. Per height the vault keeps a numbered
  list of addresses in process data, with the reverse mapping and the count, and per address the sum over
  all heights. The invariant ties the four kinds of entries together; \<open>AddLockedBalance\<close> keeps it, and the
  end of the block of a height pays out exactly what was locked for it.
\<close>

section \<open>The entries of a height\<close>

abbreviation lk_key :: "vault \<Rightarrow> u32 \<Rightarrow> address \<Rightarrow> skey" where "lk_key p h a \<equiv> PKey (v_pid p) (toLockedBalanceKey h a)"
abbreviation no_key :: "vault \<Rightarrow> u32 \<Rightarrow> address \<Rightarrow> skey" where "no_key p h a \<equiv> PKey (v_pid p) (toLockedBalanceNumberKey h a)"
abbreviation rv_key :: "vault \<Rightarrow> u32 \<Rightarrow> u32 \<Rightarrow> skey" where "rv_key p h i \<equiv> PKey (v_pid p) (toLockedBalanceReverseKey h i)"
abbreviation ct_key :: "vault \<Rightarrow> u32 \<Rightarrow> skey" where "ct_key p h \<equiv> PKey (v_pid p) (toLockedBalanceCountKey h)"
abbreviation su_key :: "vault \<Rightarrow> address \<Rightarrow> skey" where "su_key p a \<equiv> AKey a (v_pid p) tagLockedBalanceSum"
abbreviation ba_key :: "vault \<Rightarrow> address \<Rightarrow> skey" where "ba_key p a \<equiv> AKey a (v_pid p) tagBalance"

lemma locked_keys [simp]:
  "toLockedBalanceKey h a = toLockedBalanceKey h' a' \<longleftrightarrow> h = h' \<and> a = a'"
  "toLockedBalanceNumberKey h a = toLockedBalanceNumberKey h' a' \<longleftrightarrow> h = h' \<and> a = a'"
  "toLockedBalanceReverseKey h i = toLockedBalanceReverseKey h' i' \<longleftrightarrow> h = h' \<and> i = i'"
  "toLockedBalanceCountKey h = toLockedBalanceCountKey h' \<longleftrightarrow> h = h'"
  by (auto simp: toLockedBalanceKey_def toLockedBalanceNumberKey_def toLockedBalanceReverseKey_def toLockedBalanceCountKey_def
      append_eq_append_conv)

lemma locked_keys_distinct [simp]:
  "toLockedBalanceKey h a \<noteq> toLockedBalanceNumberKey h' a'" "toLockedBalanceNumberKey h' a' \<noteq> toLockedBalanceKey h a"
  "toLockedBalanceKey h a \<noteq> toLockedBalanceReverseKey h' i" "toLockedBalanceReverseKey h' i \<noteq> toLockedBalanceKey h a"
  "toLockedBalanceKey h a \<noteq> toLockedBalanceCountKey h'" "toLockedBalanceCountKey h' \<noteq> toLockedBalanceKey h a"
  "toLockedBalanceNumberKey h a \<noteq> toLockedBalanceReverseKey h' i" "toLockedBalanceReverseKey h' i \<noteq> toLockedBalanceNumberKey h a"
  "toLockedBalanceNumberKey h a \<noteq> toLockedBalanceCountKey h'" "toLockedBalanceCountKey h' \<noteq> toLockedBalanceNumberKey h a"
  "toLockedBalanceReverseKey h i \<noteq> toLockedBalanceCountKey h'" "toLockedBalanceCountKey h' \<noteq> toLockedBalanceReverseKey h i"
  by (simp_all add: toLockedBalanceKey_def toLockedBalanceNumberKey_def toLockedBalanceReverseKey_def toLockedBalanceCountKey_def vault_tags)

definition locked :: "vault \<Rightarrow> absctx \<Rightarrow> u32 \<Rightarrow> address \<Rightarrow> amount" where
  "locked p s h a = NewAmountFromBytes (a_data s (lk_key p h a))"

definition locked_sum :: "vault \<Rightarrow> absctx \<Rightarrow> address \<Rightarrow> amount" where
  "locked_sum p s a = NewAmountFromBytes (a_data s (su_key p a))"

text \<open>
  \<open>L h\<close> are the addresses with a balance locked until \<open>h\<close>, in the order they were added.
\<close>

definition entries_ok :: "vault \<Rightarrow> absctx \<Rightarrow> u32 \<Rightarrow> address list \<Rightarrow> bool" where
  "entries_ok p s h as \<longleftrightarrow>
     distinct as \<and> list_all is_address as \<and> length as < 2 ^ 32
     \<and> a_data s (ct_key p h) = (if as = [] then [] else Uint32ToBytes (word_of_nat (length as)))
     \<and> (\<forall>i<length as. a_data s (rv_key p h (word_of_nat i)) = as ! i)
     \<and> (\<forall>a. is_address a \<longrightarrow> (a_data s (no_key p h a) = [] \<longleftrightarrow> a \<notin> set as))
     \<and> (\<forall>a. is_address a \<longrightarrow> a \<notin> set as \<longrightarrow> a_data s (lk_key p h a) = [])"

definition locked_inv :: "vault \<Rightarrow> absctx \<Rightarrow> (u32 \<Rightarrow> address list) \<Rightarrow> bool" where
  "locked_inv p s L \<longleftrightarrow> (\<forall>h. entries_ok p s h (L h)) \<and> (\<forall>a. is_address a \<longrightarrow> locked_sum p s a = (\<Sum>h\<in>UNIV. locked p s h a))"

section \<open>Adding\<close>

lemma LockedBalance_eq: "LockedBalance p a h = cbind (ctw_ProcessData (v_pid p) (toLockedBalanceKey h a)) (\<lambda>bs. cret (NewAmountFromBytes bs))"
  unfolding LockedBalance_def read_amount ..

lemma TotalLocked_eq: "TotalLockedBalanceByAddress p a = cbind (ctw_AccountData (v_pid p) a tagLockedBalanceSum) (\<lambda>bs. cret (NewAmountFromBytes bs))"
  unfolding TotalLockedBalanceByAddress_def read_amount ..

lemma Uint32ToBytes_nonempty [simp]: "Uint32ToBytes v \<noteq> []"
  using length_UintToBytes(2) [of v] by (metis list.size(3) zero_neq_numeral)

lemma BytesToUint32_ToBytes_nil [simp]: "BytesToUint32 (Uint32ToBytes v) = Inr v"
  using BytesToUint32_ToBytes [of v "[]"] by simp

lemma is_address_nonempty: "is_address a \<Longrightarrow> a \<noteq> []"
  by (auto simp: is_address_def AddressSize_def)

definition new_entry :: "vault \<Rightarrow> u32 \<Rightarrow> address \<Rightarrow> address list \<Rightarrow> absctx \<Rightarrow> absctx" where
  "new_entry p h a as s = (if a \<in> set as then s else
     set_data (ct_key p h) (Uint32ToBytes (word_of_nat (length as) + 1))
       (set_data (rv_key p h (word_of_nat (length as))) a
         (set_data (no_key p h a) (Uint32ToBytes (word_of_nat (length as))) s)))"

definition lock_more :: "vault \<Rightarrow> u32 \<Rightarrow> address \<Rightarrow> address list \<Rightarrow> amount \<Rightarrow> absctx \<Rightarrow> absctx" where
  "lock_more p h a as am s = set_data (su_key p a) (amount_Bytes (locked_sum p s a + am))
     (set_data (lk_key p h a) (amount_Bytes (locked p s h a + am)) (new_entry p h a as s))"

lemma AddLockedBalance_post:
  assumes "ctx_wf ctx" "is_address a" "0 \<le> am" "entries_ok p (absc ctx) h as"
  shows "post (AddLockedBalance p a h am) ctx (\<lambda>r c. r = Inr () \<and> ctx_wf c \<and> has_view c = has_view ctx
     \<and> absc c = lock_more p h a as am (absc ctx))"
proof -
  have no: "a_data (absc ctx) (no_key p h a) = [] \<longleftrightarrow> a \<notin> set as"
    and ct: "a_data (absc ctx) (ct_key p h) = (if as = [] then [] else Uint32ToBytes (word_of_nat (length as)))"
    using assms(2,4) by (simp_all add: entries_ok_def)
  have neg: "\<not> amount_Less am (NewCoinAmount 0 0)" using assms(3) by simp
  show ?thesis
    unfolding AddLockedBalance_def Let_def LockedBalance_eq TotalLocked_eq if_not_P [OF neg]
    using assms(1,2) no ct
    by (intro post_intros) (auto simp: after_def locked_def locked_sum_def new_entry_def lock_more_def split: if_splits)
qed

lemma of_nat_32_eq [simp]: "i < 2 ^ 32 \<Longrightarrow> j < 2 ^ 32 \<Longrightarrow> (word_of_nat i :: u32) = word_of_nat j \<longleftrightarrow> i = j"
  by (simp add: word_of_nat_eq_iff take_bit_nat_eq_self)

lemma entries_ok_add:
  assumes "entries_ok p s h as" "is_address a" "length as < 2 ^ 32 - 1"
  shows "entries_ok p (lock_more p h a as am s) h (if a \<in> set as then as else as @ [a])"
proof (cases "a \<in> set as")
  case True
  then show ?thesis using assms by (auto simp: entries_ok_def lock_more_def new_entry_def)
next
  case False
  have "(word_of_nat i :: u32) \<noteq> word_of_nat (length as)" if "i < length as" for i
    using that assms(3) by simp
  then show ?thesis
    using assms False by (auto simp: entries_ok_def lock_more_def new_entry_def nth_append less_Suc_eq list_all_iff add.commute)
qed

lemma entries_ok_other:
  assumes "entries_ok p s h' bs" "h' \<noteq> h"
  shows "entries_ok p (lock_more p h a as am s) h' bs"
  using assms by (auto simp: entries_ok_def lock_more_def new_entry_def)

lemma locked_after_add:
  assumes "0 \<le> am"
  shows "locked p (lock_more p h a as am s) h' c = locked p s h' c + (if h' = h \<and> c = a then am else 0)"
    "locked_sum p (lock_more p h a as am s) c = locked_sum p s c + (if c = a then am else 0)"
    "bal p (lock_more p h a as am s) c = bal p s c"
  using assms by (auto simp: lock_more_def locked_def locked_sum_def bal_def new_entry_def)

text \<open>\<open>AddLockedBalance\<close> keeps the invariant and adds the amount to one entry and one sum.\<close>

lemma AddLockedBalance_inv:
  assumes "ctx_wf ctx" "is_address a" "0 \<le> am" "locked_inv p (absc ctx) L" "length (L h) < 2 ^ 32 - 1"
  shows "post (AddLockedBalance p a h am) ctx (\<lambda>r c. r = Inr () \<and> ctx_wf c \<and> has_view c = has_view ctx
     \<and> (\<forall>b. bal p (absc c) b = bal p (absc ctx) b) \<and> locked_inv p (absc c) (L(h := if a \<in> set (L h) then L h else L h @ [a]))
     \<and> (\<forall>h' b. locked p (absc c) h' b = locked p (absc ctx) h' b + (if h' = h \<and> b = a then am else 0)))"
proof -
  have en: "entries_ok p (absc ctx) h' (L h')" for h' using assms(4) by (simp add: locked_inv_def)
  have "locked_inv p (lock_more p h a (L h) am (absc ctx)) (L(h := if a \<in> set (L h) then L h else L h @ [a]))"
    using entries_ok_add [OF en assms(2,5)] entries_ok_other [OF en] assms(4)
    by (auto simp: locked_inv_def locked_after_add [OF assms(3)] sum.distrib)
  then show ?thesis
    by - (rule post_mono [OF AddLockedBalance_post [OF assms(1-3) en]],
        auto simp: locked_after_add [OF assms(3)])
qed

section \<open>Paying out\<close>

lemma go_copy_address: "is_address a \<Longrightarrow> go_copy (replicate AddressSize 0) a = a"
  by (simp add: is_address_def go_copy_all)

text \<open>Clearing the entries of the addresses \<open>f i\<close> numbered \<open>i\<close>.\<close>

definition cleared :: "vault \<Rightarrow> u32 \<Rightarrow> (u32 \<Rightarrow> address) \<Rightarrow> u32 set \<Rightarrow> absctx \<Rightarrow> absctx" where
  "cleared p h f I s = s\<lparr>a_data := (\<lambda>k. if \<exists>i\<in>I. k = lk_key p h (f i) \<or> k = no_key p h (f i) \<or> k = rv_key p h i then [] else a_data s k)\<rparr>"

lemma cleared_step:
  "cleared p h f I (s\<lparr>a_data := (a_data s)(lk_key p h (f i) := [], no_key p h (f i) := [], rv_key p h i := [])\<rparr>) = cleared p h f (insert i I) s"
  by (auto simp: cleared_def fun_eq_iff)

lemma update_fresh: "k \<notin> fst ` set xs \<Longrightarrow> AList.update k v xs = xs @ [(k, v)]"
  by (induction xs) auto

lemma flush_loop_post:
  assumes "ctx_wf ctx" "distinct is" "inj_on f (set is)" "\<And>i. i \<in> set is \<Longrightarrow> is_address (f i)"
    and "\<And>i. i \<in> set is \<Longrightarrow> a_data (absc ctx) (rv_key p h i) = f i"
    and "\<And>i. i \<in> set is \<Longrightarrow> f i \<notin> fst ` set m"
  shows "post (flush_loop p h is m) ctx (\<lambda>r c. r = Inr (m @ map (\<lambda>i. (f i, locked p (absc ctx) h (f i))) is)
     \<and> ctx_wf c \<and> has_view c = has_view ctx \<and> absc c = cleared p h f (set is) (absc ctx))"
  using assms
proof (induction "is" arbitrary: ctx m)
  case Nil
  then show ?case by (simp add: post_def ctx_simps cleared_def)
next
  case (Cons i js)
  have i: "is_address (f i)" "a_data (absc ctx) (rv_key p h i) = f i" "f i \<notin> fst ` set m" "i \<notin> set js" "f i \<notin> f ` set js"
    using Cons.prems by (auto simp: inj_on_def)
  let ?s1 = "set_data (rv_key p h i) [] (set_data (no_key p h (f i)) [] (set_data (lk_key p h (f i)) [] (absc ctx)))"
  let ?m = "m @ [(f i, locked p (absc ctx) h (f i))]"
  have rest: "post (flush_loop p h js ?m) c (\<lambda>r d. r = Inr (m @ map (\<lambda>i. (f i, locked p (absc ctx) h (f i))) (i # js))
     \<and> ctx_wf d \<and> has_view d = has_view ctx \<and> absc d = cleared p h f (set (i # js)) (absc ctx))"
    if "ctx_wf c" "has_view c = has_view ctx" "absc c = ?s1" for c
  proof -
    have "post (flush_loop p h js ?m) c (\<lambda>r d. r = Inr (?m @ map (\<lambda>i. (f i, locked p (absc c) h (f i))) js)
        \<and> ctx_wf d \<and> has_view d = has_view c \<and> absc d = cleared p h f (set js) (absc c))"
      using that i Cons.prems by (intro Cons.IH) (auto simp: inj_on_def)
    moreover have "locked p (absc c) h (f j) = locked p (absc ctx) h (f j)" if "j \<in> set js" for j
    proof -
      have "f j \<noteq> f i" using that i(5) by (metis imageI)
      then show ?thesis using \<open>absc c = ?s1\<close> by (simp add: locked_def)
    qed
    ultimately show ?thesis
      using that by (elim post_mono) (simp add: cleared_step)
  qed
  have "post (flush_loop p h (i # js) m) ctx (\<lambda>r d. r = Inr (m @ map (\<lambda>i. (f i, locked p (absc ctx) h (f i))) (i # js))
     \<and> ctx_wf d \<and> has_view d = has_view ctx \<and> absc d = cleared p h f (set (i # js)) (absc ctx))"
    unfolding flush_loop.simps Let_def LockedBalance_eq
    using Cons.prems(1) i(1-3)
    by (intro post_intros) (simp_all add: after_def go_copy_address update_fresh locked_def rest [unfolded locked_def, simplified])
  then show ?case .
qed

definition flushed :: "vault \<Rightarrow> u32 \<Rightarrow> address list \<Rightarrow> absctx \<Rightarrow> absctx" where
  "flushed p h as s = (if as = [] then s else
     set_data (ct_key p h) [] (cleared p h (\<lambda>i. as ! unat i) (word_of_nat ` {..<length as}) s))"

lemma entry_numbers:
  fixes as :: "address list"
  assumes "distinct as" "length as < 2 ^ 32"
  defines "is \<equiv> map word_of_nat [0..<length as] :: u32 list" and "f \<equiv> \<lambda>i :: u32. as ! unat i"
  shows "distinct is" "inj_on f (set is)" "map f is = as" "set is = word_of_nat ` {..<length as}"
    "i \<le> length as \<Longrightarrow> unat (word_of_nat i :: u32) = i"
proof -
  show un: "unat (word_of_nat i :: u32) = i" if "i \<le> length as" for i using that assms(2) by (simp add: unat_of_nat)
  show "distinct is" using assms(2) by (auto simp: is_def distinct_map inj_on_def)
  show "map f is = as" using un by (intro nth_equalityI) (simp_all add: is_def f_def)
  then show "inj_on f (set is)" using assms(1) by (metis distinct_map)
qed (auto simp: is_def)

lemma flushLockedBalanceMap_post:
  assumes "ctx_wf ctx" "entries_ok p (absc ctx) h as"
  shows "post (flushLockedBalanceMap p h) ctx (\<lambda>r c. r = Inr (map (\<lambda>a. (a, locked p (absc ctx) h a)) as)
     \<and> ctx_wf c \<and> has_view c = has_view ctx \<and> absc c = flushed p h as (absc ctx))"
proof -
  have as: "distinct as" "list_all is_address as" "length as < 2 ^ 32"
    "a_data (absc ctx) (ct_key p h) = (if as = [] then [] else Uint32ToBytes (word_of_nat (length as)))"
    "\<And>i. i < length as \<Longrightarrow> a_data (absc ctx) (rv_key p h (word_of_nat i)) = as ! i"
    using assms(2) by (auto simp: entries_ok_def)
  let ?is = "map word_of_nat [0..<length as] :: u32 list" and ?f = "\<lambda>i :: u32. as ! unat i"
  note idx = entry_numbers(1-4) [OF as(1,3)] and un = entry_numbers(5) [OF as(1,3)]
  have loop: "post (flush_loop p h ?is []) c (\<lambda>r d. r = Inr (map (\<lambda>a. (a, locked p (absc c) h a)) as)
      \<and> ctx_wf d \<and> has_view d = has_view c \<and> absc d = cleared p h ?f (word_of_nat ` {..<length as}) (absc c))"
    if "ctx_wf c" "absc c = absc ctx" for c
  proof -
    have "map (\<lambda>i. (?f i, locked p (absc c) h (?f i))) ?is = map (\<lambda>a. (a, locked p (absc c) h a)) as"
      using arg_cong [OF idx(3), of "map (\<lambda>a. (a, locked p (absc c) h a))"] by (simp add: comp_def)
    moreover have "post (flush_loop p h ?is []) c (\<lambda>r d. r = Inr ([] @ map (\<lambda>i. (?f i, locked p (absc c) h (?f i))) ?is)
      \<and> ctx_wf d \<and> has_view d = has_view c \<and> absc d = cleared p h ?f (set ?is) (absc c))"
      using that as un by (intro flush_loop_post idx(1,2)) (auto simp: list_all_iff)
    ultimately show ?thesis using idx(4) by simp
  qed
  show ?thesis
  proof (cases "as = []")
    case True
    then show ?thesis
      unfolding flushLockedBalanceMap_def using assms(1) as(4)
      by (intro post_intros) (auto simp: after_def flushed_def)
  next
    case False
    have last: "post (cbind (flush_loop p h ?is []) (\<lambda>m. cbind (ctw_SetProcessData (v_pid p) (toLockedBalanceCountKey h) []) (\<lambda>_. cret m))) c
        (\<lambda>r d. r = Inr (map (\<lambda>a. (a, locked p (absc ctx) h a)) as) \<and> ctx_wf d \<and> has_view d = has_view ctx
           \<and> absc d = flushed p h as (absc ctx))"
      if "ctx_wf c" "absc c = absc ctx" "has_view c = has_view ctx" for c
      using loop [OF that(1,2)] that False unfolding post_def by (auto simp: ctx_simps flushed_def)
    show ?thesis
      unfolding flushLockedBalanceMap_def using assms(1) as(4) False un
      by (intro post_intros) (auto simp: after_def last)
  qed
qed

lemma flushed_views:
  assumes "entries_ok p s h as"
  shows "is_address a \<Longrightarrow> locked p (flushed p h as s) h' a = (if h' = h then 0 else locked p s h' a)"
    "a_data (flushed p h as s) (AKey a q n) = a_data s (AKey a q n)"
    "entries_ok p (flushed p h as s) h []" "h' \<noteq> h \<Longrightarrow> entries_ok p s h' bs \<Longrightarrow> entries_ok p (flushed p h as s) h' bs"
proof -
  have as: "distinct as" "length as < 2 ^ 32" "as = [] \<Longrightarrow> a_data s (ct_key p h) = []"
    "\<And>a. is_address a \<Longrightarrow> a \<notin> set as \<Longrightarrow> a_data s (no_key p h a) = [] \<and> a_data s (lk_key p h a) = []"
    using assms by (auto simp: entries_ok_def)
  have cl: "a_data (cleared p h (\<lambda>i. as ! unat i) (word_of_nat ` {..<length as}) s) k =
     (if (\<exists>a\<in>set as. k = lk_key p h a \<or> k = no_key p h a) \<or> (\<exists>i<length as. k = rv_key p h (word_of_nat i)) then [] else a_data s k)" for k
    using entry_numbers(5) [OF as(1,2)] by (auto simp: cleared_def in_set_conv_nth)
  show "locked p (flushed p h as s) h' a = (if h' = h then 0 else locked p s h' a)" if "is_address a"
    using that as(4) [OF that] by (auto simp: locked_def flushed_def cl)
  show "a_data (flushed p h as s) (AKey a q n) = a_data s (AKey a q n)"
    by (simp add: flushed_def cl)
  show "entries_ok p (flushed p h as s) h []"
    using as by (auto simp: entries_ok_def flushed_def cl)
  show "entries_ok p (flushed p h as s) h' bs" if "h' \<noteq> h" "entries_ok p s h' bs"
    using that by (auto simp: entries_ok_def flushed_def cl)
qed

text \<open>Paying out one address: from the locked sum to the balance.\<close>

lemma unlock_one_post:
  assumes "ctx_wf ctx" "is_address a" "has_view ctx a = Inr True" "0 \<le> am" "am \<le> locked_sum p (absc ctx) a"
  shows "post (unlock_one p a am) ctx (\<lambda>r c. r = Inr () \<and> ctx_wf c \<and> has_view c = has_view ctx
     \<and> absc c = set_data (su_key p a) (amount_Bytes (locked_sum p (absc ctx) a - am))
         (set_data (ba_key p a) (amount_Bytes (bal p (absc ctx) a + am)) (absc ctx)))"
proof -
  have "unlock_one p a am ctx = cbind (AddBalance p a am) (\<lambda>_. cbind (TotalLockedBalanceByAddress p a) (\<lambda>total.
      if \<not> amount_IsZero (total - am) then ctw_SetAccountData (v_pid p) a tagLockedBalanceSum (amount_Bytes (total - am))
      else ctw_SetAccountData (v_pid p) a tagLockedBalanceSum [])) ctx"
    using assms(3) by (simp add: unlock_one_def HasAccount_simps [OF assms(1)])
  moreover have neg: "\<not> amount_Less am (NewCoinAmount 0 0)" using assms(4) by simp
  have "post (cbind (AddBalance p a am) (\<lambda>_. cbind (TotalLockedBalanceByAddress p a) (\<lambda>total.
      if \<not> amount_IsZero (total - am) then ctw_SetAccountData (v_pid p) a tagLockedBalanceSum (amount_Bytes (total - am))
      else ctw_SetAccountData (v_pid p) a tagLockedBalanceSum []))) ctx
    (\<lambda>r c. r = Inr () \<and> ctx_wf c \<and> has_view c = has_view ctx
     \<and> absc c = set_data (su_key p a) (amount_Bytes (locked_sum p (absc ctx) a - am))
         (set_data (ba_key p a) (amount_Bytes (bal p (absc ctx) a + am)) (absc ctx)))"
    unfolding AddBalance_def Let_def if_not_P [OF neg] Balance_eq TotalLocked_eq
    using assms(1,2,5) by (intro post_intros) (auto simp: after_def locked_sum_def bal_def)
  ultimately show ?thesis by (simp add: post_def)
qed

definition amt_of :: "(address \<times> amount) list \<Rightarrow> address \<Rightarrow> amount" where
  "amt_of m a = (case map_of m a of None \<Rightarrow> 0 | Some am \<Rightarrow> am)"

lemma unlock_all_post:
  assumes "ctx_wf ctx" "distinct (map fst m)"
    and "\<And>a am. (a, am) \<in> set m \<Longrightarrow> is_address a \<and> has_view ctx a = Inr True \<and> 0 \<le> am \<and> am \<le> locked_sum p (absc ctx) a"
  shows "post (unlock_all p m) ctx (\<lambda>r c. r = Inr () \<and> ctx_wf c \<and> has_view c = has_view ctx
     \<and> (\<forall>a. bal p (absc c) a = bal p (absc ctx) a + amt_of m a) \<and> (\<forall>a. locked_sum p (absc c) a = locked_sum p (absc ctx) a - amt_of m a)
     \<and> (\<forall>q n. a_data (absc c) (PKey q n) = a_data (absc ctx) (PKey q n)))"
  using assms
proof (induction m arbitrary: ctx)
  case Nil
  then show ?case by (simp add: post_def ctx_simps amt_of_def)
next
  case (Cons x m)
  obtain a am where x: "x = (a, am)" by (cases x)
  have a: "is_address a" "has_view ctx a = Inr True" "0 \<le> am" "am \<le> locked_sum p (absc ctx) a" "a \<notin> fst ` set m"
    using Cons.prems(2) Cons.prems(3) [of a am] by (auto simp: x)
  obtain c where c: "unlock_one p a am ctx = (Inr (), c)" "ctx_wf c" "has_view c = has_view ctx"
    "absc c = set_data (su_key p a) (amount_Bytes (locked_sum p (absc ctx) a - am))
         (set_data (ba_key p a) (amount_Bytes (bal p (absc ctx) a + am)) (absc ctx))"
    using unlock_one_post [OF Cons.prems(1) a(1-4)] unfolding post_def by (metis prod.collapse)
  have v: "bal p (absc c) b = bal p (absc ctx) b + (if b = a then am else 0)"
    "locked_sum p (absc c) b = locked_sum p (absc ctx) b - (if b = a then am else 0)"
    "a_data (absc c) (PKey q n) = a_data (absc ctx) (PKey q n)" for b q n
    using a(3,4) by (auto simp: c(4) bal_def locked_sum_def)
  have "post (unlock_all p m) c (\<lambda>r d. r = Inr () \<and> ctx_wf d \<and> has_view d = has_view c
     \<and> (\<forall>a. bal p (absc d) a = bal p (absc c) a + amt_of m a) \<and> (\<forall>a. locked_sum p (absc d) a = locked_sum p (absc c) a - amt_of m a)
     \<and> (\<forall>q n. a_data (absc d) (PKey q n) = a_data (absc c) (PKey q n)))"
  proof (rule Cons.IH [OF c(2)])
    show "distinct (map fst m)" using Cons.prems(2) by simp
    fix b bm assume "(b, bm) \<in> set m"
    moreover from this have "b \<noteq> a" using a(5) by force
    ultimately show "is_address b \<and> has_view c b = Inr True \<and> 0 \<le> bm \<and> bm \<le> locked_sum p (absc c) b"
      using Cons.prems(3) [of b bm] by (simp add: c(3) v)
  qed
  moreover have "amt_of (x # m) b = (if b = a then am else 0) + amt_of m b" for b
  proof -
    have "map_of m a = None" using a(5) by (simp add: map_of_eq_None_iff)
    then show ?thesis by (simp add: amt_of_def x)
  qed
  ultimately show ?case
    using c(1,3) by (simp add: x post_def ctx_simps cbind_def v)
qed

lemma amt_of_perm:
  assumes "mset m' = mset m" "distinct (map fst m)"
  shows "amt_of m' a = amt_of m a" "distinct (map fst m')"
proof -
  have mf: "mset (map fst m') = mset (map fst m)" using assms(1) by (simp only: mset_map)
  then show d: "distinct (map fst m')" using assms(2) mset_eq_imp_distinct_iff by blast
  have "map_of m' = map_of m" using map_of_inject_set [OF d assms(2)] mset_eq_setD [OF assms(1)] by blast
  then show "amt_of m' a = amt_of m a" by (simp add: amt_of_def)
qed

lemma amt_of_list: "amt_of (map (\<lambda>a. (a, f a)) as) a = (if a \<in> set as then f a else 0)"
proof -
  have "map_of (map (\<lambda>a. (a, f a)) as) a = (if a \<in> set as then Some (f a) else None)" by (induction as) auto
  then show ?thesis by (simp add: amt_of_def)
qed

text \<open>
  C15. At the end of the block of height \<open>h\<close> every account gets exactly what was locked for it until \<open>h\<close>. If the
  entries are consistent and the accounts with entries at \<open>h\<close> still exist, the step succeeds in whatever order
  the map is visited; balances grow by the locked amounts, the entries of \<open>h\<close> are gone, those of other heights
  stay, and the entries are consistent again, so nothing is ever paid twice.
\<close>

theorem locked_paid_out:
  assumes "ctx_wf ctx" "locked_inv p (absc ctx) L" "\<And>m. mset (order m) = mset m"
    and "\<And>a. a \<in> set (L h) \<Longrightarrow> has_view ctx a = Inr True"
    and "vault_AfterExecuteTransactions order p h ctx = (r, ctx')"
  shows "r = Inr () \<and> locked_inv p (absc ctx') (L(h := []))
    \<and> (\<forall>a. is_address a \<longrightarrow> bal p (absc ctx') a = bal p (absc ctx) a + locked p (absc ctx) h a
         \<and> (\<forall>h'. locked p (absc ctx') h' a = (if h' = h then 0 else locked p (absc ctx) h' a)))"
proof -
  let ?as = "L h" and ?s = "absc ctx" let ?m = "map (\<lambda>a. (a, locked p ?s h a)) ?as"
  have en: "entries_ok p ?s h' (L h')" and su: "is_address a \<Longrightarrow> locked_sum p ?s a = (\<Sum>h\<in>UNIV. locked p ?s h a)" for h' a
    using assms(2) by (simp_all add: locked_inv_def)
  have as: "distinct ?as" "\<And>a. a \<in> set ?as \<Longrightarrow> is_address a" "\<And>a. is_address a \<Longrightarrow> a \<notin> set ?as \<Longrightarrow> locked p ?s h a = 0"
    using en [of h] by (auto simp: entries_ok_def list_all_iff locked_def)
  obtain c where c: "flushLockedBalanceMap p h ctx = (Inr ?m, c)" "ctx_wf c" "has_view c = has_view ctx" "absc c = flushed p h ?as ?s"
    using flushLockedBalanceMap_post [OF assms(1) en] unfolding post_def by (metis prod.collapse)
  note fv = flushed_views [OF en [of h]]
  have lk: "0 \<le> locked p ?s h' a" for h' a by (simp add: locked_def)
  have le: "locked p ?s h a \<le> locked_sum p ?s a" if "is_address a" for a
    using su [OF that] lk member_le_sum [of h UNIV "\<lambda>h. locked p ?s h a"] by simp
  have dm: "distinct (map fst ?m)" using as(1) by (simp add: comp_def)
  note perm = amt_of_perm [OF assms(3) dm]
  have sums: "locked_sum p (flushed p h ?as ?s) a = locked_sum p ?s a" "bal p (flushed p h ?as ?s) a = bal p ?s a" for a
    by (simp_all add: locked_sum_def bal_def fv(2))
  have "post (unlock_all p (order ?m)) c (\<lambda>r d. r = Inr () \<and> ctx_wf d \<and> has_view d = has_view c
     \<and> (\<forall>a. bal p (absc d) a = bal p (absc c) a + amt_of (order ?m) a) \<and> (\<forall>a. locked_sum p (absc d) a = locked_sum p (absc c) a - amt_of (order ?m) a)
     \<and> (\<forall>q n. a_data (absc d) (PKey q n) = a_data (absc c) (PKey q n)))"
    using perm(2) mset_eq_setD [OF assms(3) [of ?m]] assms(4) as(2) lk le
    by (intro unlock_all_post [OF c(2)]) (auto simp: c(3,4) sums)
  moreover have "unlock_all p (order ?m) c = (r, ctx')"
    using assms(5) by (simp add: vault_AfterExecuteTransactions_def cbind_def c(1))
  ultimately have r: "r = Inr ()" "ctx_wf ctx'"
    "\<And>a. bal p (absc ctx') a = bal p ?s a + (if a \<in> set ?as then locked p ?s h a else 0)"
    "\<And>a. locked_sum p (absc ctx') a = locked_sum p ?s a - (if a \<in> set ?as then locked p ?s h a else 0)"
    "\<And>q n. a_data (absc ctx') (PKey q n) = a_data (flushed p h ?as ?s) (PKey q n)"
    by (simp_all add: post_def perm(1) amt_of_list sums c(4))
  have lk': "locked p (absc ctx') h' a = (if h' = h then 0 else locked p ?s h' a)" if "is_address a" for h' a
    using fv(1) [OF that, of h'] by (simp add: locked_def r(5))
  have "entries_ok p (absc ctx') h' ((L(h := [])) h')" for h'
    using fv(3) fv(4) [OF _ en, of h'] by (cases "h' = h") (simp_all add: entries_ok_def r(5))
  moreover have "locked_sum p (absc ctx') a = (\<Sum>h'\<in>UNIV. locked p (absc ctx') h' a)" if "is_address a" for a
    using sum_change [of UNIV h "\<lambda>h'. locked p (absc ctx') h' a" "\<lambda>h'. locked p ?s h' a"] su [OF that] lk' [OF that] as(3) [OF that]
    by (simp add: r(4))
  ultimately show ?thesis using r(1,3) lk' as(3) by (auto simp: locked_inv_def)
qed

theorem locked_paid_out_witness:
  "let ctx = NewContext (emptyLoader\<lparr>ld_HasAccount := (\<lambda>_. Inr True)\<rparr>);
       ctx1 = snd (AddLockedBalance vault0 (NewAddress 1 0 0) 5 7 ctx)
   in bal vault0 (absc (snd (vault_AfterExecuteTransactions rev vault0 5 ctx1))) (NewAddress 1 0 0) = 7"
proof -
  let ?ctx = "NewContext (emptyLoader\<lparr>ld_HasAccount := (\<lambda>_. Inr True)\<rparr>)" and ?a = "NewAddress 1 0 0"
  let ?ctx1 = "snd (AddLockedBalance vault0 ?a 5 7 ?ctx)" let ?L = "(\<lambda>_. [])(5 := [?a])"
  have data: "a_data (absc ?ctx) k = []" for k
    by (cases k) (simp_all add: absc_def abs_of_def NewContext_def v_data_def f_data_def NewContextData_def newContextCache_def emptyLoader_def)
  then have "locked_inv vault0 (absc ?ctx) (\<lambda>_. [])"
    by (simp add: locked_inv_def entries_ok_def locked_sum_def locked_def)
  from AddLockedBalance_inv [where a = ?a and am = 7 and h = 5, OF NewContext_wf is_address_NewAddress _ this] data
  have c1: "ctx_wf ?ctx1" "has_view ?ctx1 = has_view ?ctx" "locked_inv vault0 (absc ?ctx1) ?L"
    "locked vault0 (absc ?ctx1) 5 ?a = 7" "bal vault0 (absc ?ctx1) ?a = 0"
    by (auto simp: post_def locked_def bal_def)
  moreover have "has_view ?ctx ?a = Inr True"
    by (simp add: has_view_def NewContext_def ctd_HasAccount.simps cc_HasAccount_def NewContextData_def newContextCache_def)
  ultimately show ?thesis
    using locked_paid_out [OF c1(1,3), of rev 5, OF _ _ prod.collapse [symmetric]] by (simp add: Let_def)
qed

end
