(* ===== verification/Pile.thy ===== *)
theory Pile
  imports Codec Hashing
begin

text \<open>
  \<open>core/pile\<close>: the append-only block log. A pile is one file: a header with the heights, a table of end
  offsets, and the entries, each a hash, the number of its datas, their compressed sizes and the compressed
  datas. Compression (\<open>compress/gzip\<close>) is a parameter. A file is its size and its bytes; a read past the
  end fails with \<open>EOF\<close> and a read across the end leaves zeros, as \<open>os.File.Read\<close> into a fresh slice does.
\<close>

section \<open>Files\<close>

record osfile =
  f_size :: nat
  f_bytes :: "nat \<Rightarrow> byte"

abbreviation ErrEOF :: error where "ErrEOF \<equiv> LibError 1"
abbreviation ErrSeek :: error where "ErrSeek \<equiv> LibError 2"

definition file_truncate :: "nat \<Rightarrow> osfile \<Rightarrow> osfile" where
  "file_truncate n f = \<lparr>f_size = n, f_bytes = (\<lambda>i. if i < n \<and> i < f_size f then f_bytes f i else 0)\<rparr>"

definition empty_file :: osfile where "empty_file = \<lparr>f_size = 0, f_bytes = (\<lambda>_. 0)\<rparr>"

text \<open>\<open>Seek(off, 0)\<close> followed by \<open>Write\<close> or \<open>Read\<close>.\<close>

definition file_write :: "int \<Rightarrow> bytes \<Rightarrow> osfile \<Rightarrow> osfile res" where
  "file_write off bs f =
     (if off < 0 then Inl ErrSeek
      else if bs = [] then Inr f
      else Inr \<lparr>f_size = max (f_size f) (nat off + length bs),
                f_bytes = (\<lambda>i. if nat off \<le> i \<and> i < nat off + length bs then bs ! (i - nat off) else f_bytes f i)\<rparr>)"

definition file_read :: "int \<Rightarrow> nat \<Rightarrow> osfile \<Rightarrow> bytes res" where
  "file_read off n f =
     (if off < 0 then Inl ErrSeek
      else if n = 0 then Inr []
      else if f_size f \<le> nat off then Inl ErrEOF
      else Inr (map (\<lambda>i. if i < f_size f then f_bytes f i else 0) [nat off..<nat off + n]))"

section \<open>Piles\<close>

definition ChunkUnit :: u32 where "ChunkUnit = 172800 * 30"
definition ChunkMetaSize :: int where "ChunkMetaSize = 256"
definition ChunkHeaderSize :: int where "ChunkHeaderSize = uint ChunkUnit * 8 + ChunkMetaSize"

record pile =
  p_file :: osfile
  HeadHeight :: u32
  BeginHeight :: u32
  GenHash :: hash256

text \<open>The file is opened with \<open>O_TRUNC\<close>, so it is empty and its header is always written.\<close>

definition NewPile :: "hash256 \<Rightarrow> u32 \<Rightarrow> pile res" where
  "NewPile GenHash0 BaseHeight =
     (let f = file_truncate (nat ChunkHeaderSize) empty_file;
          meta = replicate (nat ChunkMetaSize) 0
      in if BaseHeight mod ChunkUnit \<noteq> 0 then Inl ErrInvalidChunkBeginHeight
         else
           let meta = copy_at 0 (Uint32ToBytes BaseHeight) meta;
               meta = copy_at 4 (Uint32ToBytes BaseHeight) meta;
               meta = copy_at 8 (Uint32ToBytes BaseHeight) meta;
               meta = copy_at 12 (Uint32ToBytes BaseHeight) meta;
               meta = copy_at 16 (Uint32ToBytes (BaseHeight + ChunkUnit)) meta;
               meta = copy_at 20 GenHash0 meta
           in bind_res (file_write 0 meta f) (\<lambda>f.
              Inr \<lparr>p_file = f, HeadHeight = BaseHeight, BeginHeight = BaseHeight, GenHash = GenHash0\<rparr>))"

text \<open>The repair of the three copies of the head height after a crash.\<close>

definition repair_heads :: "u32 \<Rightarrow> u32 \<Rightarrow> u32 \<Rightarrow> osfile \<Rightarrow> (u32 \<times> osfile) res" where
  "repair_heads Head CheckA CheckB f =
     (if Head \<noteq> CheckA \<or> CheckA \<noteq> CheckB then
        if CheckA = CheckB then
          bind_res (file_write 0 (Uint32ToBytes CheckA) f) (\<lambda>f. Inr (CheckA, f))
        else if Head = CheckB + 1 then
          bind_res (file_write 4 (Uint32ToBytes Head) f) (\<lambda>f.
          bind_res (file_write 8 (Uint32ToBytes Head) f) (\<lambda>f. Inr (Head, f)))
        else if Head = CheckA then
          bind_res (file_write 8 (Uint32ToBytes Head) f) (\<lambda>f. Inr (Head, f))
        else Inl ErrHeightCrashed
      else Inr (Head, f))"

definition LoadPile :: "osfile \<Rightarrow> pile res" where
  "LoadPile f =
     bind_res (file_read 0 (nat ChunkMetaSize) f) (\<lambda>meta.
     bind_res (BytesToUint32 meta) (\<lambda>Head.
     bind_res (BytesToUint32 (drop 4 meta)) (\<lambda>CheckA.
     bind_res (BytesToUint32 (drop 8 meta)) (\<lambda>CheckB.
     bind_res (BytesToUint32 (drop 12 meta)) (\<lambda>Begin.
     bind_res (BytesToUint32 (drop 16 meta)) (\<lambda>EndH.
     let Gen = go_copy (replicate Hash256Size 0) (drop 20 meta) in
     if Begin mod ChunkUnit \<noteq> 0 then Inl ErrInvalidChunkBeginHeight
     else if Begin + ChunkUnit \<noteq> EndH then Inl ErrInvalidChunkEndHeight
     else
       bind_res (repair_heads Head CheckA CheckB f) (\<lambda>(Head, f).
       let FromHeight = Head - Begin in
       bind_res (if 0 < FromHeight then
                   bind_res (file_read (ChunkMetaSize + (uint FromHeight - 1) * 8) 8 f) (\<lambda>bs.
                   bind_res (BytesToUint64 bs) (\<lambda>w. Inr (sint w)))
                 else Inr ChunkHeaderSize) (\<lambda>Offset.
       if int (f_size f) < Offset then Inl ErrInvalidFileSize
       else Inr \<lparr>p_file = f, HeadHeight = Head, BeginHeight = Begin, GenHash = Gen\<rparr>))))))))"

text \<open>The offset where the entry after \<open>n\<close> entries starts.\<close>

definition entry_offset :: "int \<Rightarrow> osfile \<Rightarrow> int res" where
  "entry_offset n f =
     (if 0 < n then
        bind_res (file_read (ChunkMetaSize + (n - 1) * 8) 8 f) (\<lambda>bs.
        bind_res (BytesToUint64 bs) (\<lambda>w. Inr (sint w)))
      else Inr ChunkHeaderSize)"

text \<open>The consecutive writes of an entry at its offset.\<close>

definition entry_bytes :: "(bytes \<Rightarrow> bytes) \<Rightarrow> hash256 \<Rightarrow> bytes list \<Rightarrow> bytes" where
  "entry_bytes gz DataHash Datas =
     (let zdatas = map gz Datas in
      DataHash @ [word_of_nat (length Datas)] @ concat (map (\<lambda>zd. Uint32ToBytes (word_of_nat (length zd))) zdatas) @ concat zdatas)"

definition pile_AppendData :: "(bytes \<Rightarrow> bytes) \<Rightarrow> u32 \<Rightarrow> hash256 \<Rightarrow> bytes list \<Rightarrow> pile \<Rightarrow> pile res" where
  "pile_AppendData gz height DataHash Datas p =
     (if height \<noteq> HeadHeight p + 1 then Inl ErrInvalidAppendHeight
      else
        let FromHeight = HeadHeight p - BeginHeight p in
        bind_res (entry_offset (uint FromHeight) (p_file p)) (\<lambda>Offset.
        bind_res (file_write Offset (entry_bytes gz DataHash Datas) (p_file p)) (\<lambda>f.
        let totalLen = 32 + 1 + 4 * int (length Datas) + sum_list (map (\<lambda>v. int (length (gz v))) Datas) in
        bind_res (file_write (ChunkMetaSize + uint FromHeight * 8) (Uint64ToBytes (word_of_int (Offset + totalLen))) f) (\<lambda>f.
        bind_res (file_write 0 (Uint32ToBytes (HeadHeight p + 1)) f) (\<lambda>f.
        bind_res (file_write 4 (Uint32ToBytes (HeadHeight p + 1)) f) (\<lambda>f.
        bind_res (file_write 8 (Uint32ToBytes (HeadHeight p + 1)) f) (\<lambda>f.
        Inr (p\<lparr>p_file := f, HeadHeight := HeadHeight p + 1\<rparr>))))))))"

definition pile_GetHash :: "u32 \<Rightarrow> pile \<Rightarrow> hash256 res" where
  "pile_GetHash height p =
     (let FromHeight = height - BeginHeight p in
      if BeginHeight p + ChunkUnit < height then Inl ErrInvalidHeight_pile
      else
        bind_res (entry_offset (uint FromHeight - 1) (p_file p)) (\<lambda>Offset.
        bind_res (file_read Offset 32 (p_file p)) (\<lambda>value.
        Inr (go_copy (replicate Hash256Size 0) value))))"

text \<open>\<open>4*lbs[0]\<close> is computed on bytes, so it wraps.\<close>

fun sum_sizes :: "bytes \<Rightarrow> nat \<Rightarrow> nat \<Rightarrow> int res" where
  "sum_sizes zlbs i 0 = Inr 0"
| "sum_sizes zlbs i (Suc n) =
     bind_res (BytesToUint32 (drop (4 * i) zlbs)) (\<lambda>w. bind_res (sum_sizes zlbs (Suc i) n) (\<lambda>r. Inr (uint w + r)))"

definition read_sizes :: "int \<Rightarrow> osfile \<Rightarrow> byte \<Rightarrow> bytes res" where
  "read_sizes Offset f cnt = file_read (Offset + 32 + 1) (unat (4 * cnt)) f"

definition pile_GetData :: "(bytes \<Rightarrow> bytes res) \<Rightarrow> u32 \<Rightarrow> nat \<Rightarrow> pile \<Rightarrow> bytes res" where
  "pile_GetData gunz height index p =
     (let FromHeight = height - BeginHeight p; f = p_file p in
      if BeginHeight p + ChunkUnit < height then Inl ErrInvalidHeight_pile
      else if HeadHeight p < height then Inl ErrInvalidHeight_pile
      else
        bind_res (entry_offset (uint FromHeight - 1) f) (\<lambda>Offset.
        bind_res (file_read (Offset + 32) 1 f) (\<lambda>lbs.
        if unat (lbs ! 0) \<le> index then Inl ErrInvalidDataIndex
        else
          bind_res (read_sizes Offset f (lbs ! 0)) (\<lambda>zlbs.
          bind_res (sum_sizes zlbs 0 index) (\<lambda>skip.
          let zofs = Offset + 32 + 1 + uint (4 * lbs ! 0) + skip in
          bind_res (BytesToUint32 (drop (4 * index) zlbs)) (\<lambda>zsize.
          bind_res (file_read zofs (unat zsize) f) gunz))))))"

fun read_datas :: "(bytes \<Rightarrow> bytes res) \<Rightarrow> bytes \<Rightarrow> nat \<Rightarrow> nat \<Rightarrow> int \<Rightarrow> osfile \<Rightarrow> bytes res" where
  "read_datas gunz zlbs i 0 zofs f = Inr []"
| "read_datas gunz zlbs i (Suc n) zofs f =
     bind_res (BytesToUint32 (drop (4 * i) zlbs)) (\<lambda>zsize.
     bind_res (file_read zofs (unat zsize) f) (\<lambda>zd.
     bind_res (gunz zd) (\<lambda>data.
     bind_res (read_datas gunz zlbs (Suc i) n (zofs + uint zsize) f) (\<lambda>rest.
     Inr (data @ rest)))))"

definition pile_GetDatas :: "(bytes \<Rightarrow> bytes res) \<Rightarrow> u32 \<Rightarrow> nat \<Rightarrow> nat \<Rightarrow> pile \<Rightarrow> bytes res" where
  "pile_GetDatas gunz height from count p =
     (let FromHeight = height - BeginHeight p; f = p_file p in
      if BeginHeight p + ChunkUnit < height then Inl ErrInvalidHeight_pile
      else if HeadHeight p < height then Inl ErrInvalidHeight_pile
      else
        bind_res (entry_offset (uint FromHeight - 1) f) (\<lambda>Offset.
        bind_res (file_read (Offset + 32) 1 f) (\<lambda>lbs.
        if unat (lbs ! 0) < from + count then Inl ErrInvalidDataIndex
        else
          bind_res (read_sizes Offset f (lbs ! 0)) (\<lambda>zlbs.
          bind_res (sum_sizes zlbs 0 from) (\<lambda>skip.
          read_datas gunz zlbs from count (Offset + 32 + 1 + uint (4 * lbs ! 0) + skip) f)))))"

section \<open>The database of piles\<close>

record pile_db =
  db_piles :: "pile list"
  db_genHash :: hash256
  syncMode :: bool
  hasDirty :: bool
  lastSyncTime :: int

definition db_Init :: "hash256 \<Rightarrow> pile_db \<Rightarrow> pile_db res" where
  "db_Init genHash db =
     (if 0 < length (db_piles db) then Inl ErrAlreadyInitialized
      else bind_res (NewPile genHash 0) (\<lambda>p. Inr (db\<lparr>db_piles := db_piles db @ [p], db_genHash := genHash\<rparr>)))"

definition db_SetSyncMode :: "bool \<Rightarrow> pile_db \<Rightarrow> pile_db" where
  "db_SetSyncMode sync db = db\<lparr>syncMode := sync\<rparr>"

text \<open>
  \<open>now\<close> is the clock in nanoseconds; the comparison is the one of the source, last sync minus now.
  \<open>db.piles[len(db.piles)-1]\<close> panics without piles.
\<close>

definition db_AppendData :: "(bytes \<Rightarrow> bytes) \<Rightarrow> int \<Rightarrow> u32 \<Rightarrow> hash256 \<Rightarrow> bytes list \<Rightarrow> pile_db \<Rightarrow> pile_db res" where
  "db_AppendData gz now height DataHash Datas db =
     (if 255 < length Datas then Inl ErrExeedMaximumDataArrayLength
      else if db_piles db = [] then Inl Panic
      else
        let p = last (db_piles db) in
        if height \<noteq> HeadHeight p + 1 then Inl ErrInvalidAppendHeight
        else
          bind_res (if ChunkUnit \<le> HeadHeight p - BeginHeight p then
                      bind_res (NewPile (db_genHash db) (BeginHeight p + ChunkUnit)) (\<lambda>v. Inr (db_piles db @ [v]))
                    else Inr (db_piles db)) (\<lambda>ps.
          let sync = (syncMode db \<or> 1000000000 \<le> lastSyncTime db - now) in
          bind_res (pile_AppendData gz height DataHash Datas (last ps)) (\<lambda>p'.
          Inr (db\<lparr>db_piles := butlast ps @ [p'], hasDirty := \<not> sync,
                  lastSyncTime := (if sync then now else lastSyncTime db)\<rparr>))))"

definition db_GetHash :: "u32 \<Rightarrow> pile_db \<Rightarrow> hash256 res" where
  "db_GetHash height db =
     (if height = 0 then
        if 0 < length (db_piles db) then Inr (GenHash (hd (db_piles db))) else Inl ErrInvalidHeight_pile
      else
        let idx = unat ((height - 1) div ChunkUnit) in
        if length (db_piles db) \<le> idx then Inl ErrInvalidHeight_pile
        else pile_GetHash height (db_piles db ! idx))"

definition db_GetData :: "(bytes \<Rightarrow> bytes res) \<Rightarrow> u32 \<Rightarrow> nat \<Rightarrow> pile_db \<Rightarrow> bytes res" where
  "db_GetData gunz height index db =
     (if height = 0 then Inl ErrInvalidHeight_pile
      else
        let idx = unat ((height - 1) div ChunkUnit) in
        if length (db_piles db) \<le> idx then Inl ErrInvalidHeight_pile
        else pile_GetData gunz height index (db_piles db ! idx))"

definition db_GetDatas :: "(bytes \<Rightarrow> bytes res) \<Rightarrow> u32 \<Rightarrow> nat \<Rightarrow> nat \<Rightarrow> pile_db \<Rightarrow> bytes res" where
  "db_GetDatas gunz height from count db =
     (if height = 0 then Inl ErrInvalidHeight_pile
      else
        let idx = unat ((height - 1) div ChunkUnit) in
        if length (db_piles db) \<le> idx then Inl ErrInvalidHeight_pile
        else pile_GetDatas gunz height from count (db_piles db ! idx))"

text \<open>
  \<open>Open\<close>: the piles found by walking the directory, each already loaded, then put in order.
\<close>

fun collect_piles :: "u32 \<Rightarrow> nat \<Rightarrow> (u32 \<rightharpoonup> pile) \<Rightarrow> pile list res" where
  "collect_piles i 0 pileMap = Inr []"
| "collect_piles i (Suc n) pileMap =
     (case pileMap (i * ChunkUnit) of
        None \<Rightarrow> Inl ErrMissingPile
      | Some p \<Rightarrow> bind_res (collect_piles (i + 1) n pileMap) (\<lambda>ps. Inr (p # ps)))"

definition db_Open :: "int \<Rightarrow> pile list \<Rightarrow> pile_db res" where
  "db_Open now loaded =
     (let pileMap = map_of (rev (map (\<lambda>p. (BeginHeight p, p)) loaded));
          MaxHeight = fold (\<lambda>p m. if m < HeadHeight p then HeadHeight p else m) loaded 0;
          Count = MaxHeight div ChunkUnit + 1
      in bind_res (if 0 < MaxHeight then collect_piles 0 (unat Count) pileMap else Inr []) (\<lambda>piles.
         Inr \<lparr>db_piles = piles,
              db_genHash = (if 0 < length piles then GenHash (hd piles) else EmptyHash),
              syncMode = False, hasDirty = False, lastSyncTime = now\<rparr>))"

end
