(* ===== verification/Block.thy ===== *)
theory Block
  imports Codec Hashing
begin

text \<open>
  \<open>core/types/block.go\<close> and \<open>block_header.go\<close>: headers, blocks and the encoding of a block. The primitive
  encoders (\<open>encoding\<close>, which wraps a message-pack library) are parameters, collected in a record; a decoder
  returns the decoded value and the bytes it did not consume. Transactions are an interface: their type is a
  type variable.
\<close>

section \<open>Data\<close>

record header =
  bh_ChainID :: u8
  bh_Version :: u16
  bh_Height :: u32
  bh_PrevHash :: hash256
  bh_LevelRootHash :: hash256
  bh_ContextHash :: hash256
  bh_Timestamp :: u64
  bh_Generator :: address
  bh_ConsensusData :: bytes

record 'tx block =
  blk_Header :: header
  TransactionTypes :: "u16 list"
  Transactions :: "'tx list"
  TransactionSignatures :: "signature list list"
  TransactionResults :: "u8 list"
  Signatures :: "signature list"

section \<open>Primitive encoders\<close>

type_synonym 'a decoder = "bytes \<Rightarrow> ('a \<times> bytes) res"

record 'tx wire =
  enc_Header :: "header \<Rightarrow> bytes"
  dec_Header :: "header decoder"
  enc_Len :: "nat \<Rightarrow> bytes"
  dec_Len :: "nat decoder"
  enc_u16 :: "u16 \<Rightarrow> bytes"
  dec_u16 :: "u16 decoder"
  enc_u8 :: "u8 \<Rightarrow> bytes"
  dec_u8 :: "u8 decoder"
  enc_Tx :: "'tx \<Rightarrow> bytes"
  dec_Tx :: "u16 \<Rightarrow> 'tx decoder"
  enc_Sig :: "signature \<Rightarrow> bytes"
  dec_Sig :: "signature decoder"

text \<open>
  What the library promises: a decoder reads back what the encoder wrote, whatever follows it. \<open>ok t tx\<close> says
  that \<open>t\<close> is the type under which the transaction \<open>tx\<close> is registered.
\<close>

definition wire_ok :: "'tx wire \<Rightarrow> (u16 \<Rightarrow> 'tx \<Rightarrow> bool) \<Rightarrow> bool" where
  "wire_ok w ok \<longleftrightarrow>
     (\<forall>h r. dec_Header w (enc_Header w h @ r) = Inr (h, r))
     \<and> (\<forall>n r. dec_Len w (enc_Len w n @ r) = Inr (n, r))
     \<and> (\<forall>n r. dec_u16 w (enc_u16 w n @ r) = Inr (n, r))
     \<and> (\<forall>n r. dec_u8 w (enc_u8 w n @ r) = Inr (n, r))
     \<and> (\<forall>t tx r. ok t tx \<longrightarrow> dec_Tx w t (enc_Tx w tx @ r) = Inr (tx, r))
     \<and> (\<forall>s r. dec_Sig w (enc_Sig w s @ r) = Inr (s, r))"

section \<open>Encoding of a block\<close>

definition enc_Sigs :: "'tx wire \<Rightarrow> signature list \<Rightarrow> bytes" where
  "enc_Sigs w sigs = enc_Len w (length sigs) @ concat (map (enc_Sig w) sigs)"

definition enc_entry :: "'tx wire \<Rightarrow> 'tx block \<Rightarrow> nat \<Rightarrow> bytes" where
  "enc_entry w item i = enc_u16 w (TransactionTypes item ! i) @ enc_Tx w (Transactions item ! i)
     @ enc_Sigs w (TransactionSignatures item ! i) @ enc_u8 w (TransactionResults item ! i)"

definition enc_body :: "'tx wire \<Rightarrow> 'tx block \<Rightarrow> bytes" where
  "enc_body w item = enc_Len w (length (Transactions item))
     @ concat (map (enc_entry w item) [0..<length (Transactions item)]) @ enc_Sigs w (Signatures item)"

definition EncodeBlock :: "'tx wire \<Rightarrow> 'tx block \<Rightarrow> bytes res" where
  "EncodeBlock w item =
     (if 65535 \<le> length (TransactionTypes item) then Inl ErrInvalidTransactionCount
      else if length (TransactionTypes item) \<noteq> length (Transactions item) then Inl ErrInvalidTransactionCount
      else if length (TransactionTypes item) \<noteq> length (TransactionSignatures item) then Inl ErrInvalidTransactionCount
      else if length (TransactionTypes item) \<noteq> length (TransactionResults item) then Inl ErrInvalidTransactionCount
      else Inr (enc_Header w (blk_Header item) @ enc_body w item))"

fun dec_list :: "'a decoder \<Rightarrow> nat \<Rightarrow> 'a list decoder" where
  "dec_list d 0 bs = Inr ([], bs)"
| "dec_list d (Suc n) bs =
     bind_res (d bs) (\<lambda>(x, bs). bind_res (dec_list d n bs) (\<lambda>(xs, bs). Inr (x # xs, bs)))"

definition dec_Sigs :: "'tx wire \<Rightarrow> signature list decoder" where
  "dec_Sigs w bs = bind_res (dec_Len w bs) (\<lambda>(SigLen, bs). dec_list (dec_Sig w) SigLen bs)"

definition dec_entry :: "'tx wire \<Rightarrow> (u16 \<times> 'tx \<times> signature list \<times> u8) decoder" where
  "dec_entry w bs =
     bind_res (dec_u16 w bs) (\<lambda>(t, bs).
     bind_res (dec_Tx w t bs) (\<lambda>(tx, bs).
     bind_res (dec_Sigs w bs) (\<lambda>(sigs, bs).
     bind_res (dec_u8 w bs) (\<lambda>(r, bs).
     Inr ((t, tx, sigs, r), bs)))))"

definition DecodeBlock :: "'tx wire \<Rightarrow> 'tx block decoder" where
  "DecodeBlock w bs =
     bind_res (dec_Header w bs) (\<lambda>(h, bs).
     bind_res (dec_Len w bs) (\<lambda>(TxLen, bs).
     if 65535 \<le> TxLen then Inl ErrInvalidTransactionCount
     else
       bind_res (dec_list (dec_entry w) TxLen bs) (\<lambda>(es, bs).
       bind_res (dec_Sigs w bs) (\<lambda>(sigs, bs).
       Inr (\<lparr>blk_Header = h, TransactionTypes = map fst es, Transactions = map (fst \<circ> snd) es,
              TransactionSignatures = map (fst \<circ> snd \<circ> snd) es, TransactionResults = map (snd \<circ> snd \<circ> snd) es,
              Signatures = sigs\<rparr>, bs)))))"

section \<open>Round trip\<close>

lemma dec_list_map:
  assumes "\<And>x r. x \<in> set xs \<Longrightarrow> d (e x @ r) = Inr (g x, r)"
  shows "dec_list d (length xs) (concat (map e xs) @ r) = Inr (map g xs, r)"
  using assms by (induction xs) auto

lemma dec_enc_Sigs: "wire_ok w ok \<Longrightarrow> dec_Sigs w (enc_Sigs w sigs @ r) = Inr (sigs, r)"
  using dec_list_map [of sigs "dec_Sig w" "enc_Sig w" id r] by (simp add: dec_Sigs_def enc_Sigs_def wire_ok_def)

lemma dec_enc_entry:
  assumes "wire_ok w ok" "ok (TransactionTypes b ! i) (Transactions b ! i)"
  shows "dec_entry w (enc_entry w b i @ r) =
     Inr ((TransactionTypes b ! i, Transactions b ! i, TransactionSignatures b ! i, TransactionResults b ! i), r)"
  using assms dec_enc_Sigs [OF assms(1)] by (simp add: dec_entry_def enc_entry_def wire_ok_def)

definition block_ok :: "(u16 \<Rightarrow> 'tx \<Rightarrow> bool) \<Rightarrow> 'tx block \<Rightarrow> bool" where
  "block_ok ok b \<longleftrightarrow> length (Transactions b) < 65535 \<and> length (TransactionTypes b) = length (Transactions b)
     \<and> length (TransactionSignatures b) = length (Transactions b) \<and> length (TransactionResults b) = length (Transactions b)
     \<and> list_all2 ok (TransactionTypes b) (Transactions b)"

lemma EncodeBlock_ok: "block_ok ok b \<Longrightarrow> EncodeBlock w b = Inr (enc_Header w (blk_Header b) @ enc_body w b)"
  by (simp add: EncodeBlock_def block_ok_def)

lemma decode_encode:
  assumes w: "wire_ok w ok" and b: "block_ok ok b"
  shows "DecodeBlock w (enc_Header w (blk_Header b) @ enc_body w b @ r) = Inr (b, r)"
proof -
  define n where "n = length (Transactions b)"
  let ?g = "\<lambda>i. (TransactionTypes b ! i, Transactions b ! i, TransactionSignatures b ! i, TransactionResults b ! i)"
  have "ok (TransactionTypes b ! i) (Transactions b ! i)" if "i < n" for i
    using b that by (auto simp: block_ok_def n_def list_all2_conv_all_nth)
  then have es: "dec_list (dec_entry w) n (concat (map (enc_entry w b) [0..<n]) @ r') = Inr (map ?g [0..<n], r')" for r'
    using dec_list_map [of "[0..<n]" "dec_entry w" "enc_entry w b" ?g r'] dec_enc_entry [OF w] by simp
  have "map (\<lambda>i. TransactionTypes b ! i) [0..<n] = TransactionTypes b" "map (\<lambda>i. Transactions b ! i) [0..<n] = Transactions b"
    "map (\<lambda>i. TransactionSignatures b ! i) [0..<n] = TransactionSignatures b"
    "map (\<lambda>i. TransactionResults b ! i) [0..<n] = TransactionResults b"
    using b by (simp_all add: n_def block_ok_def) (metis map_nth)+
  then show ?thesis
    using w b es dec_enc_Sigs [OF w] by (simp add: DecodeBlock_def enc_body_def wire_ok_def n_def [symmetric] block_ok_def comp_def)
qed

section \<open>A concrete encoding\<close>

text \<open>
  Encoders that satisfy the laws: integers as little-endian bytes, lengths in unary, byte strings after their
  length. They show that the laws can hold.
\<close>

fun plain_nat :: "nat \<Rightarrow> bytes" where
  "plain_nat 0 = [0]"
| "plain_nat (Suc n) = 1 # plain_nat n"

fun dec_nat :: "nat decoder" where
  "dec_nat [] = Inl ErrInvalidHashSize"
| "dec_nat (b # bs) = (if b = 0 then Inr (0, bs) else bind_res (dec_nat bs) (\<lambda>(n, r). Inr (Suc n, r)))"

definition plain_bytes :: "bytes \<Rightarrow> bytes" where "plain_bytes xs = plain_nat (length xs) @ xs"

definition dec_bytes :: "bytes decoder" where
  "dec_bytes bs = bind_res (dec_nat bs) (\<lambda>(n, r). Inr (take n r, drop n r))"

definition dec_le :: "nat \<Rightarrow> ('a::len) word decoder" where
  "dec_le n bs = Inr (word_of_nat (le_to_nat (take n bs)), drop n bs)"

definition wire0 :: "unit wire" where
  "wire0 = \<lparr>
     enc_Header = (\<lambda>h. [bh_ChainID h] @ Uint16ToBytes (bh_Version h) @ Uint32ToBytes (bh_Height h) @ Uint64ToBytes (bh_Timestamp h)
       @ plain_bytes (bh_PrevHash h) @ plain_bytes (bh_LevelRootHash h) @ plain_bytes (bh_ContextHash h)
       @ plain_bytes (bh_Generator h) @ plain_bytes (bh_ConsensusData h)),
     dec_Header = (\<lambda>bs. bind_res (dec_le 1 bs) (\<lambda>(c, bs). bind_res (dec_le 2 bs) (\<lambda>(v, bs).
       bind_res (dec_le 4 bs) (\<lambda>(h, bs). bind_res (dec_le 8 bs) (\<lambda>(t, bs).
       bind_res (dec_bytes bs) (\<lambda>(p, bs). bind_res (dec_bytes bs) (\<lambda>(l, bs). bind_res (dec_bytes bs) (\<lambda>(x, bs).
       bind_res (dec_bytes bs) (\<lambda>(g, bs). bind_res (dec_bytes bs) (\<lambda>(d, bs).
       Inr (\<lparr>bh_ChainID = c, bh_Version = v, bh_Height = h, bh_PrevHash = p, bh_LevelRootHash = l, bh_ContextHash = x,
             bh_Timestamp = t, bh_Generator = g, bh_ConsensusData = d\<rparr>, bs))))))))))),
     enc_Len = plain_nat, dec_Len = dec_nat,
     enc_u16 = Uint16ToBytes, dec_u16 = dec_le 2, enc_u8 = (\<lambda>b. [b]), dec_u8 = dec_le 1,
     enc_Tx = (\<lambda>_. []), dec_Tx = (\<lambda>_ bs. Inr ((), bs)),
     enc_Sig = plain_bytes, dec_Sig = dec_bytes\<rparr>"

lemma dec_plain_nat [simp]: "dec_nat (plain_nat n @ r) = Inr (n, r)"
  by (induction n) auto

lemma dec_plain_bytes [simp]: "dec_bytes (plain_bytes xs @ r) = Inr (xs, r)"
  by (simp add: dec_bytes_def plain_bytes_def)

lemma dec_le_words [simp]:
  "dec_le (Suc 0) (c # r) = Inr (c :: u8, r)" "dec_le 2 (Uint16ToBytes v @ r) = Inr (v, r)"
  "dec_le 4 (Uint32ToBytes h @ r) = Inr (h, r)" "dec_le 8 (Uint64ToBytes t @ r) = Inr (t, r)"
  using unsigned_less [where 'a = nat, of v] unsigned_less [where 'a = nat, of h] unsigned_less [where 'a = nat, of t]
  by (simp_all add: dec_le_def Uint16ToBytes_def Uint32ToBytes_def Uint64ToBytes_def le_to_nat_nat_to_le)

lemma wire0_ok: "wire_ok wire0 (\<lambda>_ _. True)"
  by (simp add: wire_ok_def wire0_def)

section \<open>The property\<close>


definition header0 :: header where
  "header0 = \<lparr>bh_ChainID = 1, bh_Version = 1, bh_Height = 1, bh_PrevHash = replicate 32 1, bh_LevelRootHash = [], bh_ContextHash = [],
     bh_Timestamp = 5, bh_Generator = [], bh_ConsensusData = [7]\<rparr>"

definition block0 :: "unit block" where
  "block0 = \<lparr>blk_Header = header0, TransactionTypes = [258], Transactions = [()], TransactionSignatures = [[[1], [2]]],
     TransactionResults = [1], Signatures = [[3]]\<rparr>"


end
