(* ===== verification/Backend.thy ===== *)
theory Backend
  imports Codec
begin

text \<open>
  \<open>core/backend\<close>: the key-value store under the chain store. A backend is a map from keys to values. An
  \<open>Update\<close> is one transaction: its error leaves the map unchanged. The bounds of a prefix iteration are those
  of the BuntDB driver (\<open>store_backend_buntdb.go\<close>).
\<close>

type_synonym kv = "bytes \<rightharpoonup> bytes"

definition txn_Get :: "bytes \<Rightarrow> kv \<Rightarrow> bytes res" where
  "txn_Get key m = (case m key of None \<Rightarrow> Inl ErrNotExistKey | Some value \<Rightarrow> Inr value)"

definition txn_Set :: "bytes \<Rightarrow> bytes \<Rightarrow> kv \<Rightarrow> kv" where "txn_Set key value m = m(key \<mapsto> value)"

definition txn_Delete :: "bytes \<Rightarrow> kv \<Rightarrow> kv" where "txn_Delete key m = m(key := None)"

definition db_Update :: "(kv \<Rightarrow> kv res) \<Rightarrow> kv \<Rightarrow> unit res \<times> kv" where
  "db_Update fn m = (case fn m of Inl e \<Rightarrow> (Inl e, m) | Inr m' \<Rightarrow> (Inr (), m'))"

section \<open>Prefix iteration\<close>

text \<open>The end of the range: the prefix as a big-endian number plus one, wrapping around.\<close>

fun inc_rev :: "bytes \<Rightarrow> bytes" where
  "inc_rev [] = []"
| "inc_rev (b # bs) = (if b + 1 \<noteq> 0 then (b + 1) # bs else 0 # inc_rev bs)"

definition range_end :: "bytes \<Rightarrow> bytes" where "range_end p = rev (inc_rev (rev p))"

text \<open>Whether \<open>Iterate(prefix, fn)\<close> visits a key.\<close>

definition visited :: "bytes \<Rightarrow> bytes \<Rightarrow> bool" where
  "visited p k \<longleftrightarrow> (if 0 < length p then \<not> range_end p < p \<and> p \<le> k \<and> k < range_end p else True)"

text \<open>Collecting the visited keys and deleting them.\<close>

definition delete_prefix :: "bytes \<Rightarrow> kv \<Rightarrow> kv" where
  "delete_prefix p m = (\<lambda>k. if visited p k then None else m k)"

lemma byte_inc: "(b :: byte) + 1 \<noteq> 0 \<Longrightarrow> x < b + 1 \<longleftrightarrow> x \<le> b"
  by unat_arith

lemma byte_max: "(b :: byte) + 1 = 0 \<Longrightarrow> x \<le> b"
  by unat_arith

abbreviation all_max :: "bytes \<Rightarrow> bool" where "all_max \<equiv> list_all (\<lambda>b. b + 1 = 0)"

lemma inc_rev_append: "inc_rev (p @ q) = (if all_max p then replicate (length p) 0 @ inc_rev q else inc_rev p @ q)"
  by (induction p) auto

lemma length_inc_rev [simp]: "length (inc_rev p) = length p"
  by (induction p) auto

lemma range_end_Cons:
  "range_end (b # p) = (if all_max p then (b + 1) # replicate (length p) 0 else b # range_end p)"
  by (auto simp: range_end_def inc_rev_append)

lemma not_less_zeros: "n \<le> length k \<Longrightarrow> \<not> k < replicate n (0 :: byte)"
proof (induction n arbitrary: k)
  case (Suc n)
  then show ?case by (cases k) auto
qed simp

lemma max_le_iff: "all_max p \<Longrightarrow> length p \<le> length k \<Longrightarrow> p \<le> k \<longleftrightarrow> take (length p) k = p"
proof (induction p arbitrary: k)
  case (Cons b p)
  then obtain c k' where "k = c # k'" by (cases k) auto
  then show ?case using Cons byte_max [of b c] by auto
qed simp

lemma in_range_iff:
  "\<not> all_max p \<Longrightarrow> length p \<le> length k \<Longrightarrow> p \<le> k \<and> k < range_end p \<longleftrightarrow> take (length p) k = p"
proof (induction p arbitrary: k)
  case (Cons b p)
  then obtain c k' where k: "k = c # k'" by (cases k) auto
  show ?case
  proof (cases "all_max p")
    case True
    then have "b + 1 \<noteq> 0" using Cons.prems(1) by simp
    then show ?thesis
      using True Cons.prems(2) k byte_inc [of b c] not_less_zeros [of "length p" k'] max_le_iff [OF True, of k']
      by (auto simp: range_end_Cons)
  next
    case False
    then show ?thesis using Cons k by (auto simp: range_end_Cons)
  qed
qed simp

text \<open>
  Among the keys that are at least as long as the prefix, the iteration visits exactly those that start with it.
  (With a prefix that ends in 255 it also visits the shorter key that precedes the end of the range.)
\<close>

lemma visited_iff: "\<not> all_max p \<Longrightarrow> length p \<le> length k \<Longrightarrow> visited p k \<longleftrightarrow> take (length p) k = p"
  using in_range_iff [of p k] in_range_iff [of p p] by (auto simp: visited_def)

lemma visited_short: "visited [1, 255] [2] \<and> take 2 [2] \<noteq> ([1, 255] :: bytes)"
  by (simp add: visited_def range_end_def)

lemmas kv_defs = txn_Get_def txn_Set_def txn_Delete_def db_Update_def

end
