(* ===== verification/Store.thy ===== *)
theory Store
  imports Context Pile Block Backend
begin

text \<open>
  \<open>core/chain/store.go\<close> and \<open>util_key.go\<close>: the chain store over a key-value backend and, in its current version,
  a block log (\<open>cdb\<close>). The serialisation of accounts, outputs and events is a parameter (\<open>codec\<close>), as are the
  block primitives, the hash function and compression. The order in which \<open>EachAll\<close> visits the entries of a map
  is a parameter too (\<open>orders\<close>): the map package of the source keeps its entries in a list.
\<close>

section \<open>Keys\<close>

definition tagHeight :: bytes where "tagHeight = [1, 0]"
definition tagHeightHash :: bytes where "tagHeightHash = [1, 1]"
definition tagHeightHeader :: bytes where "tagHeightHeader = [1, 2]"
definition tagHeightBlock :: bytes where "tagHeightBlock = [1, 3]"
definition tagHashHeight :: bytes where "tagHashHeight = [1, 4]"
definition tagAccount :: bytes where "tagAccount = [2, 0]"
definition tagAccountName :: bytes where "tagAccountName = [2, 1]"
definition tagAccountSeq :: bytes where "tagAccountSeq = [2, 2]"
definition tagAccountData :: bytes where "tagAccountData = [2, 3]"
definition tagUTXO :: bytes where "tagUTXO = [3, 0]"
definition tagProcessData :: bytes where "tagProcessData = [4, 0]"
definition tagEvent :: bytes where "tagEvent = [5, 0]"

lemmas tag_defs = tagHeight_def tagHeightHash_def tagHeightHeader_def tagHeightBlock_def tagHashHeight_def tagAccount_def
  tagAccountName_def tagAccountSeq_def tagAccountData_def tagUTXO_def tagProcessData_def tagEvent_def

text \<open>\<open>binary.BigEndian.PutUint32\<close> and \<open>PutUint64\<close>; a string as its bytes.\<close>

definition be32 :: "u32 \<Rightarrow> bytes" where "be32 v = nat_to_be 4 (unat v)"
definition be64 :: "u64 \<Rightarrow> bytes" where "be64 v = nat_to_be 8 (unat v)"
definition string_bytes :: "string \<Rightarrow> bytes" where "string_bytes s = map (\<lambda>c. word_of_nat (of_char c)) s"

definition toHeightBlockKey :: "u32 \<Rightarrow> bytes" where "toHeightBlockKey height = tagHeightBlock @ be32 height"
definition toHeightHeaderKey :: "u32 \<Rightarrow> bytes" where "toHeightHeaderKey height = tagHeightHeader @ be32 height"
definition toHeightHashKey :: "u32 \<Rightarrow> bytes" where "toHeightHashKey height = tagHeightHash @ be32 height"
definition toHashHeightKey :: "hash256 \<Rightarrow> bytes" where "toHashHeightKey h = tagHashHeight @ h"
definition toAccountKey :: "address \<Rightarrow> bytes" where "toAccountKey addr = tagAccount @ addr"
definition toAccountNameKey :: "string \<Rightarrow> bytes" where "toAccountNameKey Name = tagAccountName @ string_bytes Name"
definition toAccountSeqKey :: "address \<Rightarrow> bytes" where "toAccountSeqKey addr = tagAccountSeq @ addr"
definition toAccountDataKey :: "bytes \<Rightarrow> bytes" where "toAccountDataKey key = tagAccountData @ key"
definition toUTXOKey :: "u64 \<Rightarrow> bytes" where "toUTXOKey uid = tagUTXO @ be64 uid"
definition fromUTXOKey :: "bytes \<Rightarrow> u64" where "fromUTXOKey bs = word_of_nat (be_to_nat (take 8 (drop 2 bs)))"
definition toProcessDataKey :: "bytes \<Rightarrow> bytes" where "toProcessDataKey key = tagProcessData @ key"
definition toEventKey :: "u32 \<Rightarrow> bytes" where "toEventKey eid = tagEvent @ be32 eid"

lemmas key_defs = toHeightBlockKey_def toHeightHeaderKey_def toHeightHashKey_def toHashHeightKey_def toAccountKey_def
  toAccountNameKey_def toAccountSeqKey_def toAccountDataKey_def toUTXOKey_def toProcessDataKey_def toEventKey_def

section \<open>State\<close>

record codec =
  account_TypeOf :: "account \<Rightarrow> u16 res"
  account_Marshal :: "account \<Rightarrow> bytes"
  account_Unmarshal :: "u16 \<Rightarrow> bytes \<Rightarrow> account res"
  txout_Marshal :: "txout \<Rightarrow> bytes"
  txout_Unmarshal :: "bytes \<Rightarrow> txout res"
  events_Encode :: "event list \<Rightarrow> bytes res"
  events_Decode :: "bytes \<Rightarrow> event list res"
  base58_dec :: "string \<Rightarrow> bytes res"
  sha :: "bytes \<Rightarrow> hash256"
  gzip :: "bytes \<Rightarrow> bytes"
  gunzip :: "bytes \<Rightarrow> bytes res"

record 'tx store =
  st_db :: kv
  st_cdb :: "pile_db option"
  chainID :: u8
  st_name :: string
  st_version :: u16
  st_SeqMap :: "address \<rightharpoonup> u64"
  cached :: bool
  cache_height :: u32
  heightHash :: hash256
  heightBlock :: "'tx block option"
  isClose :: bool

definition NewStore :: "kv \<Rightarrow> pile_db option \<Rightarrow> u8 \<Rightarrow> string \<Rightarrow> u16 \<Rightarrow> 'tx store" where
  "NewStore db cdb ChainID name version =
     \<lparr>st_db = db, st_cdb = cdb, chainID = ChainID, st_name = name, st_version = version, st_SeqMap = Map.empty,
      cached = False, cache_height = 0, heightHash = EmptyHash, heightBlock = None, isClose = False\<rparr>"

definition store_Close :: "'tx store \<Rightarrow> 'tx store" where
  "store_Close st = st\<lparr>isClose := True, st_cdb := None, st_db := Map.empty\<rparr>"

section \<open>Reading blocks\<close>

text \<open>\<open>cdb\<close> errors: a height that is not there reads as a missing key.\<close>

definition pile_err :: "'a res \<Rightarrow> 'a res" where
  "pile_err r = (case r of Inl e \<Rightarrow> if e = ErrInvalidHeight_pile then Inl ErrNotExistKey else Inl e | Inr v \<Rightarrow> Inr v)"

definition store_Hash :: "u32 \<Rightarrow> 'tx store \<Rightarrow> hash256 res" where
  "store_Hash height st =
     (if isClose st then Inl ErrStoreClosed
      else if cached st \<and> cache_height st = height then Inr (heightHash st)
      else case st_cdb st of
          None \<Rightarrow> bind_res (txn_Get (toHeightHashKey height) (st_db st)) (\<lambda>value. Inr (go_copy (replicate Hash256Size 0) value))
        | Some cdb \<Rightarrow> pile_err (db_GetHash height cdb))"

text \<open>\<open>encoding.Unmarshal\<close> decodes a value and ignores what follows it.\<close>

definition unmarshal :: "'a decoder \<Rightarrow> bytes \<Rightarrow> 'a res" where
  "unmarshal d bs = bind_res (d bs) (\<lambda>(v, _). Inr v)"

definition store_Header :: "codec \<Rightarrow> 'tx wire \<Rightarrow> u32 \<Rightarrow> 'tx store \<Rightarrow> header res" where
  "store_Header c w height st =
     (if isClose st then Inl ErrStoreClosed
      else if height < 1 then Inl ErrNotExistKey
      else if cached st \<and> cache_height st = height then
        (case heightBlock st of None \<Rightarrow> Inl Panic | Some b \<Rightarrow> Inr (blk_Header b))
      else case st_cdb st of
          None \<Rightarrow> bind_res (txn_Get (toHeightHeaderKey height) (st_db st)) (unmarshal (dec_Header w))
        | Some cdb \<Rightarrow> bind_res (pile_err (db_GetData (gunzip c) height 0 cdb)) (unmarshal (dec_Header w)))"

definition store_Block :: "codec \<Rightarrow> 'tx wire \<Rightarrow> u32 \<Rightarrow> 'tx store \<Rightarrow> 'tx block res" where
  "store_Block c w height st =
     (if isClose st then Inl ErrStoreClosed
      else if height < 1 then Inl ErrNotExistKey
      else if cached st \<and> cache_height st = height then
        (case heightBlock st of None \<Rightarrow> Inl Panic | Some b \<Rightarrow> Inr b)
      else case st_cdb st of
          None \<Rightarrow> bind_res (txn_Get (toHeightBlockKey height) (st_db st)) (unmarshal (DecodeBlock w))
        | Some cdb \<Rightarrow> bind_res (pile_err (db_GetDatas (gunzip c) height 0 2 cdb)) (unmarshal (DecodeBlock w)))"

definition store_Height :: "'tx store \<Rightarrow> u32" where
  "store_Height st =
     (if isClose st then 0
      else if cached st then cache_height st
      else case bind_res (txn_Get tagHeight (st_db st)) BytesToUint32 of Inl _ \<Rightarrow> 0 | Inr h \<Rightarrow> h)"

definition store_TargetHeight :: "'tx store \<Rightarrow> u32" where "store_TargetHeight st = store_Height st + 1"

definition store_LastStatus :: "codec \<Rightarrow> 'tx wire \<Rightarrow> 'tx store \<Rightarrow> (u32 \<times> hash256 \<times> u64) res" where
  "store_LastStatus c w st =
     (let height = store_Height st in
      case store_Hash height st of
        Inl _ \<Rightarrow> Inl Panic
      | Inr h \<Rightarrow>
          if height = 0 then Inr (0, h, 0)
          else case store_Header c w height st of
              Inl err \<Rightarrow> if err \<noteq> ErrStoreClosed then Inl Panic else Inr (0, EmptyHash, 0)
            | Inr bh \<Rightarrow> Inr (bh_Height bh, h, bh_Timestamp bh))"

definition store_LastHash :: "'tx store \<Rightarrow> hash256 res" where
  "store_LastHash st =
     (case store_Hash (store_Height st) st of
        Inl err \<Rightarrow> if err \<noteq> ErrStoreClosed then Inl Panic else Inr EmptyHash
      | Inr h \<Rightarrow> Inr h)"

definition store_LastTimestamp :: "codec \<Rightarrow> 'tx wire \<Rightarrow> 'tx store \<Rightarrow> u64 res" where
  "store_LastTimestamp c w st =
     (if store_Height st = 0 then Inr 0
      else case store_Header c w (store_Height st) st of
          Inl err \<Rightarrow> if err \<noteq> ErrStoreClosed then Inl Panic else Inr 0
        | Inr bh \<Rightarrow> Inr (bh_Timestamp bh))"

section \<open>Reading the state\<close>

text \<open>\<open>Seq\<close> memoises what it reads.\<close>

definition store_Seq :: "address \<Rightarrow> 'tx store \<Rightarrow> u64 \<times> 'tx store" where
  "store_Seq addr st =
     (if isClose st then (0, st)
      else case st_SeqMap st addr of
          Some seq \<Rightarrow> (seq, st)
        | None \<Rightarrow>
            (case bind_res (txn_Get (toAccountSeqKey addr) (st_db st)) BytesToUint64 of
               Inl _ \<Rightarrow> (0, st)
             | Inr seq \<Rightarrow> (seq, st\<lparr>st_SeqMap := (st_SeqMap st)(addr \<mapsto> seq)\<rparr>)))"

definition missing_account :: "'a res \<Rightarrow> 'a res" where
  "missing_account r = (case r of Inl e \<Rightarrow> if e = ErrNotExistKey then Inl ErrNotExistAccount else Inl e | Inr v \<Rightarrow> Inr v)"

text \<open>The value of an account key: the byte 0 for a deleted account.\<close>

definition live_account :: "address \<Rightarrow> kv \<Rightarrow> bytes res" where
  "live_account addr db =
     bind_res (txn_Get (toAccountKey addr) db) (\<lambda>value. if value = [0] then Inl ErrDeletedAccount else Inr value)"

definition store_Account :: "codec \<Rightarrow> address \<Rightarrow> 'tx store \<Rightarrow> account res" where
  "store_Account c addr st =
     (if isClose st then Inl ErrStoreClosed
      else missing_account (
        bind_res (live_account addr (st_db st)) (\<lambda>value.
        bind_res (BytesToUint16 value) (\<lambda>t. account_Unmarshal c t (drop 2 value)))))"

definition store_AddressByName :: "string \<Rightarrow> 'tx store \<Rightarrow> address res" where
  "store_AddressByName Name st =
     (if isClose st then Inl ErrStoreClosed
      else missing_account (
        bind_res (txn_Get (toAccountNameKey Name) (st_db st)) (\<lambda>value.
        let addr = go_copy (replicate 14 0) value in
        bind_res (live_account addr (st_db st)) (\<lambda>_. Inr addr))))"

definition missing_false :: "unit res \<Rightarrow> bool res" where
  "missing_false r = (case r of Inl e \<Rightarrow> if e = ErrNotExistKey then Inr False else Inl e | Inr _ \<Rightarrow> Inr True)"

definition store_HasAccount :: "address \<Rightarrow> 'tx store \<Rightarrow> bool res" where
  "store_HasAccount addr st =
     (if isClose st then Inl ErrStoreClosed
      else missing_false (bind_res (live_account addr (st_db st)) (\<lambda>_. Inr ())))"

definition store_HasAccountName :: "codec \<Rightarrow> string \<Rightarrow> 'tx store \<Rightarrow> bool res" where
  "store_HasAccountName c Name st =
     (if isClose st then Inl ErrStoreClosed
      else if ParseAddress (base58_dec c) Name \<in> range Inr then Inl ErrInvalidAccountName_chain
      else missing_false (
        bind_res (txn_Get (toAccountNameKey Name) (st_db st)) (\<lambda>value.
        bind_res (live_account (go_copy (replicate 14 0) value) (st_db st)) (\<lambda>_. Inr ()))))"

definition or_nil :: "bytes res \<Rightarrow> bytes" where "or_nil r = (case r of Inl _ \<Rightarrow> [] | Inr v \<Rightarrow> v)"

definition store_AccountData :: "address \<Rightarrow> u8 \<Rightarrow> bytes \<Rightarrow> 'tx store \<Rightarrow> bytes" where
  "store_AccountData addr pid name st =
     (if isClose st then [] else or_nil (txn_Get (toAccountDataKey (account_key addr pid name)) (st_db st)))"

definition store_HasUTXO :: "u64 \<Rightarrow> 'tx store \<Rightarrow> bool res" where
  "store_HasUTXO uid st =
     (if isClose st then Inl ErrStoreClosed
      else case txn_Get (toUTXOKey uid) (st_db st) of
          Inl e \<Rightarrow> if e = ErrNotExistKey then Inr False else Inl e
        | Inr value \<Rightarrow> Inr (0 < length value))"

definition store_UTXO :: "codec \<Rightarrow> u64 \<Rightarrow> 'tx store \<Rightarrow> utxo res" where
  "store_UTXO c uid st =
     (if isClose st then Inl ErrStoreClosed
      else case bind_res (txn_Get (toUTXOKey uid) (st_db st)) (txout_Unmarshal c) of
          Inl e \<Rightarrow> if e = ErrNotExistKey then Inl ErrNotExistUTXO else Inl e
        | Inr out \<Rightarrow> Inr \<lparr>utxo_TxIn = NewTxIn uid, utxo_TxOut = out\<rparr>)"

definition store_ProcessData :: "u8 \<Rightarrow> bytes \<Rightarrow> 'tx store \<Rightarrow> bytes" where
  "store_ProcessData pid name st =
     (if isClose st then [] else or_nil (txn_Get (toProcessDataKey (process_key pid name)) (st_db st)))"

text \<open>The loop of \<open>Events\<close> over the heights from \<open>From\<close> to \<open>To\<close>; heights without events are skipped.\<close>

definition events_at :: "codec \<Rightarrow> u32 \<Rightarrow> 'tx store \<Rightarrow> event list res" where
  "events_at c i st =
     (let value = (case st_cdb st of
          None \<Rightarrow> txn_Get (toEventKey i) (st_db st)
        | Some cdb \<Rightarrow> db_GetData (gunzip c) i 2 cdb)
      in case value of
          Inl e \<Rightarrow>
            if (case st_cdb st of None \<Rightarrow> e = ErrNotExistKey | Some _ \<Rightarrow> e = ErrInvalidHeight_pile \<or> e = ErrInvalidDataIndex)
            then Inr [] else Inl e
        | Inr bs \<Rightarrow> events_Decode c bs)"

fun concat_res :: "('a \<Rightarrow> 'b list res) \<Rightarrow> 'a list \<Rightarrow> 'b list res" where
  "concat_res f [] = Inr []"
| "concat_res f (x # xs) = bind_res (f x) (\<lambda>ys. bind_res (concat_res f xs) (\<lambda>zs. Inr (ys @ zs)))"

definition store_Events :: "codec \<Rightarrow> u32 \<Rightarrow> u32 \<Rightarrow> 'tx store \<Rightarrow> event list res" where
  "store_Events c From To st =
     (if isClose st then Inl ErrStoreClosed
      else
        let height = store_Height st; To = (if height < To then height else To)
        in concat_res (\<lambda>i. events_at c (word_of_nat i) st) [unat From..<Suc (unat To)])"

text \<open>The store as the loader of a context.\<close>

definition store_loader :: "codec \<Rightarrow> 'tx wire \<Rightarrow> 'tx store \<Rightarrow> loader" where
  "store_loader c w st = \<lparr>ld_ChainID = chainID st, ld_Name = st_name st, ld_Version = st_version st,
     ld_TargetHeight = store_TargetHeight st,
     ld_LastHash = (case store_LastHash st of Inl _ \<Rightarrow> EmptyHash | Inr h \<Rightarrow> h),
     ld_LastTimestamp = (case store_LastTimestamp c w st of Inl _ \<Rightarrow> 0 | Inr t \<Rightarrow> t),
     ld_Seq = (\<lambda>a. fst (store_Seq a st)), ld_Account = (\<lambda>a. store_Account c a st),
     ld_AddressByName = (\<lambda>n. store_AddressByName n st), ld_HasAccount = (\<lambda>a. store_HasAccount a st),
     ld_HasAccountName = (\<lambda>n. store_HasAccountName c n st), ld_AccountData = (\<lambda>a p n. store_AccountData a p n st),
     ld_HasUTXO = (\<lambda>u. store_HasUTXO u st), ld_UTXO = (\<lambda>u. store_UTXO c u st),
     ld_ProcessData = (\<lambda>p n. store_ProcessData p n st)\<rparr>"

section \<open>Writing\<close>

text \<open>
  \<open>EachAll\<close> calls a function for every entry of a map, in some order of its keys, and stops at the first error.
\<close>

fun EachAll :: "('k \<Rightarrow> 'v \<Rightarrow> 's \<Rightarrow> 's res) \<Rightarrow> ('k \<rightharpoonup> 'v) \<Rightarrow> 'k list \<Rightarrow> 's \<Rightarrow> 's res" where
  "EachAll fn m [] s = Inr s"
| "EachAll fn m (k # ks) s =
     (case m k of None \<Rightarrow> EachAll fn m ks s | Some v \<Rightarrow> bind_res (fn k v s) (EachAll fn m ks))"

record orders =
  o_Seq :: "address list"
  o_Account :: "address list"
  o_AccountName :: "string list"
  o_AccountData :: "bytes list"
  o_DeletedAccount :: "address list"
  o_DeletedAccountData :: "bytes list"
  o_UTXO :: "u64 list"
  o_CreatedUTXO :: "u64 list"
  o_DeletedUTXO :: "u64 list"
  o_ProcessData :: "bytes list"
  o_DeletedProcessData :: "bytes list"

definition apply_account :: "codec \<Rightarrow> address \<Rightarrow> account \<Rightarrow> kv \<Rightarrow> kv res" where
  "apply_account c addr acc db =
     bind_res (account_TypeOf c acc) (\<lambda>t.
     let db = txn_Set (toAccountKey addr) (Uint16ToBytes t @ account_Marshal c acc) db
     in Inr (txn_Set (toAccountNameKey (account_Name acc)) addr db))"

definition apply_deleted_account :: "address \<Rightarrow> kv \<Rightarrow> kv" where
  "apply_deleted_account addr db = delete_prefix (toAccountDataKey addr) (txn_Set (toAccountKey addr) [0] db)"

definition apply_utxo :: "codec \<Rightarrow> u64 \<Rightarrow> utxo \<Rightarrow> kv \<Rightarrow> kv res" where
  "apply_utxo c uid u db =
     (if txin_ID (utxo_TxIn u) \<noteq> uid then Inl ErrInvalidTxInKey
      else Inr (txn_Set (toUTXOKey uid) (txout_Marshal c (utxo_TxOut u)) db))"

definition applyContextData :: "codec \<Rightarrow> orders \<Rightarrow> ctx_data \<Rightarrow> kv \<Rightarrow> kv res" where
  "applyContextData c ord ctd db =
     bind_res (EachAll (\<lambda>addr value db. Inr (txn_Set (toAccountSeqKey addr) (Uint64ToBytes value) db)) (SeqMap ctd) (o_Seq ord) db) (\<lambda>db.
     bind_res (EachAll (apply_account c) (AccountMap ctd) (o_Account ord) db) (\<lambda>db.
     bind_res (EachAll (\<lambda>key value db. Inr (txn_Set (toAccountDataKey key) value db)) (AccountDataMap ctd) (o_AccountData ord) db) (\<lambda>db.
     bind_res (EachAll (\<lambda>addr acc db. Inr (apply_deleted_account addr db)) (DeletedAccountMap ctd) (o_DeletedAccount ord) db) (\<lambda>db.
     bind_res (EachAll (\<lambda>key _ db. Inr (txn_Delete (toAccountDataKey key) db)) (DeletedAccountDataMap ctd) (o_DeletedAccountData ord) db) (\<lambda>db.
     bind_res (EachAll (apply_utxo c) (UTXOMap ctd) (o_UTXO ord) db) (\<lambda>db.
     bind_res (EachAll (\<lambda>uid vout db. Inr (txn_Set (toUTXOKey uid) (txout_Marshal c vout) db)) (CreatedUTXOMap ctd) (o_CreatedUTXO ord) db) (\<lambda>db.
     bind_res (EachAll (\<lambda>uid _ db. Inr (txn_Delete (toUTXOKey uid) db)) (DeletedUTXOMap ctd) (o_DeletedUTXO ord) db) (\<lambda>db.
     bind_res (EachAll (\<lambda>key value db. Inr (txn_Set (toProcessDataKey key) value db)) (ProcessDataMap ctd) (o_ProcessData ord) db) (\<lambda>db.
     EachAll (\<lambda>key _ db. Inr (txn_Delete (toProcessDataKey key) db)) (DeletedProcessDataMap ctd) (o_DeletedProcessData ord) db)))))))))"

fun event_Height :: "event \<Rightarrow> u32" where
  "event_Height (RevokedEvent h _ _ _) = h"
| "event_Height (RewardEvent h _ _ _ _ _ _ _ _) = h"
| "event_Height (UnstakedEvent h _ _ _ _ _) = h"

text \<open>The old version also stores the events, between the outputs and the process data.\<close>

definition apply_events :: "codec \<Rightarrow> event list \<Rightarrow> kv \<Rightarrow> kv res" where
  "apply_events c evs db =
     (if 0 < length evs then bind_res (events_Encode c evs) (\<lambda>bs. Inr (txn_Set (toEventKey (event_Height (hd evs))) bs db))
      else Inr db)"

definition applyContextDataOld :: "codec \<Rightarrow> orders \<Rightarrow> ctx_data \<Rightarrow> kv \<Rightarrow> kv res" where
  "applyContextDataOld c ord ctd db =
     bind_res (EachAll (\<lambda>addr value db. Inr (txn_Set (toAccountSeqKey addr) (Uint64ToBytes value) db)) (SeqMap ctd) (o_Seq ord) db) (\<lambda>db.
     bind_res (EachAll (apply_account c) (AccountMap ctd) (o_Account ord) db) (\<lambda>db.
     bind_res (EachAll (\<lambda>key value db. Inr (txn_Set (toAccountDataKey key) value db)) (AccountDataMap ctd) (o_AccountData ord) db) (\<lambda>db.
     bind_res (EachAll (\<lambda>addr acc db. Inr (apply_deleted_account addr db)) (DeletedAccountMap ctd) (o_DeletedAccount ord) db) (\<lambda>db.
     bind_res (EachAll (\<lambda>key _ db. Inr (txn_Delete (toAccountDataKey key) db)) (DeletedAccountDataMap ctd) (o_DeletedAccountData ord) db) (\<lambda>db.
     bind_res (EachAll (apply_utxo c) (UTXOMap ctd) (o_UTXO ord) db) (\<lambda>db.
     bind_res (EachAll (\<lambda>uid vout db. Inr (txn_Set (toUTXOKey uid) (txout_Marshal c vout) db)) (CreatedUTXOMap ctd) (o_CreatedUTXO ord) db) (\<lambda>db.
     bind_res (EachAll (\<lambda>uid _ db. Inr (txn_Delete (toUTXOKey uid) db)) (DeletedUTXOMap ctd) (o_DeletedUTXO ord) db) (\<lambda>db.
     bind_res (apply_events c (Events ctd) db) (\<lambda>db.
     bind_res (EachAll (\<lambda>key value db. Inr (txn_Set (toProcessDataKey key) value db)) (ProcessDataMap ctd) (o_ProcessData ord) db) (\<lambda>db.
     EachAll (\<lambda>key _ db. Inr (txn_Delete (toProcessDataKey key) db)) (DeletedProcessDataMap ctd) (o_DeletedProcessData ord) db))))))))))"

definition set_cache :: "u32 \<Rightarrow> hash256 \<Rightarrow> 'tx block option \<Rightarrow> 'tx store \<Rightarrow> 'tx store" where
  "set_cache height h b st = st\<lparr>cache_height := height, heightHash := h, heightBlock := b, cached := True\<rparr>"

definition StoreGenesis :: "codec \<Rightarrow> orders \<Rightarrow> hash256 \<Rightarrow> ctx_data \<Rightarrow> 'tx store \<Rightarrow> unit res \<times> 'tx store" where
  "StoreGenesis c ord genHash ctd st =
     (if isClose st then (Inl ErrStoreClosed, st)
      else if 0 < store_Height st then (Inl ErrAlreadyGenesised, st)
      else
        let bsHeight = Uint32ToBytes 0 in
        case st_cdb st of
          None \<Rightarrow>
            (case db_Update (\<lambda>db. applyContextData c ord ctd
                 (txn_Set tagHeight bsHeight (txn_Set (toHashHeightKey genHash) bsHeight (txn_Set (toHeightHashKey 0) genHash db)))) (st_db st) of
               (Inl e, _) \<Rightarrow> (Inl e, st)
             | (Inr _, db) \<Rightarrow> (Inr (), set_cache 0 genHash None (st\<lparr>st_db := db\<rparr>)))
        | Some cdb \<Rightarrow>
            (case (case db_Init genHash cdb of
                     Inl e \<Rightarrow> if e \<noteq> ErrAlreadyInitialized then Inl e else Inr cdb
                   | Inr cdb \<Rightarrow> Inr cdb) of
               Inl e \<Rightarrow> (Inl e, st)
             | Inr cdb \<Rightarrow>
                 (case db_Update (\<lambda>db. applyContextData c ord ctd
                      (txn_Set tagHeight bsHeight (txn_Set (toHeightHashKey 0) genHash db))) (st_db st) of
                    (Inl e, _) \<Rightarrow> (Inl e, st\<lparr>st_cdb := Some cdb\<rparr>)
                  | (Inr _, db) \<Rightarrow> (Inr (), set_cache 0 genHash None (st\<lparr>st_cdb := Some cdb, st_db := db\<rparr>)))))"

text \<open>The datas of a block in the log: the header, the rest of the block, and its events when it has some.\<close>

definition block_datas :: "codec \<Rightarrow> 'tx wire \<Rightarrow> 'tx block \<Rightarrow> event list \<Rightarrow> bytes list res" where
  "block_datas c w b evs =
     (let data0 = enc_Header w (blk_Header b) in
      bind_res (EncodeBlock w b) (\<lambda>data.
      bind_res (if 0 < length evs then bind_res (events_Encode c evs) (\<lambda>bs. Inr [bs]) else Inr []) (\<lambda>evdata.
      Inr ([data0, drop (length data0) data] @ evdata))))"

definition StoreBlock :: "codec \<Rightarrow> 'tx wire \<Rightarrow> orders \<Rightarrow> int \<Rightarrow> 'tx block \<Rightarrow> ctx_data \<Rightarrow> 'tx store \<Rightarrow> unit res \<times> 'tx store" where
  "StoreBlock c w ord now b ctd st =
     (if isClose st then (Inl ErrStoreClosed, st)
      else
        let height = bh_Height (blk_Header b); DataHash = Hash (sha c) (enc_Header w (blk_Header b)); bsHeight = Uint32ToBytes height in
        case (case st_cdb st of
            None \<Rightarrow>
              (case db_Update (\<lambda>db.
                  bind_res (EncodeBlock w b) (\<lambda>data.
                  applyContextDataOld c ord ctd
                    (txn_Set tagHeight bsHeight (txn_Set (toHashHeightKey DataHash) bsHeight (txn_Set (toHeightHashKey height) DataHash
                      (txn_Set (toHeightHeaderKey height) (enc_Header w (blk_Header b)) (txn_Set (toHeightBlockKey height) data db))))))) (st_db st) of
                 (r, db) \<Rightarrow> (r, st\<lparr>st_db := db\<rparr>))
          | Some cdb \<Rightarrow>
              (case block_datas c w b (Events ctd) of
                 Inl e \<Rightarrow> (Inl e, st)
               | Inr Datas \<Rightarrow>
                   (case (case db_AppendData (gzip c) now height DataHash Datas cdb of
                            Inl e \<Rightarrow> if e \<noteq> ErrInvalidAppendHeight then Inl e else Inr cdb
                          | Inr cdb \<Rightarrow> Inr cdb) of
                      Inl e \<Rightarrow> (Inl e, st)
                    | Inr cdb \<Rightarrow>
                        (case db_Update (\<lambda>db. applyContextData c ord ctd (txn_Set tagHeight bsHeight db)) (st_db st) of
                           (r, db) \<Rightarrow> (r, st\<lparr>st_cdb := Some cdb, st_db := db\<rparr>))))) of
          (Inl e, st) \<Rightarrow> (Inl e, st)
        | (Inr _, st) \<Rightarrow> (Inr (), set_cache height DataHash (Some b) (st\<lparr>st_SeqMap := st_SeqMap st ++ SeqMap ctd\<rparr>)))"

text \<open>
  \<open>IterBlockAfterContext\<close>: the blocks of the log above the height of the state, up to the first missing one. The
  callback may change the store; the loop may run forever, so it is partial.
\<close>

partial_function (option) IterBlockAfterContext ::
    "codec \<Rightarrow> 'tx wire \<Rightarrow> ('tx block \<Rightarrow> 'tx store \<Rightarrow> unit res \<times> 'tx store) \<Rightarrow> u32 \<Rightarrow> 'tx store \<Rightarrow> (unit res \<times> 'tx store) option" where
  "IterBlockAfterContext c w fn h st =
     (case store_Block c w h st of
        Inl e \<Rightarrow> Some (if e = ErrNotExistKey then Inr () else Inl e, st)
      | Inr b \<Rightarrow>
          (case fn b st of
             (Inl e, st) \<Rightarrow> Some (Inl e, st)
           | (Inr _, st) \<Rightarrow> IterBlockAfterContext c w fn (h + 1) st))"

end
