(* ===== verification/Pile_Laws.thy ===== *)
theory Pile_Laws
  imports Pile
begin

text \<open>
  A pile implements a list of entries: what was appended is what is read, whatever was appended after it,
  and a file left by a crash in the middle of an append loads as the list without or with that entry.
\<close>

section \<open>Bytes in a file\<close>

definition has_at :: "osfile \<Rightarrow> nat \<Rightarrow> bytes \<Rightarrow> bool" where
  "has_at f off bs \<longleftrightarrow> off + length bs \<le> f_size f \<and> (\<forall>i<length bs. f_bytes f (off + i) = bs ! i)"

lemma has_at_append: "has_at f off (xs @ ys) \<longleftrightarrow> has_at f off xs \<and> has_at f (off + length xs) ys"
proof
  assume a: "has_at f off (xs @ ys)"
  have "f_bytes f (off + i) = xs ! i" if "i < length xs" for i using a that by (auto simp: has_at_def nth_append dest: spec [of _ i])
  moreover have "f_bytes f (off + length xs + i) = ys ! i" if "i < length ys" for i
    using a that unfolding has_at_def by (auto simp: nth_append add.assoc dest!: spec [of _ "length xs + i"])
  ultimately show "has_at f off xs \<and> has_at f (off + length xs) ys" using a by (simp add: has_at_def)
next
  assume a: "has_at f off xs \<and> has_at f (off + length xs) ys"
  have "f_bytes f (off + i) = (xs @ ys) ! i" if "i < length xs + length ys" for i
  proof (cases "i < length xs")
    case False
    then have "i - length xs < length ys" "off + length xs + (i - length xs) = off + i" using that by simp_all
    then show ?thesis using a False unfolding has_at_def by (auto simp: nth_append dest!: spec [of _ "i - length xs"])
  qed (use a in \<open>simp add: has_at_def nth_append\<close>)
  then show "has_at f off (xs @ ys)" using a by (simp add: has_at_def)
qed

lemma read_has_at: "has_at f off bs \<Longrightarrow> n = length bs \<Longrightarrow> file_read (int off) n f = Inr bs"
proof -
  assume h: "has_at f off bs" "n = length bs"
  have "map (\<lambda>i. if i < f_size f then f_bytes f i else 0) [off..<off + length bs] = bs"
    by (rule nth_equalityI) (use h(1) in \<open>simp_all add: has_at_def\<close>)
  moreover have "f_size f \<le> off \<Longrightarrow> bs = []" using h(1) unfolding has_at_def by (cases bs) auto
  ultimately show ?thesis using h(2) by (auto simp: file_read_def)
qed

lemma write_ok: "\<exists>f'. file_write (int off) bs f = Inr f'"
  by (simp add: file_write_def)

lemma write_has_at:
  assumes "file_write (int off) bs f = Inr f'" "off \<le> f_size f"
  shows "has_at f' off bs"
  using assms by (auto simp: file_write_def has_at_def split: if_splits)

lemma write_keeps_at:
  assumes "file_write (int off) bs f = Inr f'" "has_at f o' bs'" "o' + length bs' \<le> off \<or> off + length bs \<le> o'"
  shows "has_at f' o' bs'"
  using assms by (auto simp: file_write_def has_at_def split: if_splits)

lemma write_size: "file_write (int off) bs f = Inr f' \<Longrightarrow> f_size f' = (if bs = [] then f_size f else max (f_size f) (off + length bs))"
  by (auto simp: file_write_def split: if_splits)

section \<open>The layout\<close>

type_synonym entry = "hash256 \<times> bytes list"

abbreviation header_size :: nat where "header_size \<equiv> 41472256"

lemma chunk_consts: "uint ChunkUnit = 5184000" "unat ChunkUnit = 5184000" "ChunkHeaderSize = int header_size" "ChunkMetaSize = 256"
  by (simp_all add: ChunkUnit_def ChunkHeaderSize_def ChunkMetaSize_def)

definition entry_len :: "(bytes \<Rightarrow> bytes) \<Rightarrow> entry \<Rightarrow> nat" where
  "entry_len gz e = length (entry_bytes gz (fst e) (snd e))"

definition entry_off :: "(bytes \<Rightarrow> bytes) \<Rightarrow> entry list \<Rightarrow> nat \<Rightarrow> nat" where
  "entry_off gz es k = header_size + sum_list (map (entry_len gz) (take k es))"

text \<open>
  What may be appended: a 32-byte hash, at most 255 datas and compressed sizes that fit the 32-bit size
  field. The datas of an entry can be read back only when there are fewer than 64 of them, since the readers
  compute the length of the size table on bytes.
\<close>

definition entry_ok :: "(bytes \<Rightarrow> bytes) \<Rightarrow> entry \<Rightarrow> bool" where
  "entry_ok gz e \<longleftrightarrow> length (fst e) = 32 \<and> length (snd e) < 256 \<and> list_all (\<lambda>d. length (gz d) < 2 ^ 32) (snd e)"

definition heads :: "u32 \<Rightarrow> u32 \<Rightarrow> u32 \<Rightarrow> u32 \<Rightarrow> hash256 \<Rightarrow> bytes" where
  "heads a b c begin0 gen = Uint32ToBytes a @ Uint32ToBytes b @ Uint32ToBytes c @ Uint32ToBytes begin0
     @ Uint32ToBytes (begin0 + ChunkUnit) @ gen"

text \<open>The table and the entries of a file, whatever its head heights say.\<close>

definition body_ok :: "(bytes \<Rightarrow> bytes) \<Rightarrow> osfile \<Rightarrow> entry list \<Rightarrow> bool" where
  "body_ok gz f es \<longleftrightarrow>
     length es \<le> unat ChunkUnit \<and> list_all (entry_ok gz) es \<and> entry_off gz es (length es) < 2 ^ 63
     \<and> header_size \<le> f_size f \<and> entry_off gz es (length es) \<le> f_size f
     \<and> (\<forall>k<length es. has_at f (256 + k * 8) (Uint64ToBytes (word_of_nat (entry_off gz es (Suc k)))))
     \<and> (\<forall>k<length es. has_at f (entry_off gz es k) (entry_bytes gz (fst (es ! k)) (snd (es ! k))))"

definition pile_rep :: "(bytes \<Rightarrow> bytes) \<Rightarrow> pile \<Rightarrow> entry list \<Rightarrow> bool" where
  "pile_rep gz p es \<longleftrightarrow>
     body_ok gz (p_file p) es \<and> HeadHeight p = BeginHeight p + word_of_nat (length es)
     \<and> BeginHeight p mod ChunkUnit = 0 \<and> unat (BeginHeight p) + unat ChunkUnit < 2 ^ 32 \<and> length (GenHash p) = 32
     \<and> has_at (p_file p) 0 (heads (HeadHeight p) (HeadHeight p) (HeadHeight p) (BeginHeight p) (GenHash p))"

lemma entry_off_Suc: "k < length es \<Longrightarrow> entry_off gz es (Suc k) = entry_off gz es k + entry_len gz (es ! k)"
  by (simp add: entry_off_def take_Suc_conv_app_nth)

lemma entry_off_0 [simp]: "entry_off gz es 0 = header_size"
  by (simp add: entry_off_def)

lemma entry_off_snoc: "k \<le> length es \<Longrightarrow> entry_off gz (es @ [e]) k = entry_off gz es k"
  "entry_off gz (es @ [e]) (Suc (length es)) = entry_off gz es (length es) + entry_len gz e"
  by (simp_all add: entry_off_def)

lemma entry_off_mono: "j \<le> k \<Longrightarrow> entry_off gz es j \<le> entry_off gz es k"
proof -
  assume "j \<le> k"
  then have "take k es = take j es @ take (k - j) (drop j es)" by (metis take_add le_add_diff_inverse)
  then show ?thesis by (simp add: entry_off_def)
qed

lemma entry_len_eq:
  "entry_len gz e = length (fst e) + 1 + 4 * length (snd e) + sum_list (map (\<lambda>d. length (gz d)) (snd e))"
  by (simp add: entry_len_def entry_bytes_def length_concat comp_def sum_list_triv)

section \<open>Reading\<close>

lemma sint_word_of_nat63: "n < 2 ^ 63 \<Longrightarrow> sint (word_of_nat n :: u64) = int n"
  by (simp add: signed_of_nat signed_take_bit_int_eq_self)

lemma entry_offset_at:
  assumes "body_ok gz f es" "k \<le> length es"
  shows "entry_offset (int k) f = Inr (int (entry_off gz es k))"
proof (cases k)
  case 0
  then show ?thesis by (simp add: entry_offset_def chunk_consts)
next
  case (Suc j)
  then have "has_at f (256 + j * 8) (Uint64ToBytes (word_of_nat (entry_off gz es (Suc j))))" using assms by (simp add: body_ok_def)
  then have r: "file_read (int (256 + j * 8)) 8 f = Inr (Uint64ToBytes (word_of_nat (entry_off gz es (Suc j))))"
    by (rule read_has_at) simp
  have "entry_off gz es (Suc j) < 2 ^ 63"
    using assms Suc entry_off_mono [of "Suc j" "length es" gz es] by (simp add: body_ok_def)
  then show ?thesis
    using Suc r by (simp add: entry_offset_def chunk_consts sint_word_of_nat63 algebra_simps)
qed

text \<open>The sizes and the datas of an entry.\<close>

definition sizes :: "bytes list \<Rightarrow> bytes" where
  "sizes zs = concat (map (\<lambda>z. Uint32ToBytes (word_of_nat (length z))) zs)"

lemma length_sizes [simp]: "length (sizes zs) = 4 * length zs"
  by (simp add: sizes_def length_concat comp_def sum_list_triv)

lemma drop_sizes: "i \<le> length zs \<Longrightarrow> drop (4 * i) (sizes zs) = sizes (drop i zs)"
proof (induction i arbitrary: zs)
  case (Suc i)
  then obtain z ys where "zs = z # ys" by (cases zs) auto
  then show ?case using Suc by (simp add: sizes_def)
qed simp

lemma size_at: "i < length zs \<Longrightarrow> BytesToUint32 (drop (4 * i) (sizes zs)) = Inr (word_of_nat (length (zs ! i)))"
proof -
  assume i: "i < length zs"
  have "sizes (drop i zs) = Uint32ToBytes (word_of_nat (length (zs ! i))) @ sizes (drop (Suc i) zs)"
    unfolding Cons_nth_drop_Suc [OF i, symmetric] by (simp add: sizes_def)
  then show ?thesis using i by (simp add: drop_sizes)
qed

lemma uint_size: "length (z :: bytes) < 2 ^ 32 \<Longrightarrow> uint (word_of_nat (length z) :: u32) = int (length z)"
  "length z < 2 ^ 32 \<Longrightarrow> unat (word_of_nat (length z) :: u32) = length z"
  by (simp_all add: unat_of_nat uint_nat unsigned_of_nat take_bit_nat_eq_self)

lemma sum_sizes_at:
  assumes "i + n \<le> length zs" "list_all (\<lambda>z. length z < 2 ^ 32) zs"
  shows "sum_sizes (sizes zs) i n = Inr (int (sum_list (map length (take n (drop i zs)))))"
  using assms(1)
proof (induction n arbitrary: i)
  case (Suc n)
  have "length (zs ! i) < 2 ^ 32" using assms(2) Suc.prems by (simp add: list_all_length)
  moreover have "take (Suc n) (drop i zs) = zs ! i # take n (drop (Suc i) zs)"
    using Suc.prems by (simp flip: Cons_nth_drop_Suc)
  ultimately show ?case using Suc by (simp add: size_at uint_size)
qed simp

lemma data_at:
  assumes "has_at f off (concat zs)" "i < length zs"
  shows "has_at f (off + sum_list (map length (take i zs))) (zs ! i)"
proof -
  have "concat zs = concat (take i zs) @ zs ! i @ concat (drop (Suc i) zs)"
    by (metis assms(2) concat.simps(2) concat_append id_take_nth_drop)
  then show ?thesis using assms(1) by (simp add: has_at_append length_concat)
qed

lemma entry_parts:
  assumes "has_at f off (entry_bytes gz h ds)" "length h = 32"
  shows "has_at f off h" "has_at f (off + 32) [word_of_nat (length ds)]" "has_at f (off + 33) (sizes (map gz ds))"
    "has_at f (off + 33 + 4 * length ds) (concat (map gz ds))"
proof -
  have "entry_bytes gz h ds = h @ [word_of_nat (length ds)] @ sizes (map gz ds) @ concat (map gz ds)"
    by (simp add: entry_bytes_def sizes_def)
  then show "has_at f off h" "has_at f (off + 32) [word_of_nat (length ds)]" "has_at f (off + 33) (sizes (map gz ds))"
    "has_at f (off + 33 + 4 * length ds) (concat (map gz ds))"
    using assms by (simp_all only: has_at_append) (simp_all add: ac_simps)
qed

text \<open>Heights inside a pile.\<close>

lemma height_arith:
  assumes "unat (b :: u32) + unat ChunkUnit < 2 ^ 32" "k \<le> unat ChunkUnit"
  shows "b + word_of_nat k - b = (word_of_nat k :: u32)" "uint (word_of_nat k :: u32) = int k" "unat (b + word_of_nat k) = unat b + k"
    "\<not> b + ChunkUnit < b + word_of_nat k"
proof -
  have k: "unat (word_of_nat k :: u32) = k" using assms by (simp add: unat_of_nat chunk_consts)
  then show "uint (word_of_nat k :: u32) = int k" by (simp add: uint_nat)
  show u: "unat (b + word_of_nat k) = unat b + k" using assms by (simp add: unat_word_ariths k)
  have "unat (b + ChunkUnit) = unat b + unat ChunkUnit" using assms(1) by (simp add: unat_word_ariths)
  then show "\<not> b + ChunkUnit < b + word_of_nat k" using u assms(2) by (simp add: word_less_nat_alt)
qed simp

lemma head_arith:
  assumes "unat (b :: u32) + unat ChunkUnit < 2 ^ 32" "k \<le> n" "n \<le> unat ChunkUnit"
  shows "\<not> b + word_of_nat n < b + word_of_nat k"
  using height_arith(3) [OF assms(1), of k] height_arith(3) [OF assms(1,3)] assms(2,3) by (simp add: word_less_nat_alt)

lemma gethash_at:
  assumes "body_ok gz (p_file p) es" "unat (BeginHeight p) + unat ChunkUnit < 2 ^ 32" "k < length es"
  shows "pile_GetHash (BeginHeight p + word_of_nat (Suc k)) p = Inr (fst (es ! k))"
proof -
  have len: "Suc k \<le> unat ChunkUnit" "length (fst (es ! k)) = 32" using assms by (auto simp: body_ok_def entry_ok_def list_all_length)
  note ar = height_arith [OF assms(2) len(1)]
  have "has_at (p_file p) (entry_off gz es k) (fst (es ! k))"
    using assms(1,3) len(2) by (auto simp: body_ok_def intro: entry_parts(1))
  then have "file_read (int (entry_off gz es k)) 32 (p_file p) = Inr (fst (es ! k))" using len(2) by (intro read_has_at) simp_all
  moreover have "uint (word_of_nat (Suc k) :: u32) - 1 = int k" using ar(2) by simp
  ultimately show ?thesis
    unfolding pile_GetHash_def Let_def ar(1) using ar(4) entry_offset_at [OF assms(1), of k] assms(3) len(2)
    by (simp only: if_False bind_res.simps simp_thms) (simp add: go_copy_all Hash256Size_def)
qed

text \<open>The start of \<open>GetData\<close> and \<open>GetDatas\<close>: the offset, the count and the sizes of entry \<open>k\<close>.\<close>

lemma entry_reads:
  assumes "body_ok gz f es" "k < length es" "length (snd (es ! k)) < 64"
  defines "ds \<equiv> snd (es ! k)" and "off \<equiv> entry_off gz es k"
  shows "entry_offset (int k) f = Inr (int off)" "file_read (int off + 32) 1 f = Inr [word_of_nat (length ds)]"
    "unat (word_of_nat (length ds) :: byte) = length ds" "uint (4 * word_of_nat (length ds) :: byte) = 4 * int (length ds)"
    "read_sizes (int off) f (word_of_nat (length ds)) = Inr (sizes (map gz ds))"
    "has_at f (off + 33 + 4 * length ds) (concat (map gz ds))" "list_all (\<lambda>z. length z < 2 ^ 32) (map gz ds)"
proof -
  have ok: "length (fst (es ! k)) = 32" "length ds < 64" "list_all (\<lambda>d. length (gz d) < 2 ^ 32) ds"
    using assms by (auto simp: body_ok_def entry_ok_def list_all_length)
  have "has_at f off (entry_bytes gz (fst (es ! k)) ds)" using assms by (simp add: body_ok_def)
  note parts = entry_parts [OF this ok(1)]
  show "entry_offset (int k) f = Inr (int off)" using entry_offset_at [OF assms(1)] assms(2) by (simp add: off_def)
  show "file_read (int off + 32) 1 f = Inr [word_of_nat (length ds)]" using read_has_at [OF parts(2), of 1] by (simp add: add.commute)
  show u: "unat (word_of_nat (length ds) :: byte) = length ds" using ok(2) by (simp add: unat_of_nat)
  then have u4: "unat (4 * word_of_nat (length ds) :: byte) = 4 * length ds" using ok(2) by (simp add: unat_word_ariths)
  then show "uint (4 * word_of_nat (length ds) :: byte) = 4 * int (length ds)" by (simp add: uint_nat)
  show "read_sizes (int off) f (word_of_nat (length ds)) = Inr (sizes (map gz ds))"
    using read_has_at [OF parts(3), of "4 * length ds"] by (simp add: read_sizes_def u4 add.commute add.left_commute)
  show "has_at f (off + 33 + 4 * length ds) (concat (map gz ds))" by (rule parts(4))
  show "list_all (\<lambda>z. length z < 2 ^ 32) (map gz ds)" using ok(3) by (simp add: list_all_iff)
qed

lemma getdata_at:
  assumes "body_ok gz (p_file p) es" "unat (BeginHeight p) + unat ChunkUnit < 2 ^ 32" "k < length es"
    "HeadHeight p = BeginHeight p + word_of_nat (length es)" "\<And>d. gunz (gz d) = Inr d"
    "length (snd (es ! k)) < 64"
  shows "pile_GetData gunz (BeginHeight p + word_of_nat (Suc k)) i p =
     (if i < length (snd (es ! k)) then Inr (snd (es ! k) ! i) else Inl ErrInvalidDataIndex)"
proof -
  define ds where "ds = snd (es ! k)" define off where "off = entry_off gz es k"
  have len: "Suc k \<le> unat ChunkUnit" "length es \<le> unat ChunkUnit" using assms by (auto simp: body_ok_def)
  note ar = height_arith [OF assms(2) len(1)]
  note rd = entry_reads [OF assms(1,3,6), folded ds_def off_def]
  have hd: "\<not> HeadHeight p < BeginHeight p + word_of_nat (Suc k)"
    using head_arith [OF assms(2) _ len(2), of "Suc k"] assms(3,4) by simp
  have k1: "uint (word_of_nat (Suc k) :: u32) - 1 = int k" using ar(2) by simp
  have tail: "bind_res (sum_sizes (sizes (map gz ds)) 0 i) (\<lambda>skip.
       let zofs = int off + 32 + 1 + uint (4 * word_of_nat (length ds) :: byte) + skip in
       bind_res (BytesToUint32 (drop (4 * i) (sizes (map gz ds)))) (\<lambda>zsize.
       bind_res (file_read zofs (unat zsize) (p_file p)) gunz)) = Inr (ds ! i)" if "i < length ds"
  proof -
    have "has_at (p_file p) (off + 33 + 4 * length ds + sum_list (map length (take i (map gz ds)))) (gz (ds ! i))"
      using data_at [OF rd(6), of i] that by simp
    moreover have "length (gz (ds ! i)) < 2 ^ 32" using rd(7) that by (simp add: list_all_length)
    ultimately have "file_read (33 + int off + 4 * int (length ds) + int (sum_list (map length (take i (map gz ds)))))
        (unat (word_of_nat (length (gz (ds ! i))) :: u32)) (p_file p) = Inr (gz (ds ! i))"
      using read_has_at [of "p_file p" "off + 33 + 4 * length ds + sum_list (map length (take i (map gz ds)))" "gz (ds ! i)"] uint_size(2)
      by (simp add: add.commute [of 33])
    then show ?thesis using that rd(4) sum_sizes_at [OF _ rd(7), of 0 i] size_at [of i "map gz ds"] assms(5) by simp
  qed
  show ?thesis
    unfolding pile_GetData_def Let_def ar(1) k1 rd(1) using ar(4) hd rd(2,3,5) tail
    by (simp add: ds_def [symmetric])
qed

text \<open>With 64 datas or more, the size table read back is too short.\<close>

lemma BytesToUint32_error: "BytesToUint32 bs = Inl er \<Longrightarrow> er = Panic"
  by (auto simp: BytesToUint32_def split: if_splits)

lemma sum_sizes_error: "sum_sizes zlbs i n = Inl er \<Longrightarrow> er = Panic"
proof (induction n arbitrary: i)
  case (Suc n)
  then show ?case using BytesToUint32_error by (auto simp: bind_res_def split: sum.splits)
qed simp

lemma getdata_many:
  assumes "body_ok gz (p_file p) es" "unat (BeginHeight p) + unat ChunkUnit < 2 ^ 32" "k < length es"
    "HeadHeight p = BeginHeight p + word_of_nat (length es)"
    "64 \<le> length (snd (es ! k))" "length (snd (es ! k)) mod 64 \<le> i" "i < length (snd (es ! k))"
  shows "pile_GetData gunz (BeginHeight p + word_of_nat (Suc k)) i p = Inl Panic"
proof -
  define ds where "ds = snd (es ! k)" define off where "off = entry_off gz es k" define m where "m = length ds mod 64"
  have len: "Suc k \<le> unat ChunkUnit" "length es \<le> unat ChunkUnit" using assms by (auto simp: body_ok_def)
  note ar = height_arith [OF assms(2) len(1)]
  have hd: "\<not> HeadHeight p < BeginHeight p + word_of_nat (Suc k)"
    using head_arith [OF assms(2) _ len(2), of "Suc k"] assms(3,4) by simp
  have k1: "uint (word_of_nat (Suc k) :: u32) - 1 = int k" using ar(2) by simp
  have ok: "length (fst (es ! k)) = 32" "length ds < 256" using assms by (auto simp: body_ok_def entry_ok_def list_all_length ds_def)
  have "has_at (p_file p) off (entry_bytes gz (fst (es ! k)) ds)" using assms by (simp add: body_ok_def off_def ds_def)
  note parts = entry_parts [OF this ok(1)]
  have cnt: "file_read (int off + 32) 1 (p_file p) = Inr [word_of_nat (length ds)]" using read_has_at [OF parts(2), of 1] by (simp add: add.commute)
  have u: "unat (word_of_nat (length ds) :: byte) = length ds" using ok(2) by (simp add: unat_of_nat)
  have "unat (4 * word_of_nat (length ds) :: byte) = 4 * length ds mod (4 * 64)" using ok(2) by (simp add: unat_word_ariths u)
  then have u4: "unat (4 * word_of_nat (length ds) :: byte) = 4 * m" by (simp add: m_def mult_mod_right)
  have "has_at (p_file p) (off + 33) (take (4 * m) (sizes (map gz ds)))"
    using parts(3) has_at_append [of _ _ "take (4 * m) (sizes (map gz ds))" "drop (4 * m) (sizes (map gz ds))"] by simp
  moreover have "m \<le> length ds" by (simp add: m_def)
  ultimately have rs: "read_sizes (int off) (p_file p) (word_of_nat (length ds)) = Inr (take (4 * m) (sizes (map gz ds)))"
    using read_has_at [of "p_file p" "off + 33" "take (4 * m) (sizes (map gz ds))" "4 * m"] by (simp add: read_sizes_def u4 add.commute)
  have "BytesToUint32 (drop (4 * i) (take (4 * m) (sizes (map gz ds)))) = Inl Panic"
    using assms(6) by (simp add: BytesToUint32_def m_def ds_def)
  then have tail: "bind_res (sum_sizes (take (4 * m) (sizes (map gz ds))) 0 i) (\<lambda>skip.
       bind_res (BytesToUint32 (drop (4 * i) (take (4 * m) (sizes (map gz ds))))) (G skip)) = Inl Panic" for G :: "_ \<Rightarrow> _ \<Rightarrow> bytes res"
    using sum_sizes_error [of "take (4 * m) (sizes (map gz ds))" 0 i] by (cases "sum_sizes (take (4 * m) (sizes (map gz ds))) 0 i") auto
  have off': "entry_offset (int k) (p_file p) = Inr (int off)" using entry_offset_at [OF assms(1)] assms(3) by (simp add: off_def)
  show ?thesis
    unfolding pile_GetData_def Let_def ar(1) k1 off' using ar(4) hd assms(7) cnt by (simp add: u rs tail ds_def [symmetric] del: drop_take)
qed

end
