(* ===== verification/Pile_Append.thy ===== *)
theory Pile_Append
  imports Pile_Laws
begin

text \<open>
  Appending to a pile and loading one: \<open>AppendData\<close> keeps the representation, and so does loading a file
  that a crash left after any byte of the writes of an append.
\<close>

section \<open>Writes as a function\<close>

definition put :: "nat \<Rightarrow> bytes \<Rightarrow> osfile \<Rightarrow> osfile" where
  "put off bs f = (if bs = [] then f
     else \<lparr>f_size = max (f_size f) (off + length bs),
           f_bytes = (\<lambda>i. if off \<le> i \<and> i < off + length bs then bs ! (i - off) else f_bytes f i)\<rparr>)"

lemma file_write_put [simp]: "file_write (int off) bs f = Inr (put off bs f)"
  by (simp add: file_write_def put_def fun_eq_iff)

lemma file_write_heads [simp]:
  "file_write 0 bs f = Inr (put 0 bs f)" "file_write 4 bs f = Inr (put 4 bs f)" "file_write 8 bs f = Inr (put 8 bs f)"
  using file_write_put [of 0] file_write_put [of 4] file_write_put [of 8] by simp_all

lemmas put_has_at = write_has_at [OF file_write_put]
lemmas put_keeps_at = write_keeps_at [OF file_write_put]
lemmas put_size = write_size [OF file_write_put]

lemma put_size_le: "f_size f \<le> f_size (put off bs f)"
  by (simp add: put_size)

lemma put_split: "has_at f off (xs @ ys @ zs) \<Longrightarrow> length ys = length ws \<Longrightarrow> has_at (put (off + length xs) ws f) off (xs @ ws @ zs)"
proof -
  assume h: "has_at f off (xs @ ys @ zs)" "length ys = length ws"
  have "has_at f off xs" "has_at f (off + length xs + length ws) zs" "off + length xs \<le> f_size f"
    using h by (auto simp: has_at_append) (auto simp: has_at_def)
  then show ?thesis by (auto simp: has_at_append intro!: put_has_at put_keeps_at)
qed

section \<open>The body under writes\<close>

lemma body_ok_prefix: "body_ok gz f (es @ [e]) \<Longrightarrow> body_ok gz f es"
  unfolding body_ok_def
  by (auto simp: entry_off_snoc less_Suc_eq all_conj_distrib nth_append)

lemma body_ok_put:
  assumes b: "body_ok gz f es"
    and r: "off + length bs \<le> 256 \<or> 256 + 8 * length es \<le> off \<and> off + length bs \<le> header_size \<or> entry_off gz es (length es) \<le> off"
  shows "body_ok gz (put off bs f) es"
proof -
  have hs: "header_size \<le> entry_off gz es k" for k using entry_off_mono [of 0 k gz es] by simp
  have tab: "256 + 8 * length es \<le> header_size" using b by (simp add: body_ok_def chunk_consts)
  have "has_at (put off bs f) (256 + k * 8) (Uint64ToBytes (word_of_nat (entry_off gz es (Suc k))))" if k: "k < length es" for k
    using b k r tab hs [of "length es"] by (intro put_keeps_at) (auto simp: body_ok_def)
  moreover have "has_at (put off bs f) (entry_off gz es k) (entry_bytes gz (fst (es ! k)) (snd (es ! k)))" if k: "k < length es" for k
  proof (intro put_keeps_at)
    have "entry_off gz es k + length (entry_bytes gz (fst (es ! k)) (snd (es ! k))) = entry_off gz es (Suc k)"
      using entry_off_Suc [OF k, of gz] by (simp add: entry_len_def)
    then have "entry_off gz es k + length (entry_bytes gz (fst (es ! k)) (snd (es ! k))) \<le> entry_off gz es (length es)"
      using entry_off_mono [of "Suc k" "length es" gz es] k by simp
    then show "entry_off gz es k + length (entry_bytes gz (fst (es ! k)) (snd (es ! k))) \<le> off \<or> off + length bs \<le> entry_off gz es k"
      using r hs [of k] by auto
  qed (use b k in \<open>simp add: body_ok_def\<close>)
  ultimately show ?thesis using b put_size_le [of f off bs] by (simp add: body_ok_def)
qed

text \<open>After the entry and its end offset are written, the body holds one entry more.\<close>

lemma body_ok_append:
  fixes e :: entry
  assumes b: "body_ok gz f es" and n: "length es < unat ChunkUnit" and e: "entry_ok gz e"
    and sz: "entry_off gz es (length es) + entry_len gz e < 2 ^ 63"
  defines "off \<equiv> entry_off gz es (length es)"
  shows "body_ok gz (put (256 + length es * 8) (Uint64ToBytes (word_of_nat (off + entry_len gz e)))
           (put off (entry_bytes gz (fst e) (snd e)) f)) (es @ [e])" (is "body_ok gz ?g _")
proof -
  have hs: "header_size \<le> off" using entry_off_mono [of 0 "length es" gz es] by (simp add: off_def)
  have tab: "256 + length es * 8 + 8 \<le> header_size" using n by (simp add: chunk_consts)
  have offs: "off \<le> f_size f" "header_size \<le> f_size f" using b by (simp_all add: body_ok_def off_def)
  have old: "body_ok gz ?g es" using tab hs by (intro body_ok_put b) (auto simp: off_def)
  have new: "has_at ?g off (entry_bytes gz (fst e) (snd e))"
    using offs tab hs by (intro put_keeps_at put_has_at) auto
  have slot: "has_at ?g (256 + length es * 8) (Uint64ToBytes (word_of_nat (off + entry_len gz e)))"
    using offs tab put_size_le [of f off "entry_bytes gz (fst e) (snd e)"] by (intro put_has_at) simp
  have "off + entry_len gz e \<le> f_size ?g" using new by (simp add: has_at_def entry_len_def)
  then show ?thesis
    using old n e sz new slot unfolding body_ok_def
    by (auto simp: entry_off_snoc nth_append less_Suc_eq off_def [symmetric])
qed

section \<open>Appending\<close>

abbreviation head_bytes :: "pile \<Rightarrow> bytes" where "head_bytes p \<equiv> Uint32ToBytes (HeadHeight p + 1)"

definition append_body :: "(bytes \<Rightarrow> bytes) \<Rightarrow> entry list \<Rightarrow> entry \<Rightarrow> osfile \<Rightarrow> osfile" where
  "append_body gz es e f =
     put (256 + length es * 8) (Uint64ToBytes (word_of_nat (entry_off gz es (length es) + entry_len gz e)))
       (put (entry_off gz es (length es)) (entry_bytes gz (fst e) (snd e)) f)"

lemma pile_repD:
  assumes "pile_rep gz p es"
  shows "body_ok gz (p_file p) es" "HeadHeight p = BeginHeight p + word_of_nat (length es)" "BeginHeight p mod ChunkUnit = 0"
    "unat (BeginHeight p) + unat ChunkUnit < 2 ^ 32" "length (GenHash p) = 32"
    "has_at (p_file p) 0 (heads (HeadHeight p) (HeadHeight p) (HeadHeight p) (BeginHeight p) (GenHash p))"
  using assms unfolding pile_rep_def by blast+

lemma length_heads [simp]: "length (heads a b c d gen) = 20 + length gen"
  by (simp add: heads_def)

lemma AppendData_eq:
  assumes "pile_rep gz p es" "length es < unat ChunkUnit" "entry_ok gz e" "entry_off gz es (length es) + entry_len gz e < 2 ^ 63"
  shows "pile_AppendData gz (HeadHeight p + 1) (fst e) (snd e) p =
     Inr (p\<lparr>p_file := put 8 (head_bytes p) (put 4 (head_bytes p) (put 0 (head_bytes p) (append_body gz es e (p_file p)))),
            HeadHeight := HeadHeight p + 1\<rparr>)"
proof -
  note r = pile_repD(1,4,2) [OF assms(1)]
  have from_h: "uint (HeadHeight p - BeginHeight p) = int (length es)"
    unfolding r(3) using height_arith(1,2) [OF r(2), of "length es"] assms(2) by simp
  define off where "off = entry_off gz es (length es)"
  have total: "int off + (32 + 1 + 4 * int (length (snd e)) + (\<Sum>v\<leftarrow>snd e. int (length (gz v)))) = int (off + entry_len gz e)"
    using assms(3) by (simp add: entry_len_eq entry_ok_def comp_def flip: sum_list_of_nat)
  have slot: "ChunkMetaSize + int (length es) * 8 = int (256 + length es * 8)" by (simp add: chunk_consts)
  show ?thesis
    unfolding pile_AppendData_def Let_def from_h entry_offset_at [OF r(1) order_refl] append_body_def off_def [symmetric]
    by (simp only: simp_thms if_False bind_res.simps file_write_put file_write_heads total slot of_int_of_nat_eq)
qed

lemma heads_shift:
  assumes "has_at f 0 (heads a b c b0 gen)"
  shows "has_at (put 0 (Uint32ToBytes w) f) 0 (heads w b c b0 gen)" "has_at (put 4 (Uint32ToBytes w) f) 0 (heads a w c b0 gen)"
    "has_at (put 8 (Uint32ToBytes w) f) 0 (heads a b w b0 gen)"
  using put_split [of f 0 "[]" "Uint32ToBytes a" _ "Uint32ToBytes w"] put_split [of f 0 "Uint32ToBytes a" "Uint32ToBytes b" _ "Uint32ToBytes w"]
    put_split [of f 0 "Uint32ToBytes a @ Uint32ToBytes b" "Uint32ToBytes c" _ "Uint32ToBytes w"] assms
  by (simp_all add: heads_def)

lemma append_body_ok:
  assumes "pile_rep gz p es" "length es < unat ChunkUnit" "entry_ok gz e" "entry_off gz es (length es) + entry_len gz e < 2 ^ 63"
  shows "body_ok gz (append_body gz es e (p_file p)) (es @ [e])"
    "has_at (append_body gz es e (p_file p)) 0 (heads (HeadHeight p) (HeadHeight p) (HeadHeight p) (BeginHeight p) (GenHash p))"
proof -
  show "body_ok gz (append_body gz es e (p_file p)) (es @ [e])"
    unfolding append_body_def using assms by (intro body_ok_append) (simp_all add: pile_rep_def)
  show "has_at (append_body gz es e (p_file p)) 0 (heads (HeadHeight p) (HeadHeight p) (HeadHeight p) (BeginHeight p) (GenHash p))"
    unfolding append_body_def using pile_repD(5,6) [OF assms(1)] entry_off_mono [of 0 "length es" gz es]
    by (intro put_keeps_at) simp_all
qed

lemma AppendData_rep:
  assumes "pile_rep gz p es" "length es < unat ChunkUnit" "entry_ok gz e" "entry_off gz es (length es) + entry_len gz e < 2 ^ 63"
  shows "\<exists>p'. pile_AppendData gz (HeadHeight p + 1) (fst e) (snd e) p = Inr p' \<and> pile_rep gz p' (es @ [e])
     \<and> HeadHeight p' = HeadHeight p + 1 \<and> BeginHeight p' = BeginHeight p \<and> GenHash p' = GenHash p"
proof -
  note b = append_body_ok [OF assms]
  have "has_at (put 8 (head_bytes p) (put 4 (head_bytes p) (put 0 (head_bytes p) (append_body gz es e (p_file p))))) 0
     (heads (HeadHeight p + 1) (HeadHeight p + 1) (HeadHeight p + 1) (BeginHeight p) (GenHash p))"
    using b(2) by (rule heads_shift(3) [OF heads_shift(2) [OF heads_shift(1)]])
  moreover have "body_ok gz (put 8 (head_bytes p) (put 4 (head_bytes p) (put 0 (head_bytes p) (append_body gz es e (p_file p))))) (es @ [e])"
    using b(1) by (intro body_ok_put) simp_all
  ultimately show ?thesis
    using AppendData_eq [OF assms] pile_repD(2-5) [OF assms(1)] by (simp add: pile_rep_def)
qed

section \<open>New piles\<close>

lemma NewPile_rep:
  assumes "b mod ChunkUnit = 0" "unat b + unat ChunkUnit < 2 ^ 32" "length gen = 32"
  shows "\<exists>p. NewPile gen b = Inr p \<and> pile_rep gz p [] \<and> HeadHeight p = b \<and> BeginHeight p = b \<and> GenHash p = gen"
proof -
  define z :: bytes where "z = replicate 204 0"
  have z: "replicate (nat ChunkMetaSize) 0 = (replicate 52 0 :: bytes) @ z"
    by (simp add: chunk_consts z_def flip: replicate_add)
  have meta: "copy_at 20 gen (copy_at 16 (Uint32ToBytes (b + ChunkUnit)) (copy_at 12 (Uint32ToBytes b) (copy_at 8 (Uint32ToBytes b)
      (copy_at 4 (Uint32ToBytes b) (copy_at 0 (Uint32ToBytes b) (replicate (nat ChunkMetaSize) 0)))))) = heads b b b b gen @ z"
    unfolding z using assms(3) by (simp add: copy_at_def heads_def go_copy_def eval_nat_numeral)
  define f where "f = file_truncate (nat ChunkHeaderSize) empty_file"
  have sz: "f_size f = header_size" by (simp add: f_def file_truncate_def chunk_consts)
  have "has_at (put 0 (heads b b b b gen @ z) f) 0 (heads b b b b gen)"
    using put_has_at [of 0 f "heads b b b b gen @ z"] by (simp add: has_at_append)
  then show ?thesis
    unfolding NewPile_def Let_def meta using assms sz put_size_le [of f 0 "heads b b b b gen @ z"]
    by (simp add: f_def [symmetric] pile_rep_def body_ok_def entry_off_def)
qed

section \<open>Loading\<close>

lemma read_meta:
  assumes "has_at f 0 hs" "length hs \<le> 256" "256 \<le> f_size f"
  shows "\<exists>rest. file_read 0 256 f = Inr (hs @ rest)"
proof -
  have "map (f_bytes f) [0..<length hs] = hs" using assms(1) by (intro nth_equalityI) (simp_all add: has_at_def)
  moreover have "[0..<256] = [0..<length hs] @ [length hs..<256]" using assms(2) upt_add_eq_append [of 0 "length hs" "256 - length hs"] by simp
  moreover have "has_at f 0 (map (f_bytes f) [0..<256])" using assms(3) by (simp add: has_at_def)
  ultimately show ?thesis using read_has_at [of f 0 "map (f_bytes f) [0..<256]" 256] assms(2) by auto
qed

lemma go_copy_32: "length gen = 32 \<Longrightarrow> go_copy (replicate 32 0) (gen @ rest) = gen"
  by (simp add: go_copy_def)

lemma LoadPile_rep:
  assumes h: "has_at f 0 (heads a b c b0 gen)" and sz: "header_size \<le> f_size f"
    and b0: "b0 mod ChunkUnit = 0" "unat b0 + unat ChunkUnit < 2 ^ 32" "length gen = 32"
    and rep: "repair_heads a b c f = Inr (w, f')" "w = b0 + word_of_nat (length es)"
    and ok: "body_ok gz f' es" "has_at f' 0 (heads w w w b0 gen)"
  shows "\<exists>p. LoadPile f = Inr p \<and> pile_rep gz p es \<and> BeginHeight p = b0 \<and> GenHash p = gen"
proof -
  obtain rest where m: "file_read 0 256 f = Inr (heads a b c b0 gen @ rest)"
    using read_meta [OF h] sz b0(3) by auto
  have len: "length es \<le> unat ChunkUnit" using ok(1) by (simp add: body_ok_def)
  have fh: "uint (w - b0) = int (length es)" using height_arith(1,2) [OF b0(2) len] rep(2) by simp
  have off: "(if 0 < w - b0 then bind_res (file_read (ChunkMetaSize + (uint (w - b0) - 1) * 8) 8 f') (\<lambda>bs.
        bind_res (BytesToUint64 bs) (\<lambda>w. Inr (sint w))) else Inr ChunkHeaderSize) = Inr (int (entry_off gz es (length es)))"
    using entry_offset_at [OF ok(1) order_refl] unfolding entry_offset_def fh [symmetric] word_less_def by (simp only: unsigned_0)
  have fits: "\<not> int (f_size f') < int (entry_off gz es (length es))" using ok(1) by (simp add: body_ok_def)
  have "LoadPile f = Inr \<lparr>p_file = f', HeadHeight = w, BeginHeight = b0, GenHash = gen\<rparr>"
    unfolding LoadPile_def using m b0 rep(1) off fits go_copy_32 [OF b0(3)]
    by (simp add: Let_def heads_def chunk_consts Hash256Size_def)
  then show ?thesis using b0 ok rep(2) by (simp add: pile_rep_def)
qed

lemma body_ok_head: "body_ok gz f es \<Longrightarrow> off \<le> 8 \<Longrightarrow> body_ok gz (put off (Uint32ToBytes w) f) es"
  by (rule body_ok_put) simp_all

lemma crash_loads:
  assumes h: "has_at f 0 (heads a b c b0 gen)" and b0: "b0 mod ChunkUnit = 0" "unat b0 + unat ChunkUnit < 2 ^ 32" "length gen = 32"
    and old: "w = b0 + word_of_nat (length es)" and body: "body_ok gz f es" "body_ok gz f (es @ [e]) \<or> a = w \<and> b = w \<and> c = w"
    and crash: "b = w \<and> c = w \<or> a = w + 1 \<and> c = w \<or> a = w + 1 \<and> b = w + 1"
  shows "\<exists>p. LoadPile f = Inr p \<and> (pile_rep gz p es \<or> pile_rep gz p (es @ [e])) \<and> BeginHeight p = b0 \<and> GenHash p = gen"
proof -
  have sz: "header_size \<le> f_size f" using body(1) by (simp add: body_ok_def)
  have new: "w + 1 = b0 + word_of_nat (length (es @ [e]))" using old by (simp add: algebra_simps)
  note load = LoadPile_rep [OF h sz b0]
  consider "a = w" "b = w" "c = w" | "b = w" "c = w" "a \<noteq> w" | "a = w + 1" "c = w" "b \<noteq> w"
    | "a = w + 1" "b = w + 1" "c \<noteq> w" "c \<noteq> w + 1" | "a = w + 1" "b = w + 1" "c = w + 1"
    using crash by blast
  then show ?thesis
  proof cases
    case 1
    then have "repair_heads a b c f = Inr (w, f)" by (simp add: repair_heads_def)
    then show ?thesis using load [OF _ old body(1)] h 1 by auto
  next
    case 2
    then have "repair_heads a b c f = Inr (w, put 0 (Uint32ToBytes w) f)" by (simp add: repair_heads_def)
    then show ?thesis using load [OF _ old body_ok_head [OF body(1), of 0 w]] heads_shift(1) [OF h, of w] 2 by auto
  next
    case 3
    then have "repair_heads a b c f = Inr (w + 1, put 8 (Uint32ToBytes (w + 1)) (put 4 (Uint32ToBytes (w + 1)) f))" by (simp add: repair_heads_def)
    moreover have "body_ok gz f (es @ [e])" using body(2) 3 by auto
    ultimately show ?thesis
      using load [OF _ new body_ok_head [OF body_ok_head [of _ _ _ 4 "w + 1"], of _ _ _ 8 "w + 1"]]
        heads_shift(3) [OF heads_shift(2) [OF h, of "w + 1"], of "w + 1"] 3 by auto
  next
    case 4
    then have "repair_heads a b c f = Inr (w + 1, put 8 (Uint32ToBytes (w + 1)) f)" by (simp add: repair_heads_def)
    moreover have "body_ok gz f (es @ [e])" using body(2) 4 by auto
    ultimately show ?thesis
      using load [OF _ new body_ok_head [of _ _ _ 8 "w + 1"]] heads_shift(3) [OF h, of "w + 1"] 4 by auto
  next
    case 5
    then have "repair_heads a b c f = Inr (w + 1, f)" by (simp add: repair_heads_def)
    then show ?thesis using load [OF _ new] body(2) h 5 by auto
  qed
qed

end
