(* ===== verification/Pile_Crash.thy ===== *)
theory Pile_Crash
  imports Pile_Append
begin

text \<open>
  The properties of the block log: what was appended is read back, a crash inside an append loses at most the
  entry being appended, and the readers fail on entries with 64 datas or more.
\<close>

section \<open>What the readers show\<close>

fun append_all :: "(bytes \<Rightarrow> bytes) \<Rightarrow> entry list \<Rightarrow> pile \<Rightarrow> pile res" where
  "append_all gz [] p = Inr p"
| "append_all gz (e # es) p = bind_res (pile_AppendData gz (HeadHeight p + 1) (fst e) (snd e) p) (append_all gz es)"

text \<open>Entry \<open>k\<close> has the height \<open>BeginHeight + k + 1\<close>.\<close>

definition pile_shows :: "(bytes \<Rightarrow> bytes res) \<Rightarrow> pile \<Rightarrow> entry list \<Rightarrow> bool" where
  "pile_shows gunz p es \<longleftrightarrow>
     HeadHeight p = BeginHeight p + word_of_nat (length es)
     \<and> (\<forall>k<length es. pile_GetHash (BeginHeight p + word_of_nat (Suc k)) p = Inr (fst (es ! k))
          \<and> (\<forall>i. pile_GetData gunz (BeginHeight p + word_of_nat (Suc k)) i p =
                (if i < length (snd (es ! k)) then Inr (snd (es ! k) ! i) else Inl ErrInvalidDataIndex)))
     \<and> (\<forall>i. pile_GetData gunz (HeadHeight p + 1) i p = Inl ErrInvalidHeight_pile)"

lemma get_above_head:
  assumes "unat (BeginHeight p) + unat ChunkUnit < 2 ^ 32" "HeadHeight p = BeginHeight p + word_of_nat n" "BeginHeight p mod ChunkUnit = 0"
    "n \<le> unat ChunkUnit"
  shows "pile_GetData gunz (HeadHeight p + 1) i p = Inl ErrInvalidHeight_pile"
proof -
  have "unat (HeadHeight p) = unat (BeginHeight p) + n" using height_arith(3) [OF assms(1,4)] assms(2) by simp
  moreover obtain q where q: "unat (BeginHeight p) = 5184000 * q"
    using assms(3) chunk_consts(2) by (metis unsigned_0 unat_mod mod_0_imp_dvd dvdE)
  have "q \<le> 827" using assms(1) by (rule_tac ccontr) (simp add: q chunk_consts)
  then have "Suc (unat (BeginHeight p) + n) < 2 ^ 32" using assms(4) by (simp add: q chunk_consts)
  ultimately have "HeadHeight p < HeadHeight p + 1" by (simp add: word_less_nat_alt unat_word_ariths)
  then show ?thesis by (simp add: pile_GetData_def Let_def)
qed

lemma rep_shows:
  assumes "pile_rep gz p es" "\<And>d. gunz (gz d) = Inr d" "list_all (\<lambda>e. length (snd e) < 64) es"
  shows "pile_shows gunz p es"
proof -
  note r = pile_repD [OF assms(1)]
  have "length (snd (es ! k)) < 64" if "k < length es" for k using assms(3) that by (simp add: list_all_length)
  moreover have "length es \<le> unat ChunkUnit" using r(1) by (simp add: body_ok_def)
  ultimately show ?thesis
    unfolding pile_shows_def using gethash_at [OF r(1,4)] getdata_at [OF r(1,4) _ r(2) assms(2)] get_above_head [OF r(4,2,3)] r(2) by blast
qed

lemma append_all_rep:
  assumes "pile_rep gz p es" "list_all (entry_ok gz) es'" "length es + length es' \<le> unat ChunkUnit"
    "entry_off gz (es @ es') (length es + length es') < 2 ^ 63"
  shows "\<exists>p'. append_all gz es' p = Inr p' \<and> pile_rep gz p' (es @ es') \<and> BeginHeight p' = BeginHeight p \<and> GenHash p' = GenHash p"
  using assms
proof (induction es' arbitrary: p es)
  case (Cons e es')
  have "entry_off gz (es @ [e]) (Suc (length es)) \<le> entry_off gz (es @ e # es') (length es + length (e # es'))"
    by (simp add: entry_off_def)
  then have "entry_off gz es (length es) + entry_len gz e < 2 ^ 63" using Cons.prems(4) by (simp add: entry_off_snoc)
  then obtain p1 where p1: "pile_AppendData gz (HeadHeight p + 1) (fst e) (snd e) p = Inr p1" "pile_rep gz p1 (es @ [e])"
    "BeginHeight p1 = BeginHeight p" "GenHash p1 = GenHash p"
    using AppendData_rep [OF Cons.prems(1), of e] Cons.prems(2,3) by auto
  then show ?case using Cons.IH [OF p1(2)] Cons.prems by simp
qed simp

text \<open>The bytes a list of entries takes in a pile file.\<close>

definition log_size :: "(bytes \<Rightarrow> bytes) \<Rightarrow> entry list \<Rightarrow> nat" where
  "log_size gz es = header_size + sum_list (map (entry_len gz) es)"

lemma new_append_rep:
  assumes "b mod ChunkUnit = 0" "unat b + unat ChunkUnit < 2 ^ 32" "length gen = 32"
    "list_all (entry_ok gz) es" "length es \<le> unat ChunkUnit" "log_size gz es < 2 ^ 63"
  shows "\<exists>p. bind_res (NewPile gen b) (append_all gz es) = Inr p \<and> pile_rep gz p es \<and> BeginHeight p = b \<and> GenHash p = gen"
proof -
  obtain p0 where "NewPile gen b = Inr p0" "pile_rep gz p0 []" "BeginHeight p0 = b" "GenHash p0 = gen"
    using NewPile_rep [OF assms(1-3)] by blast
  then show ?thesis using append_all_rep [of gz p0 "[]" es] assms(4-6) by (simp add: log_size_def entry_off_def)
qed

section \<open>The round trip\<close>

text \<open>
  A new pile, after any sequence of appends that fits it, shows exactly these entries: at every height
  the hash and every data that was appended, \<open>ErrInvalidDataIndex\<close> past the last data and
  \<open>ErrInvalidHeight\<close> above the head, provided that decompression inverts compression and that no entry has
  64 datas or more.
\<close>

theorem pile_round_trip:
  assumes "b mod ChunkUnit = 0" "unat b + unat ChunkUnit < 2 ^ 32" "length gen = 32"
    "list_all (entry_ok gz) es" "length es \<le> unat ChunkUnit" "log_size gz es < 2 ^ 63"
    "\<And>d. gunz (gz d) = Inr d" "list_all (\<lambda>e. length (snd e) < 64) es"
  shows "\<exists>p. bind_res (NewPile gen b) (append_all gz es) = Inr p \<and> BeginHeight p = b \<and> pile_shows gunz p es"
  using new_append_rep [OF assms(1-6)] rep_shows [where gz = gz and gunz = gunz, OF _ assms(7,8)] by blast

theorem pile_round_trip_witness:
  "\<exists>p. bind_res (NewPile (replicate 32 7) ChunkUnit) (append_all id [(replicate 32 1, [[1, 2], []]), (replicate 32 2, [[3]])]) = Inr p
     \<and> BeginHeight p = ChunkUnit \<and> pile_shows Inr p [(replicate 32 1, [[1, 2], []]), (replicate 32 2, [[3]])]"
  by (rule pile_round_trip)
    (simp_all add: entry_ok_def log_size_def entry_len_eq chunk_consts)

section \<open>Crashes\<close>

text \<open>
  The writes of an append, in order, and the file after the first \<open>k\<close> bytes of a sequence of writes.
\<close>

definition append_writes :: "(bytes \<Rightarrow> bytes) \<Rightarrow> entry \<Rightarrow> pile \<Rightarrow> nat \<Rightarrow> (nat \<times> bytes) list" where
  "append_writes gz e p off =
     [(off, entry_bytes gz (fst e) (snd e)),
      (256 + unat (HeadHeight p - BeginHeight p) * 8, Uint64ToBytes (word_of_nat (off + entry_len gz e))),
      (0, head_bytes p), (4, head_bytes p), (8, head_bytes p)]"

fun torn :: "nat \<Rightarrow> (nat \<times> bytes) list \<Rightarrow> osfile \<Rightarrow> osfile" where
  "torn k [] f = f"
| "torn k ((off, bs) # ws) f = (if k < length bs then put off (take k bs) f else torn (k - length bs) ws (put off bs f))"

lemma word_of_4_bytes: "length bs = 4 \<Longrightarrow> \<exists>w. bs = Uint32ToBytes w"
proof -
  assume l: "length bs = 4"
  then have "unat (word_of_nat (le_to_nat bs) :: u32) = le_to_nat bs" using le_to_nat_bound [of bs] by (simp add: unat_of_nat)
  then have "Uint32ToBytes (word_of_nat (le_to_nat bs)) = bs" using nat_to_le_le_to_nat [of bs] l by (simp add: Uint32ToBytes_def)
  then show ?thesis by metis
qed

lemma put_partial:
  assumes "has_at f off (xs @ ys @ zs)" "length ys = length ws"
  shows "has_at (put (off + length xs) (take k ws) f) off (xs @ (take k ws @ drop k ys) @ zs)"
proof -
  have "has_at f off (xs @ take k ys @ drop k ys @ zs)" using assms(1) by (metis append.assoc append_take_drop_id)
  then show ?thesis using put_split [of f off xs "take k ys" "drop k ys @ zs" "take k ws"] assms(2) by simp
qed

lemma heads_torn:
  assumes "has_at f 0 (heads a b c b0 gen)"
  shows "\<exists>x. has_at (put 0 (take k (Uint32ToBytes w)) f) 0 (heads x b c b0 gen)"
    "\<exists>x. has_at (put 4 (take k (Uint32ToBytes w)) f) 0 (heads a x c b0 gen)"
    "\<exists>x. has_at (put 8 (take k (Uint32ToBytes w)) f) 0 (heads a b x b0 gen)"
proof -
  have mix: "\<exists>x. take k (Uint32ToBytes w) @ drop k (Uint32ToBytes v) = Uint32ToBytes x" for v
    using word_of_4_bytes [of "take k (Uint32ToBytes w) @ drop k (Uint32ToBytes v)"] by auto
  have part: "\<exists>x. has_at (put (length xs) (take k (Uint32ToBytes w)) f) 0 (xs @ Uint32ToBytes x @ zs)"
    if "has_at f 0 (xs @ Uint32ToBytes v @ zs)" for xs v zs
    using put_partial [OF that, of "Uint32ToBytes w" k] mix [of v] by (metis add_0 length_UintToBytes(2))
  show "\<exists>x. has_at (put 0 (take k (Uint32ToBytes w)) f) 0 (heads x b c b0 gen)"
    using part [of "[]" a] assms by (simp add: heads_def)
  show "\<exists>x. has_at (put 4 (take k (Uint32ToBytes w)) f) 0 (heads a x c b0 gen)"
    using part [of "Uint32ToBytes a" b] assms by (simp add: heads_def)
  show "\<exists>x. has_at (put 8 (take k (Uint32ToBytes w)) f) 0 (heads a b x b0 gen)"
    using part [of "Uint32ToBytes a @ Uint32ToBytes b" c] assms by (simp add: heads_def)
qed

text \<open>Where a crash leaves the file: the body still holds the old entries, and the new one once its head is touched.\<close>

lemma torn_heads:
  assumes "has_at g 0 (heads w w w b0 gen)" "body_ok gz g es'"
  shows "\<exists>a b c. has_at (torn k [(0, Uint32ToBytes (w + 1)), (4, Uint32ToBytes (w + 1)), (8, Uint32ToBytes (w + 1))] g) 0 (heads a b c b0 gen)
     \<and> (b = w \<and> c = w \<or> a = w + 1 \<and> c = w \<or> a = w + 1 \<and> b = w + 1)"
    "body_ok gz (torn k [(0, Uint32ToBytes (w + 1)), (4, Uint32ToBytes (w + 1)), (8, Uint32ToBytes (w + 1))] g) es'"
proof -
  note h1 = heads_shift(1) [OF assms(1), of "w + 1"]
  note h2 = heads_shift(2) [OF h1, of "w + 1"]
  note h3 = heads_shift(3) [OF h2, of "w + 1"]
  consider "k < 4" | "4 \<le> k" "k < 8" | "8 \<le> k" "k < 12" | "12 \<le> k" by linarith
  then show "\<exists>a b c. has_at (torn k [(0, Uint32ToBytes (w + 1)), (4, Uint32ToBytes (w + 1)), (8, Uint32ToBytes (w + 1))] g) 0 (heads a b c b0 gen)
     \<and> (b = w \<and> c = w \<or> a = w + 1 \<and> c = w \<or> a = w + 1 \<and> b = w + 1)"
  proof cases
    case 1
    then show ?thesis using heads_torn(1) [OF assms(1), of k "w + 1"] by auto
  next
    case 2
    then show ?thesis using heads_torn(2) [OF h1, of "k - 4" "w + 1"] by auto
  next
    case 3
    then show ?thesis using heads_torn(3) [OF h2, of "k - 8" "w + 1"] by auto
  next
    case 4
    then show ?thesis using h3 by auto
  qed
  show "body_ok gz (torn k [(0, Uint32ToBytes (w + 1)), (4, Uint32ToBytes (w + 1)), (8, Uint32ToBytes (w + 1))] g) es'"
    using assms(2) by (auto intro!: body_ok_put)
qed

lemma crash_rep:
  assumes rep: "pile_rep gz p es" and e: "length es < unat ChunkUnit" "entry_ok gz e" "entry_off gz es (length es) + entry_len gz e < 2 ^ 63"
  defines "off \<equiv> entry_off gz es (length es)"
  shows "\<exists>p'. LoadPile (torn k (append_writes gz e p off) (p_file p)) = Inr p'
     \<and> (pile_rep gz p' es \<or> pile_rep gz p' (es @ [e])) \<and> BeginHeight p' = BeginHeight p \<and> GenHash p' = GenHash p"
proof -
  note r = pile_repD [OF rep]
  have n: "unat (HeadHeight p - BeginHeight p) = length es"
    unfolding r(2) using e(1) by (simp add: unat_of_nat chunk_consts)
  have hs: "header_size \<le> off" using entry_off_mono [of 0 "length es" gz es] by (simp add: off_def)
  have keep: "has_at (put o' bs f) 0 (heads a b c (BeginHeight p) (GenHash p))"
    if "has_at f 0 (heads a b c (BeginHeight p) (GenHash p))" "256 \<le> o'" for f o' bs a b c
    using that r(5) by (intro put_keeps_at) simp_all
  define f1 where "f1 = put off (entry_bytes gz (fst e) (snd e)) (p_file p)"
  define W where "W = append_writes gz e p off"
  have body_e: "body_ok gz (put off bs (p_file p)) es" for bs using r(1) by (rule body_ok_put) (simp add: off_def)
  consider "k < entry_len gz e" | "entry_len gz e \<le> k" "k - entry_len gz e < 8" | "entry_len gz e + 8 \<le> k" by linarith
  then show ?thesis unfolding W_def [symmetric]
  proof cases
    case 1
    then have t: "torn k W (p_file p) = put off (take k (entry_bytes gz (fst e) (snd e))) (p_file p)" by (simp add: W_def append_writes_def entry_len_def)
    show "\<exists>p'. LoadPile (torn k W (p_file p)) = Inr p' \<and> (pile_rep gz p' es \<or> pile_rep gz p' (es @ [e])) \<and> BeginHeight p' = BeginHeight p \<and> GenHash p' = GenHash p"
      unfolding t by (rule crash_loads [OF keep [OF r(6)] r(3-5) r(2) body_e]) (use hs in simp_all)
  next
    case 2
    then have t: "torn k W (p_file p) = put (256 + length es * 8) (take (k - entry_len gz e) (Uint64ToBytes (word_of_nat (off + entry_len gz e)))) f1"
      by (simp add: W_def append_writes_def entry_len_def f1_def n)
    have bd: "body_ok gz (torn k W (p_file p)) es"
      unfolding t f1_def using e(1) by (intro body_ok_put [OF body_e] disjI2 disjI1) (auto simp: chunk_consts)
    have hd: "has_at (torn k W (p_file p)) 0 (heads (HeadHeight p) (HeadHeight p) (HeadHeight p) (BeginHeight p) (GenHash p))"
      unfolding t f1_def by (rule keep [OF keep [OF r(6)]]) (use hs in simp_all)
    show "\<exists>p'. LoadPile (torn k W (p_file p)) = Inr p' \<and> (pile_rep gz p' es \<or> pile_rep gz p' (es @ [e])) \<and> BeginHeight p' = BeginHeight p \<and> GenHash p' = GenHash p"
      by (rule crash_loads [OF hd r(3-5) r(2) bd]) simp_all
  next
    case 3
    define j where "j = k - entry_len gz e - 8"
    have t: "torn k W (p_file p) = torn j [(0, head_bytes p), (4, head_bytes p), (8, head_bytes p)] (append_body gz es e (p_file p))"
      using 3 by (simp add: W_def append_writes_def entry_len_def append_body_def n off_def j_def)
    note b = append_body_ok [OF rep e]
    note th = torn_heads [OF b(2), where k = j]
    show "\<exists>p'. LoadPile (torn k W (p_file p)) = Inr p' \<and> (pile_rep gz p' es \<or> pile_rep gz p' (es @ [e])) \<and> BeginHeight p' = BeginHeight p \<and> GenHash p' = GenHash p"
      unfolding t using th(1) [OF b(1)] crash_loads [OF _ r(3-5) r(2) th(2) [OF body_ok_prefix [OF b(1)]] disjI1 [OF th(2) [OF b(1)]]] by blast
  qed
qed

lemma torn_append:
  assumes "pile_rep gz p es" "length es < unat ChunkUnit" "entry_ok gz e" "entry_off gz es (length es) + entry_len gz e < 2 ^ 63"
    "entry_len gz e + 20 \<le> k"
  shows "pile_AppendData gz (HeadHeight p + 1) (fst e) (snd e) p =
     Inr (p\<lparr>p_file := torn k (append_writes gz e p (entry_off gz es (length es))) (p_file p), HeadHeight := HeadHeight p + 1\<rparr>)"
proof -
  have "unat (HeadHeight p - BeginHeight p) = length es"
    unfolding pile_repD(2) [OF assms(1)] using assms(2) by (simp add: unat_of_nat chunk_consts)
  then show ?thesis using assms(5) by (simp add: AppendData_eq [OF assms(1-4)] append_writes_def entry_len_def append_body_def)
qed



section \<open>Many datas\<close>

text \<open>
  C37. \<open>AppendData\<close> accepts up to 255 datas in an entry, but the readers compute the length of the size table
  as \<open>4*lbs[0]\<close> on bytes, which wraps: of an entry with 64 datas or more, every data whose index is at least
  the number of datas modulo 64 makes \<open>GetData\<close> panic.
\<close>

theorem GetData_many:
  assumes "b mod ChunkUnit = 0" "unat b + unat ChunkUnit < 2 ^ 32" "length gen = 32"
    "list_all (entry_ok gz) (es @ [e])" "length (es @ [e]) \<le> unat ChunkUnit" "log_size gz (es @ [e]) < 2 ^ 63"
    "64 \<le> length (snd e)" "length (snd e) mod 64 \<le> i" "i < length (snd e)"
  shows "\<exists>p. bind_res (NewPile gen b) (append_all gz (es @ [e])) = Inr p \<and> pile_GetHash (HeadHeight p) p = Inr (fst e)
     \<and> pile_GetData gunz (HeadHeight p) i p = Inl Panic"
proof -
  obtain p where p: "bind_res (NewPile gen b) (append_all gz (es @ [e])) = Inr p" "pile_rep gz p (es @ [e])"
    using new_append_rep [OF assms(1-6)] by auto
  note r = pile_repD [OF p(2)]
  have "HeadHeight p = BeginHeight p + word_of_nat (Suc (length es))" using r(2) by simp
  then show ?thesis
    using p(1) gethash_at [OF r(1,4), of "length es"] getdata_many [OF r(1,4) _ r(2), of "length es" i gunz] assms(7-9) by simp
qed

theorem GetData_many_witness:
  "\<exists>p. bind_res (NewPile (replicate 32 7) 0) (append_all id ([] @ [(replicate 32 1, replicate 64 [])])) = Inr p
     \<and> pile_GetHash (HeadHeight p) p = Inr (replicate 32 1) \<and> pile_GetData Inr (HeadHeight p) 0 p = Inl Panic"
  using GetData_many [of 0 "replicate 32 7" id "[]" "(replicate 32 1, replicate 64 [])" 0 Inr]
  by (simp add: entry_ok_def log_size_def entry_len_eq chunk_consts sum_list_replicate list_all_iff)

end
