(* ===== verification/Pile_DB.thy ===== *)
theory Pile_DB
  imports Pile_Crash
begin

text \<open>
  The database of piles implements one log: entry \<open>h - 1\<close> of the log is at height \<open>h\<close>, whichever pile holds
  it, and an append starts a new pile when the last one is full.
\<close>

section \<open>Consecutive datas\<close>

lemma read_datas_at:
  assumes "has_at f off (concat zs)" "list_all (\<lambda>z. length z < 2 ^ 32) zs" "zs = map gz ds" "\<And>d. gunz (gz d) = Inr d"
  shows "i + n \<le> length zs \<Longrightarrow>
    read_datas gunz (sizes zs) i n (int off + int (sum_list (map length (take i zs)))) f = Inr (concat (take n (drop i ds)))"
proof (induction n arbitrary: i)
  case (Suc n)
  then have i: "i < length zs" by simp
  have "length (zs ! i) < 2 ^ 32" using assms(2) i by (simp add: list_all_length)
  note sz = uint_size [OF this]
  have "file_read (int off + int (sum_list (map length (take i zs)))) (length (zs ! i)) f = Inr (zs ! i)"
    using read_has_at [OF data_at [OF assms(1) i]] by simp
  moreover have "gunz (zs ! i) = Inr (ds ! i)" using assms(3,4) i by simp
  moreover have "take (Suc n) (drop i ds) = ds ! i # take n (drop (Suc i) ds)" using i assms(3) by (simp flip: Cons_nth_drop_Suc)
  moreover have "read_datas gunz (sizes zs) (Suc i) n (int off + int (sum_list (map length (take i zs))) + int (length (zs ! i))) f
      = Inr (concat (take n (drop (Suc i) ds)))"
    using Suc.IH [of "Suc i"] Suc.prems i by (simp add: take_Suc_conv_app_nth add.assoc)
  ultimately show ?case using size_at [OF i] sz by simp
qed simp

lemma getdatas_at:
  assumes "body_ok gz (p_file p) es" "unat (BeginHeight p) + unat ChunkUnit < 2 ^ 32" "k < length es"
    "HeadHeight p = BeginHeight p + word_of_nat (length es)" "\<And>d. gunz (gz d) = Inr d" "length (snd (es ! k)) < 64"
  shows "pile_GetDatas gunz (BeginHeight p + word_of_nat (Suc k)) i n p =
     (if i + n \<le> length (snd (es ! k)) then Inr (concat (take n (drop i (snd (es ! k))))) else Inl ErrInvalidDataIndex)"
proof -
  define ds where "ds = snd (es ! k)" define off where "off = entry_off gz es k"
  have len: "Suc k \<le> unat ChunkUnit" "length es \<le> unat ChunkUnit" using assms by (auto simp: body_ok_def)
  note ar = height_arith [OF assms(2) len(1)]
  note rd = entry_reads [OF assms(1,3,6), folded ds_def off_def]
  have hd: "\<not> HeadHeight p < BeginHeight p + word_of_nat (Suc k)"
    using head_arith [OF assms(2) _ len(2), of "Suc k"] assms(3,4) by simp
  have k1: "uint (word_of_nat (Suc k) :: u32) - 1 = int k" using ar(2) by simp
  have tail: "bind_res (sum_sizes (sizes (map gz ds)) 0 i) (\<lambda>skip.
       read_datas gunz (sizes (map gz ds)) i n (int off + 32 + 1 + uint (4 * word_of_nat (length ds) :: byte) + skip) (p_file p))
       = Inr (concat (take n (drop i ds)))" if "i + n \<le> length ds"
    using that read_datas_at [OF rd(6,7) refl assms(5), of i n] sum_sizes_at [OF _ rd(7), of 0 i] rd(4)
    by (simp add: add.commute add.left_commute)
  show ?thesis
    unfolding pile_GetDatas_def Let_def ar(1) k1 rd(1) using ar(4) hd rd(2,3,5) tail
    by (simp add: ds_def [symmetric])
qed

section \<open>The log\<close>

abbreviation unit :: nat where "unit \<equiv> unat ChunkUnit"

definition db_rep :: "(bytes \<Rightarrow> bytes) \<Rightarrow> pile_db \<Rightarrow> entry list list \<Rightarrow> bool" where
  "db_rep gz db ess \<longleftrightarrow>
     ess \<noteq> [] \<and> length (db_piles db) = length ess \<and> length (db_genHash db) = 32
     \<and> (\<forall>i<length ess. pile_rep gz (db_piles db ! i) (ess ! i) \<and> unat (BeginHeight (db_piles db ! i)) = i * unit
          \<and> GenHash (db_piles db ! i) = db_genHash db)
     \<and> list_all (\<lambda>es. length es = unit) (butlast ess) \<and> (butlast ess = [] \<or> last ess \<noteq> [])"

lemma concat_nth_full:
  assumes "list_all (\<lambda>es. length es = u) (butlast ess)" "ess \<noteq> [] \<Longrightarrow> length (last ess) \<le> u" "h < length (concat ess)" "0 < u"
  shows "h div u < length ess \<and> h mod u < length (ess ! (h div u)) \<and> concat ess ! h = ess ! (h div u) ! (h mod u)"
  using assms
proof (induction ess arbitrary: h)
  case (Cons es ess)
  show ?case
  proof (cases "h < length es")
    case True
    then have "h < u" using Cons.prems by (cases "ess = []") auto
    then show ?thesis using True by (simp add: nth_append)
  next
    case False
    then have ne: "ess \<noteq> []" using Cons.prems by auto
    then have l: "length es = u" using Cons.prems(1) by simp
    have "(h - u) div u < length ess \<and> (h - u) mod u < length (ess ! ((h - u) div u)) \<and> concat ess ! (h - u) = ess ! ((h - u) div u) ! ((h - u) mod u)"
      using Cons.prems ne l False by (intro Cons.IH) auto
    then show ?thesis using False l Cons.prems(4) by (simp add: nth_append le_div_geq le_mod_geq)
  qed
qed simp

lemma length_concat_full: "list_all (\<lambda>es. length es = u) fs \<Longrightarrow> length (concat (fs @ [es])) = length fs * u + length es"
  by (induction fs) auto

lemma db_rep_snoc:
  "db_piles db = ps @ [p] \<Longrightarrow> db_rep gz db (fs @ [es]) \<longleftrightarrow>
     length ps = length fs \<and> length (db_genHash db) = 32
     \<and> (\<forall>i<length fs. pile_rep gz (ps ! i) (fs ! i) \<and> unat (BeginHeight (ps ! i)) = i * unit \<and> GenHash (ps ! i) = db_genHash db)
     \<and> pile_rep gz p es \<and> unat (BeginHeight p) = length fs * unit \<and> GenHash p = db_genHash db
     \<and> list_all (\<lambda>es. length es = unit) fs \<and> (fs = [] \<or> es \<noteq> [])"
  unfolding db_rep_def by (auto simp: nth_append less_Suc_eq all_conj_distrib)

lemma db_rep_cases:
  assumes "db_rep gz db ess"
  obtains ps p fs es where "db_piles db = ps @ [p]" "ess = fs @ [es]" "length ps = length fs" "pile_rep gz p es"
    "unat (BeginHeight p) = length fs * unit" "list_all (\<lambda>es. length es = unit) fs" "length es \<le> unit"
    "HeadHeight p = word_of_nat (length (concat ess))" "length (concat ess) = length fs * unit + length es"
    "fs = [] \<or> es \<noteq> []"
proof -
  obtain fs es where ess: "ess = fs @ [es]" using assms unfolding db_rep_def by (metis rev_exhaust)
  obtain ps p where ps: "db_piles db = ps @ [p]" using assms unfolding db_rep_def by (metis length_0_conv rev_exhaust)
  have r: "length ps = length fs" "pile_rep gz p es" "unat (BeginHeight p) = length fs * unit" "list_all (\<lambda>es. length es = unit) fs"
    "fs = [] \<or> es \<noteq> []"
    using assms db_rep_snoc [OF ps] unfolding ess by blast+
  have "BeginHeight p = word_of_nat (length fs * unit)" using r(3) by (metis of_nat_unat ucast_id)
  then have "HeadHeight p = word_of_nat (length (concat ess))"
    using pile_repD(2) [OF r(2)] length_concat_full [OF r(4), of es] unfolding ess by simp
  moreover have "length es \<le> unit" using pile_repD(1) [OF r(2)] by (simp add: body_ok_def)
  ultimately show ?thesis using that ess ps r length_concat_full [OF r(4), of es] by simp
qed

text \<open>Where an entry of the log is.\<close>

lemma db_locate:
  assumes "db_rep gz db ess" "j < length (concat ess)"
  defines "h \<equiv> (word_of_nat (Suc j) :: u32)" and "i \<equiv> j div unit" and "k \<equiv> j mod unit"
  shows "h \<noteq> 0" "unat ((h - 1) div ChunkUnit) = i" "i < length (db_piles db)" "pile_rep gz (db_piles db ! i) (ess ! i)"
    "k < length (ess ! i)" "h = BeginHeight (db_piles db ! i) + word_of_nat (Suc k)" "concat ess ! j = ess ! i ! k"
proof -
  obtain ps p fs es where "db_piles db = ps @ [p]" and c: "ess = fs @ [es]" "length ps = length fs" "pile_rep gz p es"
    "unat (BeginHeight p) = length fs * unit" and "list_all (\<lambda>es. length es = unit) fs" and c5: "length es \<le> unit"
    and "HeadHeight p = word_of_nat (length (concat ess))" and c6: "length (concat ess) = length fs * unit + length es"
    and "fs = [] \<or> es \<noteq> []"
    by (rule db_rep_cases [OF assms(1)])
  note c = c c5 c6
  have j: "Suc j < 2 ^ 32" using assms(2) c(4-6) pile_repD(4) [OF c(3)] by simp
  then have u: "unat h = Suc j" unfolding h_def by (simp add: unat_of_nat del: of_nat_Suc)
  then show "h \<noteq> 0" by (metis nat.distinct(1) unsigned_0)
  have "h - 1 = word_of_nat j" by (simp add: h_def)
  then have "unat (h - 1) = j" using j by (simp add: unat_of_nat)
  then show "unat ((h - 1) div ChunkUnit) = i" by (simp add: unat_div i_def)
  have f: "list_all (\<lambda>es. length es = unit) (butlast ess)" using assms(1) by (simp add: db_rep_def)
  have loc: "i < length ess \<and> k < length (ess ! i) \<and> concat ess ! j = ess ! i ! k"
    unfolding i_def k_def using concat_nth_full [OF f _ assms(2)] c(1,5) by (simp add: chunk_consts)
  then show "i < length (db_piles db)" "k < length (ess ! i)" "concat ess ! j = ess ! i ! k" using assms(1) by (simp_all add: db_rep_def)
  have r: "pile_rep gz (db_piles db ! i) (ess ! i)" "unat (BeginHeight (db_piles db ! i)) = i * unit" using assms(1) loc by (simp_all add: db_rep_def)
  show "pile_rep gz (db_piles db ! i) (ess ! i)" by (rule r)
  have "Suc k \<le> unit" by (simp add: k_def chunk_consts Suc_leI)
  then have "unat (BeginHeight (db_piles db ! i) + word_of_nat (Suc k)) = i * unit + Suc k"
    using height_arith(3) [OF pile_repD(4) [OF r(1)], of "Suc k"] r(2) by simp
  then have "unat (BeginHeight (db_piles db ! i) + word_of_nat (Suc k)) = unat h" using u by (simp add: i_def k_def)
  then show "h = BeginHeight (db_piles db ! i) + word_of_nat (Suc k)" by (simp add: word_unat_eq_iff)
qed

lemma db_reads:
  assumes "db_rep gz db ess" "j < length (concat ess)" "\<And>d. gunz (gz d) = Inr d"
  shows "db_GetHash (word_of_nat (Suc j)) db = Inr (fst (concat ess ! j))"
    "length (snd (concat ess ! j)) < 64 \<Longrightarrow> db_GetData gunz (word_of_nat (Suc j)) i db =
       (if i < length (snd (concat ess ! j)) then Inr (snd (concat ess ! j) ! i) else Inl ErrInvalidDataIndex)"
    "length (snd (concat ess ! j)) < 64 \<Longrightarrow> db_GetDatas gunz (word_of_nat (Suc j)) i n db =
       (if i + n \<le> length (snd (concat ess ! j)) then Inr (concat (take n (drop i (snd (concat ess ! j))))) else Inl ErrInvalidDataIndex)"
proof -
  note l = db_locate [OF assms(1,2)]
  note r = pile_repD [OF l(4)]
  note at = gethash_at [OF r(1,4) l(5), folded l(6)] getdata_at [OF r(1,4) l(5) r(2) assms(3), folded l(6)]
    getdatas_at [OF r(1,4) l(5) r(2) assms(3), folded l(6)]
  show "db_GetHash (word_of_nat (Suc j)) db = Inr (fst (concat ess ! j))"
    using l(1-3,7) at(1) by (simp add: db_GetHash_def Let_def del: of_nat_Suc)
  show "db_GetData gunz (word_of_nat (Suc j)) i db =
       (if i < length (snd (concat ess ! j)) then Inr (snd (concat ess ! j) ! i) else Inl ErrInvalidDataIndex)"
    if "length (snd (concat ess ! j)) < 64" using l(1-3,7) at(2) [of i] that by (simp add: db_GetData_def Let_def del: of_nat_Suc)
  show "db_GetDatas gunz (word_of_nat (Suc j)) i n db =
       (if i + n \<le> length (snd (concat ess ! j)) then Inr (concat (take n (drop i (snd (concat ess ! j))))) else Inl ErrInvalidDataIndex)"
    if "length (snd (concat ess ! j)) < 64" using l(1-3,7) at(3) [of i n] that by (simp add: db_GetDatas_def Let_def del: of_nat_Suc)
qed

text \<open>The pile that follows a full one.\<close>

lemma next_pile:
  assumes rep: "pile_rep gz p es" and full: "length es = unit" and beg: "unat (BeginHeight p) = n * unit"
    and bound: "Suc n * unit \<le> 4 * 10 ^ 9" and gen: "length gen = 32"
  shows "\<exists>v. NewPile gen (BeginHeight p + ChunkUnit) = Inr v \<and> pile_rep gz v [] \<and> HeadHeight v = HeadHeight p
     \<and> BeginHeight v = BeginHeight p + ChunkUnit \<and> GenHash v = gen"
proof -
  note r = pile_repD [OF rep]
  have b: "unat (BeginHeight p + ChunkUnit) = Suc n * unit" using r(4) beg by (simp add: unat_word_ariths)
  then have b2: "unat (BeginHeight p + ChunkUnit) + unit < 2 ^ 32" using bound by (simp add: chunk_consts)
  have "unat ((BeginHeight p + ChunkUnit) mod ChunkUnit) = 0" unfolding unat_mod b by simp
  then have b1: "(BeginHeight p + ChunkUnit) mod ChunkUnit = 0" by (simp add: unat_eq_zero)
  have "HeadHeight p = BeginHeight p + ChunkUnit" using r(2) full by (simp add: chunk_consts ChunkUnit_def)
  then show ?thesis using NewPile_rep [OF b1 b2 gen] by metis
qed

lemma db_append:
  assumes "db_rep gz db ess" "entry_ok gz e" "length (concat ess) \<le> 4 * 10 ^ 9" "log_size gz (concat ess @ [e]) < 2 ^ 63"
  shows "\<exists>db' ess'. db_AppendData gz now (word_of_nat (Suc (length (concat ess)))) (fst e) (snd e) db = Inr db'
     \<and> db_rep gz db' ess' \<and> concat ess' = concat ess @ [e] \<and> db_genHash db' = db_genHash db"
proof -
  obtain ps p fs es where ps: "db_piles db = ps @ [p]" and ess: "ess = fs @ [es]" and len: "length ps = length fs" and rep: "pile_rep gz p es"
    and beg: "unat (BeginHeight p) = length fs * unit" and full: "list_all (\<lambda>es. length es = unit) fs" and les: "length es \<le> unit"
    and head: "HeadHeight p = word_of_nat (length (concat ess))" and lc: "length (concat ess) = length fs * unit + length es"
    and "fs = [] \<or> es \<noteq> []"
    by (rule db_rep_cases [OF assms(1)])
  note r = pile_repD [OF rep]
  have rest: "length (db_genHash db) = 32" "\<forall>i<length fs. pile_rep gz (ps ! i) (fs ! i) \<and> unat (BeginHeight (ps ! i)) = i * unit \<and> GenHash (ps ! i) = db_genHash db"
    "GenHash p = db_genHash db"
    using assms(1) db_rep_snoc [OF ps] unfolding ess by blast+
  have n: "length (snd e) \<le> 255" using assms(2) by (simp add: entry_ok_def)
  have h1: "word_of_nat (Suc (length (concat ess))) = HeadHeight p + 1" using head by simp
  have fromh: "HeadHeight p - BeginHeight p = word_of_nat (length es)" using r(2) by simp
  have isfull: "ChunkUnit \<le> HeadHeight p - BeginHeight p \<longleftrightarrow> length es = unit"
    unfolding fromh using les by (auto simp: word_le_nat_alt unat_of_nat chunk_consts)
  show ?thesis
  proof (cases "length es = unit")
    case False
    have "entry_off gz es (length es) + entry_len gz e < 2 ^ 63" using assms(4) unfolding ess by (simp add: log_size_def entry_off_def)
    then obtain p' where p': "pile_AppendData gz (HeadHeight p + 1) (fst e) (snd e) p = Inr p'" "pile_rep gz p' (es @ [e])"
      "BeginHeight p' = BeginHeight p" "GenHash p' = GenHash p"
      using AppendData_rep [OF rep _ assms(2)] les False by auto
    define db' where "db' = db\<lparr>db_piles := ps @ [p'], hasDirty := \<not> (syncMode db \<or> 1000000000 \<le> lastSyncTime db - now),
      lastSyncTime := (if syncMode db \<or> 1000000000 \<le> lastSyncTime db - now then now else lastSyncTime db)\<rparr>"
    have "db_AppendData gz now (HeadHeight p + 1) (fst e) (snd e) db = Inr db'"
      using n isfull False by (simp add: db_AppendData_def ps p'(1) db'_def Let_def)
    moreover have "db_rep gz db' (fs @ [es @ [e]])"
      using db_rep_snoc [of db' ps p' gz fs "es @ [e]"] rest len beg full p' by (simp add: db'_def)
    moreover have "db_genHash db' = db_genHash db" by (simp add: db'_def)
    ultimately show ?thesis unfolding h1 by (intro exI [of _ db'] exI [of _ "fs @ [es @ [e]]"]) (simp add: ess)
  next
    case True
    have b: "unat (BeginHeight p + ChunkUnit) = Suc (length fs) * unit" using r(4) beg by (simp add: unat_word_ariths)
    have "Suc (length fs) * unit = length (concat ess)" using lc True by simp
    then obtain v where v: "NewPile (db_genHash db) (BeginHeight p + ChunkUnit) = Inr v" "pile_rep gz v []"
      "HeadHeight v = HeadHeight p" "BeginHeight v = BeginHeight p + ChunkUnit" "GenHash v = db_genHash db"
      using next_pile [OF rep True beg _ rest(1)] assms(3) by auto
    have "entry_off gz [] (length []) + entry_len gz e < 2 ^ 63" using assms(4) by (simp add: log_size_def entry_off_def)
    then obtain p' where p': "pile_AppendData gz (HeadHeight p + 1) (fst e) (snd e) v = Inr p'" "pile_rep gz p' [e]"
      "BeginHeight p' = BeginHeight p + ChunkUnit" "GenHash p' = db_genHash db"
      using AppendData_rep [OF v(2) _ assms(2)] v by (auto simp: chunk_consts)
    define db' where "db' = db\<lparr>db_piles := (ps @ [p]) @ [p'], hasDirty := \<not> (syncMode db \<or> 1000000000 \<le> lastSyncTime db - now),
      lastSyncTime := (if syncMode db \<or> 1000000000 \<le> lastSyncTime db - now then now else lastSyncTime db)\<rparr>"
    have "db_AppendData gz now (HeadHeight p + 1) (fst e) (snd e) db = Inr db'"
      using n isfull True by (simp add: db_AppendData_def ps p'(1) v(1) db'_def Let_def butlast_append)
    moreover have "db_rep gz db' ((fs @ [es]) @ [[e]])"
      using db_rep_snoc [of db' "ps @ [p]" p' gz "fs @ [es]" "[e]"] rest len beg full p' rep True b
      by (auto simp: db'_def nth_append less_Suc_eq)
    moreover have "db_genHash db' = db_genHash db" by (simp add: db'_def)
    ultimately show ?thesis unfolding h1 by (intro exI [of _ db'] exI [of _ "(fs @ [es]) @ [[e]]"]) (simp add: ess)
  qed
qed

section \<open>The interface of the block log\<close>

fun log_run :: "('c \<Rightarrow> u32 \<Rightarrow> hash256 \<Rightarrow> bytes list \<Rightarrow> 'l \<Rightarrow> 'l res) \<Rightarrow> (nat \<Rightarrow> 'c) \<Rightarrow> nat \<Rightarrow> entry list \<Rightarrow> 'l \<Rightarrow> 'l res" where
  "log_run app clock n [] l = Inr l"
| "log_run app clock n (e # es) l =
     bind_res (app (clock n) (word_of_nat (Suc n)) (fst e) (snd e) l) (log_run app clock (Suc n) es)"

text \<open>What the chain store relies on: a log that grows at the end and is read by height.\<close>

locale block_log =
  fixes app :: "'c \<Rightarrow> u32 \<Rightarrow> hash256 \<Rightarrow> bytes list \<Rightarrow> 'l \<Rightarrow> 'l res"
    and get_hash :: "u32 \<Rightarrow> 'l \<Rightarrow> hash256 res"
    and get_data :: "u32 \<Rightarrow> nat \<Rightarrow> 'l \<Rightarrow> bytes res"
    and get_datas :: "u32 \<Rightarrow> nat \<Rightarrow> nat \<Rightarrow> 'l \<Rightarrow> bytes res"
    and holds :: "'l \<Rightarrow> entry list \<Rightarrow> bool"
    and fits :: "entry list \<Rightarrow> bool"
  assumes app_holds: "holds l es \<Longrightarrow> fits (es @ [e]) \<Longrightarrow>
      \<exists>l'. app c (word_of_nat (Suc (length es))) (fst e) (snd e) l = Inr l' \<and> holds l' (es @ [e])"
    and get_hash_at: "holds l es \<Longrightarrow> fits es \<Longrightarrow> j < length es \<Longrightarrow> get_hash (word_of_nat (Suc j)) l = Inr (fst (es ! j))"
    and get_data_at: "holds l es \<Longrightarrow> fits es \<Longrightarrow> j < length es \<Longrightarrow> get_data (word_of_nat (Suc j)) i l =
      (if i < length (snd (es ! j)) then Inr (snd (es ! j) ! i) else Inl ErrInvalidDataIndex)"
    and get_datas_at: "holds l es \<Longrightarrow> fits es \<Longrightarrow> j < length es \<Longrightarrow> get_datas (word_of_nat (Suc j)) i n l =
      (if i + n \<le> length (snd (es ! j)) then Inr (concat (take n (drop i (snd (es ! j))))) else Inl ErrInvalidDataIndex)"
    and fits_prefix: "fits (es @ es') \<Longrightarrow> fits es"
begin

lemma run_holds:
  assumes "holds l es" "fits (es @ es')"
  shows "\<exists>l'. log_run app clock (length es) es' l = Inr l' \<and> holds l' (es @ es')"
  using assms
proof (induction es' arbitrary: l es)
  case (Cons e es')
  have "fits (es @ [e])" using Cons.prems(2) fits_prefix [of "es @ [e]" es'] by simp
  then obtain l1 where l1: "app (clock (length es)) (word_of_nat (Suc (length es))) (fst e) (snd e) l = Inr l1" "holds l1 (es @ [e])"
    using app_holds Cons.prems(1) by blast
  then show ?case using Cons.IH [OF l1(2)] Cons.prems(2) by (simp del: of_nat_Suc)
qed simp

lemma run_reads:
  assumes "holds l []" "fits es"
  shows "\<exists>l'. log_run app clock 0 es l = Inr l' \<and> (\<forall>j<length es. get_hash (word_of_nat (Suc j)) l' = Inr (fst (es ! j))
     \<and> (\<forall>i. get_data (word_of_nat (Suc j)) i l' = (if i < length (snd (es ! j)) then Inr (snd (es ! j) ! i) else Inl ErrInvalidDataIndex))
     \<and> (\<forall>i n. get_datas (word_of_nat (Suc j)) i n l' =
          (if i + n \<le> length (snd (es ! j)) then Inr (concat (take n (drop i (snd (es ! j))))) else Inl ErrInvalidDataIndex)))"
  using run_holds [of l "[]" es clock] assms get_hash_at get_data_at get_datas_at by fastforce

end

definition db_fits :: "(bytes \<Rightarrow> bytes) \<Rightarrow> entry list \<Rightarrow> bool" where
  "db_fits gz es \<longleftrightarrow> list_all (\<lambda>e. entry_ok gz e \<and> length (snd e) < 64) es \<and> length es \<le> 4 * 10 ^ 9 \<and> log_size gz es < 2 ^ 63"

text \<open>Compression is a parameter; the log can be read where decompression inverts it.\<close>

definition gzip_ok :: "(bytes \<Rightarrow> bytes) \<Rightarrow> (bytes \<Rightarrow> bytes res) \<Rightarrow> bool" where
  "gzip_ok gz gunz \<longleftrightarrow> (\<forall>d. gunz (gz d) = Inr d)"

definition db_holds :: "(bytes \<Rightarrow> bytes) \<Rightarrow> (bytes \<Rightarrow> bytes res) \<Rightarrow> hash256 \<Rightarrow> pile_db \<Rightarrow> entry list \<Rightarrow> bool" where
  "db_holds gz gunz gen db es \<longleftrightarrow> gzip_ok gz gunz \<and> db_genHash db = gen \<and> (\<exists>ess. db_rep gz db ess \<and> concat ess = es)"

interpretation db_log: block_log "db_AppendData gz" db_GetHash "db_GetData gunz" "db_GetDatas gunz" "db_holds gz gunz gen" "db_fits gz"
  for gz gunz gen
proof
  fix db es c j i n and e :: entry
  show "\<exists>l'. db_AppendData gz c (word_of_nat (Suc (length es))) (fst e) (snd e) db = Inr l' \<and> db_holds gz gunz gen l' (es @ [e])"
    if h: "db_holds gz gunz gen db es" "db_fits gz (es @ [e])"
  proof -
    obtain ess where "db_rep gz db ess" "concat ess = es" "gzip_ok gz gunz" "db_genHash db = gen" using h(1) by (auto simp: db_holds_def)
    moreover have "entry_ok gz e" "length es \<le> 4 * 10 ^ 9" "log_size gz (es @ [e]) < 2 ^ 63" using h(2) by (auto simp: db_fits_def)
    ultimately show ?thesis using db_append [of gz db ess e c] unfolding db_holds_def by metis
  qed
  assume h: "db_holds gz gunz gen db es" "db_fits gz es" "j < length es"
  then have ok: "gunz (gz d) = Inr d" for d by (simp add: db_holds_def gzip_ok_def)
  note rd = db_reads [where gz = gz and gunz = gunz, OF _ _ ok]
  from h have "length (snd (es ! j)) < 64" by (simp add: db_fits_def list_all_length)
  with h show "db_GetHash (word_of_nat (Suc j)) db = Inr (fst (es ! j))"
    "db_GetData gunz (word_of_nat (Suc j)) i db = (if i < length (snd (es ! j)) then Inr (snd (es ! j) ! i) else Inl ErrInvalidDataIndex)"
    "db_GetDatas gunz (word_of_nat (Suc j)) i n db =
      (if i + n \<le> length (snd (es ! j)) then Inr (concat (take n (drop i (snd (es ! j))))) else Inl ErrInvalidDataIndex)"
    using rd unfolding db_holds_def by blast+
next
  fix es es' :: "entry list"
  show "db_fits gz es" if "db_fits gz (es @ es')" using that by (auto simp: db_fits_def log_size_def)
qed

definition empty_db :: "int \<Rightarrow> pile_db" where
  "empty_db now = \<lparr>db_piles = [], db_genHash = EmptyHash, syncMode = False, hasDirty = False, lastSyncTime = now\<rparr>"

lemma db_Init_holds:
  assumes "length gen = 32" "gzip_ok gz gunz"
  shows "\<exists>db. db_Init gen (empty_db now) = Inr db \<and> db_holds gz gunz gen db []"
proof -
  have "unat (0 :: u32) + unit < 2 ^ 32" by (simp add: chunk_consts)
  then obtain p where p: "NewPile gen 0 = Inr p" "pile_rep gz p []" "BeginHeight p = 0" "GenHash p = gen"
    using NewPile_rep [of 0 gen gz] assms(1) by auto
  define db where "db = (empty_db now)\<lparr>db_piles := [p], db_genHash := gen\<rparr>"
  have "db_Init gen (empty_db now) = Inr db" by (simp add: db_Init_def empty_db_def p(1) db_def)
  moreover have "db_rep gz db [[]]" using p assms(1) by (simp add: db_rep_def db_def)
  ultimately show ?thesis using assms(2) unfolding db_holds_def by (auto simp: db_def intro!: exI [of _ "[[]]"])
qed

text \<open>
  C20. The database of piles is one log: after \<open>Init\<close>, any sequence of appends at consecutive heights, across as
  many piles as it takes, succeeds at any times, and every height then gives the hash, each data and each range
  of datas that were appended there.
\<close>

theorem pile_db_log:
  assumes "gzip_ok gz gunz" "length gen = 32" "db_fits gz es"
  shows "\<exists>db. bind_res (db_Init gen (empty_db now)) (log_run (db_AppendData gz) clock 0 es) = Inr db
     \<and> (\<forall>j<length es. db_GetHash (word_of_nat (Suc j)) db = Inr (fst (es ! j))
     \<and> (\<forall>i. db_GetData gunz (word_of_nat (Suc j)) i db = (if i < length (snd (es ! j)) then Inr (snd (es ! j) ! i) else Inl ErrInvalidDataIndex))
     \<and> (\<forall>i n. db_GetDatas gunz (word_of_nat (Suc j)) i n db =
          (if i + n \<le> length (snd (es ! j)) then Inr (concat (take n (drop i (snd (es ! j))))) else Inl ErrInvalidDataIndex)))"
proof -
  obtain db where "db_Init gen (empty_db now) = Inr db" "db_holds gz gunz gen db []" using db_Init_holds [OF assms(2,1)] by blast
  then show ?thesis using db_log.run_reads [of gz gunz gen db es clock] assms(3) by (simp del: of_nat_Suc)
qed

theorem pile_db_log_witness:
  "\<exists>db. bind_res (db_Init (replicate 32 7) (empty_db 0)) (log_run (db_AppendData id) int 0 [(replicate 32 1, [[1, 2], [3]])]) = Inr db
     \<and> db_GetHash 1 db = Inr (replicate 32 1) \<and> db_GetData Inr 1 1 db = Inr [3] \<and> db_GetDatas Inr 1 0 2 db = Inr [1, 2, 3]"
  using pile_db_log [of id Inr "replicate 32 7" "[(replicate 32 1, [[1, 2], [3]])]" 0 int]
  by (auto simp: gzip_ok_def db_fits_def entry_ok_def log_size_def entry_len_eq)

section \<open>Reopening\<close>

lemma collect_all:
  "length qs = n \<Longrightarrow> (\<And>j. j < n \<Longrightarrow> m ((i + word_of_nat j) * ChunkUnit) = Some (qs ! j)) \<Longrightarrow> collect_piles i n m = Inr qs"
proof (induction n arbitrary: i qs)
  case (Suc n)
  then obtain q rs where qs: "qs = q # rs" by (cases qs) auto
  have "collect_piles (i + 1) n m = Inr rs"
    using Suc.prems qs by (intro Suc.IH) (use Suc.prems(2) [of "Suc _"] in \<open>simp_all add: add.assoc\<close>)
  then show ?case using Suc.prems(2) [of 0] qs by simp
qed simp

lemma collect_missing:
  "j < n \<Longrightarrow> m ((i + word_of_nat j) * ChunkUnit) = None \<Longrightarrow> collect_piles i n m = Inl ErrMissingPile"
proof (induction n arbitrary: i j)
  case (Suc n)
  show ?case
  proof (cases j)
    case (Suc k)
    then have "collect_piles (i + 1) n m = Inl ErrMissingPile" using Suc.prems by (intro Suc.IH [of k]) (simp_all add: add.assoc)
    then show ?thesis by (simp split: option.splits)
  qed (use Suc.prems in simp)
qed simp

lemma fold_max_le: "\<forall>p\<in>set ps. HeadHeight p \<le> b \<Longrightarrow> m \<le> b \<Longrightarrow> fold (\<lambda>p m. if m < HeadHeight p then HeadHeight p else m) ps m \<le> b"
  by (induction ps arbitrary: m) auto

lemma pile_heights:
  assumes "db_rep gz db ess" "i < length ess"
  shows "BeginHeight (db_piles db ! i) = word_of_nat i * ChunkUnit" "unat (HeadHeight (db_piles db ! i)) = i * unit + length (ess ! i)"
proof -
  have r: "pile_rep gz (db_piles db ! i) (ess ! i)" "unat (BeginHeight (db_piles db ! i)) = i * unit" using assms by (simp_all add: db_rep_def)
  have "BeginHeight (db_piles db ! i) = word_of_nat (i * unit)" using r(2) by (metis of_nat_unat ucast_id)
  moreover have "word_of_nat unit = ChunkUnit" by (simp add: chunk_consts ChunkUnit_def)
  ultimately show "BeginHeight (db_piles db ! i) = word_of_nat i * ChunkUnit" by simp
  have "length (ess ! i) \<le> unit" using pile_repD(1) [OF r(1)] by (simp add: body_ok_def)
  then show "unat (HeadHeight (db_piles db ! i)) = i * unit + length (ess ! i)"
    unfolding pile_repD(2) [OF r(1)] using height_arith(3) [OF pile_repD(4) [OF r(1)]] r(2) by simp
qed

abbreviation pile_map :: "pile list \<Rightarrow> u32 \<rightharpoonup> pile" where
  "pile_map ps \<equiv> map_of (rev (map (\<lambda>p. (BeginHeight p, p)) ps))"

lemma pile_map_at:
  assumes "db_rep gz db ess"
  shows "i < length ess \<Longrightarrow> pile_map (db_piles db) (word_of_nat i * ChunkUnit) = Some (db_piles db ! i)"
    "\<forall>j<length ess. unat k \<noteq> j * unit \<Longrightarrow> pile_map (db_piles db) k = None"
proof -
  have len: "length (db_piles db) = length ess" using assms by (simp add: db_rep_def)
  have b: "unat (BeginHeight (db_piles db ! i)) = i * unit" if "i < length ess" for i using assms that by (simp add: db_rep_def)
  have "distinct (map BeginHeight (db_piles db))"
  proof (unfold distinct_conv_nth, intro allI impI)
    fix i j assume "i < length (map BeginHeight (db_piles db))" "j < length (map BeginHeight (db_piles db))" "i \<noteq> j"
    then show "map BeginHeight (db_piles db) ! i \<noteq> map BeginHeight (db_piles db) ! j"
      using b [of i] b [of j] len by (auto simp: chunk_consts dest: arg_cong [where f = unat])
  qed
  then have d: "distinct (map fst (rev (map (\<lambda>p. (BeginHeight p, p)) (db_piles db))))" by (simp add: comp_def flip: rev_map)
  show "pile_map (db_piles db) (word_of_nat i * ChunkUnit) = Some (db_piles db ! i)" if "i < length ess"
    using that pile_heights(1) [OF assms that] len by (intro map_of_is_SomeI [OF d]) (force simp: in_set_conv_nth)
  show "pile_map (db_piles db) k = None" if "\<forall>j<length ess. unat k \<noteq> j * unit"
    using that b len by (fastforce simp: map_of_eq_None_iff in_set_conv_nth)
qed

lemma max_height:
  assumes "db_rep gz db ess"
  shows "unat (fold (\<lambda>p m. if m < HeadHeight p then HeadHeight p else m) (db_piles db) 0) = length (concat ess)"
proof -
  obtain ps p fs es where ps: "db_piles db = ps @ [p]" and ess: "ess = fs @ [es]" and len: "length ps = length fs"
    and "pile_rep gz p es" "unat (BeginHeight p) = length fs * unit" and full: "list_all (\<lambda>es. length es = unit) fs" and "length es \<le> unit"
    and "HeadHeight p = word_of_nat (length (concat ess))" and lc: "length (concat ess) = length fs * unit + length es"
    and "fs = [] \<or> es \<noteq> []"
    by (rule db_rep_cases [OF assms])
  have hp: "unat (HeadHeight p) = length (concat ess)" using pile_heights(2) [OF assms, of "length fs"] ps ess len lc by (simp add: nth_append)
  have "HeadHeight (ps ! i) \<le> HeadHeight p" if "i < length fs" for i
  proof -
    have "unat (HeadHeight (ps ! i)) = Suc i * unit"
      using pile_heights(2) [OF assms, of i] ps ess len that full by (simp add: nth_append list_all_length)
    also have "\<dots> \<le> length fs * unit" using that by (intro mult_le_mono1) simp
    finally show ?thesis using hp lc by (simp add: word_le_nat_alt)
  qed
  then have "fold (\<lambda>p m. if m < HeadHeight p then HeadHeight p else m) ps 0 \<le> HeadHeight p"
    using len by (intro fold_max_le) (auto simp: in_set_conv_nth)
  then show ?thesis using hp by (simp add: ps)
qed



end
