(* ===== verification/Store_Laws.thy ===== *)
theory Store_Laws
  imports Store Context_Laws Pile_DB
begin

text \<open>
  The store keeps what a context computed: after \<open>StoreBlock\<close> the store, read as a loader, shows the state of the
  context, and the blocks can be read back from the log.
\<close>

section \<open>Visiting a map\<close>

lemma EachAll_ok:
  assumes "\<And>k v s. m k = Some v \<Longrightarrow> \<exists>s'. fn k v s = Inr s'"
  shows "\<exists>s'. EachAll fn m ks s = Inr s'"
proof (induction ks arbitrary: s)
  case (Cons k ks)
  show ?case
  proof (cases "m k")
    case (Some v)
    then show ?thesis using assms [OF Some, of s] Cons.IH by auto
  qed (use Cons.IH in simp)
qed simp

lemma EachAll_other:
  fixes s :: kv
  assumes "EachAll fn m ks s = Inr s'" "\<And>k v s s'. fn k v s = Inr s' \<Longrightarrow> s' x = s x"
  shows "s' x = s x"
  using assms(1)
proof (induction ks arbitrary: s)
  case (Cons k ks)
  then show ?case using assms(2) by (fastforce split: option.splits simp: res_simps)
qed simp

lemma EachAll_key:
  fixes s :: kv
  assumes "EachAll fn m ks s = Inr s'" "set ks = dom m"
    and "\<And>v s s'. m k = Some v \<Longrightarrow> fn k v s = Inr s' \<Longrightarrow> s' x = val v"
    and "\<And>k' v s s'. k' \<noteq> k \<Longrightarrow> fn k' v s = Inr s' \<Longrightarrow> s' x = s x"
  shows "s' x = (case m k of Some v \<Rightarrow> val v | None \<Rightarrow> s x)"
proof -
  have step: "EachAll fn m ks s = Inr s' \<Longrightarrow> s' x = (case m k of Some v \<Rightarrow> if k \<in> set ks then val v else s x | None \<Rightarrow> s x)" for ks s
  proof (induction ks arbitrary: s)
    case (Cons k' ks)
    show ?case
    proof (cases "m k'")
      case None
      then show ?thesis using Cons by (auto split: option.splits)
    next
      case (Some v')
      then obtain s1 where s1: "fn k' v' s = Inr s1" "EachAll fn m ks s1 = Inr s'" using Cons.prems by (auto simp: res_simps)
      have "s1 x = (if k' = k then val v' else s x)" using assms(3,4) s1(1) Some by auto
      then show ?thesis using Cons.IH [OF s1(2)] Some by (auto split: option.splits)
    qed
  qed (simp split: option.splits)
  show ?thesis using step [OF assms(1)] assms(2) by (auto split: option.splits)
qed

section \<open>What applying a context does to each key\<close>

definition enumerates :: "orders \<Rightarrow> ctx_data \<Rightarrow> bool" where
  "enumerates ord d \<longleftrightarrow>
     set (o_Seq ord) = dom (SeqMap d) \<and> set (o_Account ord) = dom (AccountMap d) \<and> set (o_AccountData ord) = dom (AccountDataMap d)
     \<and> set (o_DeletedAccount ord) = dom (DeletedAccountMap d) \<and> set (o_DeletedAccountData ord) = dom (DeletedAccountDataMap d)
     \<and> set (o_UTXO ord) = dom (UTXOMap d) \<and> set (o_CreatedUTXO ord) = dom (CreatedUTXOMap d) \<and> set (o_DeletedUTXO ord) = dom (DeletedUTXOMap d)
     \<and> set (o_ProcessData ord) = dom (ProcessDataMap d) \<and> set (o_DeletedProcessData ord) = dom (DeletedProcessDataMap d)"

definition saves :: "codec \<Rightarrow> account \<Rightarrow> bool" where
  "saves c acc \<longleftrightarrow> (\<exists>t. account_TypeOf c acc = Inr t \<and> account_Unmarshal c t (account_Marshal c acc) = Inr acc)"

text \<open>A context that can be applied: its accounts and outputs can be saved.\<close>

definition applicable :: "codec \<Rightarrow> ctx_data \<Rightarrow> bool" where
  "applicable c d \<longleftrightarrow>
     (\<forall>a acc. AccountMap d a = Some acc \<longrightarrow> saves c acc) \<and> (\<forall>uid u. UTXOMap d uid = Some u \<longrightarrow> txin_ID (utxo_TxIn u) = uid)
     \<and> (\<forall>out. out \<in> ran (CreatedUTXOMap d) \<union> utxo_TxOut ` ran (UTXOMap d) \<longrightarrow> txout_Unmarshal c (txout_Marshal c out) = Inr out) \<and> DeletedAccountMap d = Map.empty"

lemma applicable_txout:
  assumes "applicable c d"
  shows "CreatedUTXOMap d u = Some out \<Longrightarrow> txout_Unmarshal c (txout_Marshal c out) = Inr out"
    "UTXOMap d u = Some x \<Longrightarrow> txout_Unmarshal c (txout_Marshal c (utxo_TxOut x)) = Inr (utxo_TxOut x)"
proof -
  have t: "txout_Unmarshal c (txout_Marshal c out) = Inr out" if "out \<in> ran (CreatedUTXOMap d) \<union> utxo_TxOut ` ran (UTXOMap d)" for out
    using assms that unfolding applicable_def by blast
  show "txout_Unmarshal c (txout_Marshal c out) = Inr out" if "CreatedUTXOMap d u = Some out" using that by (intro t) (auto intro: ranI)
  show "txout_Unmarshal c (txout_Marshal c (utxo_TxOut x)) = Inr (utxo_TxOut x)" if "UTXOMap d u = Some x" using that by (intro t) (auto intro: ranI)
qed

lemma be64_inject [simp]: "be64 u = be64 v \<longleftrightarrow> u = v"
proof
  assume "be64 u = be64 v"
  then have "unat u = unat v" using nat_to_be_inj [of 8 "unat u" "unat v"] unsigned_less [where 'a = nat, of u] unsigned_less [where 'a = nat, of v]
    by (simp add: be64_def)
  then show "u = v" by (simp add: word_unat_eq_iff)
qed simp

lemma take_2_keys [simp]:
  "take 2 tagHeight = tagHeight" "take 2 (toHeightHashKey h) = tagHeightHash" "take 2 (toHeightHeaderKey h) = tagHeightHeader"
  "take 2 (toHeightBlockKey h) = tagHeightBlock" "take 2 (toHashHeightKey x) = tagHashHeight" "take 2 (toAccountKey a) = tagAccount"
  "take 2 (toAccountNameKey n) = tagAccountName" "take 2 (toAccountSeqKey a) = tagAccountSeq" "take 2 (toAccountDataKey k) = tagAccountData"
  "take 2 (toUTXOKey u) = tagUTXO" "take 2 (toProcessDataKey k) = tagProcessData" "take 2 (toEventKey h) = tagEvent"
  by (simp_all add: key_defs tag_defs)

lemma apply_utxo_at:
  assumes "apply_utxo c uid u db = Inr db'"
  shows "db' x = (if x = toUTXOKey uid then Some (txout_Marshal c (utxo_TxOut u)) else db x)"
  using assms by (auto simp: apply_utxo_def kv_defs split: if_splits)

lemma apply_events_at: "apply_events c evs db = Inr db' \<Longrightarrow> (\<And>h. x \<noteq> toEventKey h) \<Longrightarrow> db' x = db x"
  by (auto simp: apply_events_def kv_defs res_simps split: if_splits)

lemma new_as_old: "applyContextData c ord d db = applyContextDataOld c ord (d\<lparr>Events := []\<rparr>) db"
  by (simp add: applyContextData_def applyContextDataOld_def apply_events_def)

lemma bind_ok: "\<exists>x. m = Inr x \<Longrightarrow> (\<And>x. \<exists>y. f x = Inr y) \<Longrightarrow> \<exists>y. bind_res m f = Inr y"
  by auto

lemma EachAll_pure: "\<exists>s'. EachAll (\<lambda>k v s. Inr (f k v s)) m ks s = Inr s'"
  by (intro EachAll_ok) auto

lemma apply_ok:
  assumes "applicable c d" "Events d = [] \<or> (\<exists>bs. events_Encode c (Events d) = Inr bs)"
  shows "\<exists>db'. applyContextDataOld c ord d db = Inr db'"
proof -
  have acc: "\<exists>s'. EachAll (apply_account c) (AccountMap d) ks s = Inr s'" for ks s
    using assms(1) by (intro EachAll_ok) (fastforce simp: applicable_def saves_def apply_account_def Let_def)
  have utxo: "\<exists>s'. EachAll (apply_utxo c) (UTXOMap d) ks s = Inr s'" for ks s
    using assms(1) by (intro EachAll_ok) (auto simp: applicable_def apply_utxo_def)
  have ev: "\<exists>s'. apply_events c (Events d) s = Inr s'" for s using assms(2) by (auto simp: apply_events_def)
  show ?thesis
    unfolding applyContextDataOld_def by (intro bind_ok acc utxo EachAll_pure ev)
qed

lemma apply_at:
  assumes run: "applyContextDataOld c ord d db = Inr db'" and en: "enumerates ord d" and del: "DeletedAccountMap d = Map.empty"
  shows "db' (toAccountSeqKey a) = (case SeqMap d a of Some v \<Rightarrow> Some (Uint64ToBytes v) | None \<Rightarrow> db (toAccountSeqKey a))"
    "db' (toAccountKey a) = (case AccountMap d a of
        Some acc \<Rightarrow> (case account_TypeOf c acc of Inr t \<Rightarrow> Some (Uint16ToBytes t @ account_Marshal c acc) | Inl _ \<Rightarrow> None)
      | None \<Rightarrow> db (toAccountKey a))"
    "db' (toAccountDataKey k) = (if DeletedAccountDataMap d k \<noteq> None then None else case AccountDataMap d k of Some v \<Rightarrow> Some v | None \<Rightarrow> db (toAccountDataKey k))"
    "db' (toProcessDataKey k) = (if DeletedProcessDataMap d k \<noteq> None then None else case ProcessDataMap d k of Some v \<Rightarrow> Some v | None \<Rightarrow> db (toProcessDataKey k))"
    "db' (toUTXOKey u) = (if DeletedUTXOMap d u \<noteq> None then None else case CreatedUTXOMap d u of Some out \<Rightarrow> Some (txout_Marshal c out)
      | None \<Rightarrow> (case UTXOMap d u of Some x \<Rightarrow> Some (txout_Marshal c (utxo_TxOut x)) | None \<Rightarrow> db (toUTXOKey u)))"
    "db' tagHeight = db tagHeight" "db' (toHeightHashKey h) = db (toHeightHashKey h)"
    "db' (toHeightHeaderKey h) = db (toHeightHeaderKey h)" "db' (toHeightBlockKey h) = db (toHeightBlockKey h)"
proof -
  obtain d1 d2 d3 d5 d6 d7 d8 d9 d10 where
    s1: "EachAll (\<lambda>addr value db. Inr (txn_Set (toAccountSeqKey addr) (Uint64ToBytes value) db)) (SeqMap d) (o_Seq ord) db = Inr d1" and
    s2: "EachAll (apply_account c) (AccountMap d) (o_Account ord) d1 = Inr d2" and
    s3: "EachAll (\<lambda>key value db. Inr (txn_Set (toAccountDataKey key) value db)) (AccountDataMap d) (o_AccountData ord) d2 = Inr d3" and
    s5: "EachAll (\<lambda>key _ db. Inr (txn_Delete (toAccountDataKey key) db)) (DeletedAccountDataMap d) (o_DeletedAccountData ord) d3 = Inr d5" and
    s6: "EachAll (apply_utxo c) (UTXOMap d) (o_UTXO ord) d5 = Inr d6" and
    s7: "EachAll (\<lambda>uid vout db. Inr (txn_Set (toUTXOKey uid) (txout_Marshal c vout) db)) (CreatedUTXOMap d) (o_CreatedUTXO ord) d6 = Inr d7" and
    s8: "EachAll (\<lambda>uid _ db. Inr (txn_Delete (toUTXOKey uid) db)) (DeletedUTXOMap d) (o_DeletedUTXO ord) d7 = Inr d8" and
    s9: "apply_events c (Events d) d8 = Inr d9" and
    s10: "EachAll (\<lambda>key value db. Inr (txn_Set (toProcessDataKey key) value db)) (ProcessDataMap d) (o_ProcessData ord) d9 = Inr d10" and
    s11: "EachAll (\<lambda>key _ db. Inr (txn_Delete (toProcessDataKey key) db)) (DeletedProcessDataMap d) (o_DeletedProcessData ord) d10 = Inr db'"
    using run en del by (auto simp: applyContextDataOld_def res_simps enumerates_def)
  have q1: "d1 x = db x" if "take 2 x \<noteq> tagAccountSeq" for x using that by (intro EachAll_other [OF s1]) (auto simp: kv_defs)
  have q2: "d2 x = d1 x" if "take 2 x \<noteq> tagAccount" "take 2 x \<noteq> tagAccountName" for x
    using that by (intro EachAll_other [OF s2]) (auto simp: apply_account_def kv_defs res_simps Let_def)
  have q3: "d3 x = d2 x" if "take 2 x \<noteq> tagAccountData" for x using that by (intro EachAll_other [OF s3]) (auto simp: kv_defs)
  have q5: "d5 x = d3 x" if "take 2 x \<noteq> tagAccountData" for x using that by (intro EachAll_other [OF s5]) (auto simp: kv_defs)
  have q6: "d6 x = d5 x" if "take 2 x \<noteq> tagUTXO" for x using that by (intro EachAll_other [OF s6]) (auto simp: apply_utxo_at)
  have q7: "d7 x = d6 x" if "take 2 x \<noteq> tagUTXO" for x using that by (intro EachAll_other [OF s7]) (auto simp: kv_defs)
  have q8: "d8 x = d7 x" if "take 2 x \<noteq> tagUTXO" for x using that by (intro EachAll_other [OF s8]) (auto simp: kv_defs)
  have q9: "d9 x = d8 x" if "take 2 x \<noteq> tagEvent" for x using that by (intro apply_events_at [OF s9]) auto
  have q10: "d10 x = d9 x" if "take 2 x \<noteq> tagProcessData" for x using that by (intro EachAll_other [OF s10]) (auto simp: kv_defs)
  have q11: "db' x = d10 x" if "take 2 x \<noteq> tagProcessData" for x using that by (intro EachAll_other [OF s11]) (auto simp: kv_defs)
  note q = q1 q2 q3 q5 q6 q7 q8 q9 q10 q11
  have k1: "d1 (toAccountSeqKey a) = (case SeqMap d a of Some v \<Rightarrow> Some (Uint64ToBytes v) | None \<Rightarrow> db (toAccountSeqKey a))"
    using en by (intro EachAll_key [OF s1]) (auto simp: enumerates_def kv_defs toAccountSeqKey_def)
  have k2: "d2 (toAccountKey a) = (case AccountMap d a of
        Some acc \<Rightarrow> (case account_TypeOf c acc of Inr t \<Rightarrow> Some (Uint16ToBytes t @ account_Marshal c acc) | Inl _ \<Rightarrow> None)
      | None \<Rightarrow> d1 (toAccountKey a))"
    using en by (intro EachAll_key [OF s2])
      (auto simp: enumerates_def apply_account_def kv_defs toAccountKey_def toAccountNameKey_def tag_defs res_simps Let_def)
  have k3: "d3 (toAccountDataKey k) = (case AccountDataMap d k of Some v \<Rightarrow> Some v | None \<Rightarrow> d2 (toAccountDataKey k))"
    using en by (intro EachAll_key [OF s3]) (auto simp: enumerates_def kv_defs toAccountDataKey_def)
  have k5: "d5 (toAccountDataKey k) = (case DeletedAccountDataMap d k of Some _ \<Rightarrow> None | None \<Rightarrow> d3 (toAccountDataKey k))"
    using en by (intro EachAll_key [OF s5]) (auto simp: enumerates_def kv_defs toAccountDataKey_def)
  have k6: "d6 (toUTXOKey u) = (case UTXOMap d u of Some x \<Rightarrow> Some (txout_Marshal c (utxo_TxOut x)) | None \<Rightarrow> d5 (toUTXOKey u))"
    using en by (intro EachAll_key [OF s6]) (auto simp: enumerates_def apply_utxo_at toUTXOKey_def)
  have k7: "d7 (toUTXOKey u) = (case CreatedUTXOMap d u of Some out \<Rightarrow> Some (txout_Marshal c out) | None \<Rightarrow> d6 (toUTXOKey u))"
    using en by (intro EachAll_key [OF s7]) (auto simp: enumerates_def kv_defs toUTXOKey_def)
  have k8: "d8 (toUTXOKey u) = (case DeletedUTXOMap d u of Some _ \<Rightarrow> None | None \<Rightarrow> d7 (toUTXOKey u))"
    using en by (intro EachAll_key [OF s8]) (auto simp: enumerates_def kv_defs toUTXOKey_def)
  have k10: "d10 (toProcessDataKey k) = (case ProcessDataMap d k of Some v \<Rightarrow> Some v | None \<Rightarrow> d9 (toProcessDataKey k))"
    using en by (intro EachAll_key [OF s10]) (auto simp: enumerates_def kv_defs toProcessDataKey_def)
  have k11: "db' (toProcessDataKey k) = (case DeletedProcessDataMap d k of Some _ \<Rightarrow> None | None \<Rightarrow> d10 (toProcessDataKey k))"
    using en by (intro EachAll_key [OF s11]) (auto simp: enumerates_def kv_defs toProcessDataKey_def)
  show "db' (toAccountSeqKey a) = (case SeqMap d a of Some v \<Rightarrow> Some (Uint64ToBytes v) | None \<Rightarrow> db (toAccountSeqKey a))"
    by (simp add: q tag_defs k1)
  show "db' (toAccountKey a) = (case AccountMap d a of
        Some acc \<Rightarrow> (case account_TypeOf c acc of Inr t \<Rightarrow> Some (Uint16ToBytes t @ account_Marshal c acc) | Inl _ \<Rightarrow> None)
      | None \<Rightarrow> db (toAccountKey a))"
    by (simp add: q tag_defs k2 split: option.splits)
  show "db' (toAccountDataKey k) = (if DeletedAccountDataMap d k \<noteq> None then None else case AccountDataMap d k of Some v \<Rightarrow> Some v | None \<Rightarrow> db (toAccountDataKey k))"
    by (simp add: q tag_defs k5 k3 split: option.splits)
  show "db' (toProcessDataKey k) = (if DeletedProcessDataMap d k \<noteq> None then None else case ProcessDataMap d k of Some v \<Rightarrow> Some v | None \<Rightarrow> db (toProcessDataKey k))"
    by (simp add: k11 k10 q tag_defs split: option.splits)
  show "db' (toUTXOKey u) = (if DeletedUTXOMap d u \<noteq> None then None else case CreatedUTXOMap d u of Some out \<Rightarrow> Some (txout_Marshal c out)
      | None \<Rightarrow> (case UTXOMap d u of Some x \<Rightarrow> Some (txout_Marshal c (utxo_TxOut x)) | None \<Rightarrow> db (toUTXOKey u)))"
    by (simp add: q tag_defs k8 k7 k6 split: option.splits)
  show "db' tagHeight = db tagHeight" "db' (toHeightHashKey h) = db (toHeightHashKey h)"
    "db' (toHeightHeaderKey h) = db (toHeightHeaderKey h)" "db' (toHeightBlockKey h) = db (toHeightBlockKey h)"
    by (simp_all add: q tag_defs)
qed

section \<open>Storing a block\<close>

abbreviation height_tag :: "bytes \<Rightarrow> bool" where
  "height_tag x \<equiv> take 2 x \<in> {tagHeight, tagHeightHash, tagHeightHeader, tagHeightBlock, tagHashHeight}"

abbreviation block_hash :: "codec \<Rightarrow> 'tx wire \<Rightarrow> 'tx block \<Rightarrow> hash256" where
  "block_hash c w b \<equiv> Hash (sha c) (enc_Header w (blk_Header b))"

text \<open>The log takes the block, or has it already.\<close>

definition log_takes :: "codec \<Rightarrow> 'tx wire \<Rightarrow> int \<Rightarrow> 'tx block \<Rightarrow> ctx_data \<Rightarrow> 'tx store \<Rightarrow> bool" where
  "log_takes c w now b d st \<longleftrightarrow> (case st_cdb st of None \<Rightarrow> True | Some cdb \<Rightarrow>
     (\<forall>Datas e. block_datas c w b (Events d) = Inr Datas \<longrightarrow>
        db_AppendData (gzip c) now (bh_Height (blk_Header b)) (block_hash c w b) Datas cdb = Inl e \<longrightarrow> e = ErrInvalidAppendHeight))"

lemma StoreBlock_run:
  assumes "\<not> isClose st" "applicable c d" "EncodeBlock w b = Inr data" "Events d = [] \<or> (\<exists>bs. events_Encode c (Events d) = Inr bs)"
    "log_takes c w now b d st"
  shows "\<exists>st' d' db0. StoreBlock c w ord now b d st = (Inr (), st') \<and> applyContextDataOld c ord d' db0 = Inr (st_db st')
     \<and> (d' = d \<or> d' = d\<lparr>Events := []\<rparr>) \<and> (\<forall>x. \<not> height_tag x \<longrightarrow> db0 x = st_db st x) \<and> db0 tagHeight = Some (Uint32ToBytes (bh_Height (blk_Header b)))
     \<and> st_SeqMap st' = st_SeqMap st ++ SeqMap d \<and> \<not> isClose st' \<and> cached st' \<and> cache_height st' = bh_Height (blk_Header b)
     \<and> heightHash st' = block_hash c w b \<and> heightBlock st' = Some b
     \<and> (\<forall>cdb. st_cdb st = Some cdb \<longrightarrow> (\<exists>Datas cdb'. block_datas c w b (Events d) = Inr Datas \<and> st_cdb st' = Some cdb'
          \<and> cdb' = (case db_AppendData (gzip c) now (bh_Height (blk_Header b)) (block_hash c w b) Datas cdb of Inr x \<Rightarrow> x | Inl _ \<Rightarrow> cdb)))"
proof (cases "st_cdb st")
  case None
  define db0 where "db0 = txn_Set tagHeight (Uint32ToBytes (bh_Height (blk_Header b)))
    (txn_Set (toHashHeightKey (block_hash c w b)) (Uint32ToBytes (bh_Height (blk_Header b)))
    (txn_Set (toHeightHashKey (bh_Height (blk_Header b))) (block_hash c w b)
    (txn_Set (toHeightHeaderKey (bh_Height (blk_Header b))) (enc_Header w (blk_Header b))
    (txn_Set (toHeightBlockKey (bh_Height (blk_Header b))) data (st_db st)))))"
  obtain db' where "applyContextDataOld c ord d db0 = Inr db'" using apply_ok [OF assms(2,4)] by blast
  moreover have "\<forall>x. \<not> height_tag x \<longrightarrow> db0 x = st_db st x" "db0 tagHeight = Some (Uint32ToBytes (bh_Height (blk_Header b)))"
    by (auto simp: db0_def txn_Set_def)
  ultimately show ?thesis
    using assms(1,3) None by (intro exI [of _ "set_cache (bh_Height (blk_Header b)) (block_hash c w b) (Some b) (st\<lparr>st_db := db', st_SeqMap := st_SeqMap st ++ SeqMap d\<rparr>)"] exI [of _ d] exI [of _ db0])
      (simp add: StoreBlock_def Let_def db_Update_def db0_def [symmetric] set_cache_def)
next
  case (Some cdb)
  define db0 where "db0 = txn_Set tagHeight (Uint32ToBytes (bh_Height (blk_Header b))) (st_db st)"
  have "applicable c (d\<lparr>Events := []\<rparr>)" using assms(2) by (simp add: applicable_def)
  then obtain db' where db': "applyContextDataOld c ord (d\<lparr>Events := []\<rparr>) db0 = Inr db'" using apply_ok [of c "d\<lparr>Events := []\<rparr>"] by auto
  have "\<exists>ev. (if 0 < length (Events d) then bind_res (events_Encode c (Events d)) (\<lambda>bs. Inr [bs]) else Inr []) = Inr ev" using assms(4) by auto
  then obtain Datas where D: "block_datas c w b (Events d) = Inr Datas" using assms(3) by (auto simp: block_datas_def Let_def)
  obtain cdb' where cdb': "(case db_AppendData (gzip c) now (bh_Height (blk_Header b)) (block_hash c w b) Datas cdb of
      Inl e \<Rightarrow> if e \<noteq> ErrInvalidAppendHeight then Inl e else Inr cdb | Inr cdb \<Rightarrow> Inr cdb) = Inr cdb'"
    using assms(5) Some D by (cases "db_AppendData (gzip c) now (bh_Height (blk_Header b)) (block_hash c w b) Datas cdb") (auto simp: log_takes_def)
  have "cdb' = (case db_AppendData (gzip c) now (bh_Height (blk_Header b)) (block_hash c w b) Datas cdb of Inr x \<Rightarrow> x | Inl _ \<Rightarrow> cdb)"
    using cdb' by (auto split: sum.splits if_splits)
  moreover have "\<forall>x. \<not> height_tag x \<longrightarrow> db0 x = st_db st x" "db0 tagHeight = Some (Uint32ToBytes (bh_Height (blk_Header b)))"
    by (auto simp: db0_def txn_Set_def)
  ultimately show ?thesis
    using assms(1) Some db' D cdb' by (intro exI [of _ "set_cache (bh_Height (blk_Header b)) (block_hash c w b) (Some b)
        (st\<lparr>st_cdb := Some cdb', st_db := db', st_SeqMap := st_SeqMap st ++ SeqMap d\<rparr>)"] exI [of _ "d\<lparr>Events := []\<rparr>"] exI [of _ db0])
      (simp add: StoreBlock_def Let_def db_Update_def new_as_old db0_def [symmetric] set_cache_def)
qed

lemma two_bytes_ne: "2 \<le> length xs \<Longrightarrow> xs \<noteq> [0 :: byte]"
  by auto

lemma StoreBlock_reads:
  assumes "\<not> isClose st" "applicable c d" "EncodeBlock w b = Inr data" "Events d = [] \<or> (\<exists>bs. events_Encode c (Events d) = Inr bs)"
    "log_takes c w now b d st" "enumerates ord d"
  shows "\<exists>st'. StoreBlock c w ord now b d st = (Inr (), st')
     \<and> (\<forall>a. fst (store_Seq a st') = (case SeqMap d a of Some v \<Rightarrow> v | None \<Rightarrow> fst (store_Seq a st)))
     \<and> (\<forall>a. store_Account c a st' = (case AccountMap d a of Some acc \<Rightarrow> Inr acc | None \<Rightarrow> store_Account c a st))
     \<and> (\<forall>a p n. store_AccountData a p n st' = (case f_data (AKey a p n) d of Some v \<Rightarrow> v | None \<Rightarrow> store_AccountData a p n st))
     \<and> (\<forall>p n. store_ProcessData p n st' = (case f_data (PKey p n) d of Some v \<Rightarrow> v | None \<Rightarrow> store_ProcessData p n st))
     \<and> (\<forall>u. store_UTXO c u st' = (if DeletedUTXOMap d u \<noteq> None then Inl ErrNotExistUTXO else
          case CreatedUTXOMap d u of Some out \<Rightarrow> Inr \<lparr>utxo_TxIn = NewTxIn u, utxo_TxOut = out\<rparr>
        | None \<Rightarrow> (case UTXOMap d u of Some x \<Rightarrow> Inr \<lparr>utxo_TxIn = NewTxIn u, utxo_TxOut = utxo_TxOut x\<rparr> | None \<Rightarrow> store_UTXO c u st)))
     \<and> store_Height st' = bh_Height (blk_Header b) \<and> store_Hash (bh_Height (blk_Header b)) st' = Inr (block_hash c w b)"
proof -
  obtain st' d' db0 where st': "StoreBlock c w ord now b d st = (Inr (), st')" and run: "applyContextDataOld c ord d' db0 = Inr (st_db st')"
    and d': "d' = d \<or> d' = d\<lparr>Events := []\<rparr>" and db0: "\<forall>x. \<not> height_tag x \<longrightarrow> db0 x = st_db st x"
    and seq: "st_SeqMap st' = st_SeqMap st ++ SeqMap d" and open': "\<not> isClose st'"
    and cache: "cached st'" "cache_height st' = bh_Height (blk_Header b)" "heightHash st' = block_hash c w b"
    using StoreBlock_run [OF assms(1-5), of ord] by blast
  have "enumerates ord d'" "DeletedAccountMap d' = Map.empty" using d' assms(2,6) by (auto simp: enumerates_def applicable_def)
  note at = apply_at [OF run this]
  have same: "SeqMap d' = SeqMap d" "AccountMap d' = AccountMap d" "AccountDataMap d' = AccountDataMap d" "DeletedAccountDataMap d' = DeletedAccountDataMap d"
    "ProcessDataMap d' = ProcessDataMap d" "DeletedProcessDataMap d' = DeletedProcessDataMap d" "UTXOMap d' = UTXOMap d"
    "CreatedUTXOMap d' = CreatedUTXOMap d" "DeletedUTXOMap d' = DeletedUTXOMap d" using d' by auto
  have old: "db0 (toAccountSeqKey a) = st_db st (toAccountSeqKey a)" "db0 (toAccountKey a) = st_db st (toAccountKey a)"
    "db0 (toAccountDataKey k) = st_db st (toAccountDataKey k)" "db0 (toProcessDataKey k) = st_db st (toProcessDataKey k)"
    "db0 (toUTXOKey u) = st_db st (toUTXOKey u)" for a k u using db0 by (auto simp: tag_defs)
  have sv: "\<exists>t. account_TypeOf c acc = Inr t \<and> account_Unmarshal c t (account_Marshal c acc) = Inr acc" if "AccountMap d a = Some acc" for a acc
    using assms(2) that by (auto simp: applicable_def saves_def)
  have tx: "CreatedUTXOMap d u = Some out \<or> (\<exists>x. UTXOMap d u = Some x \<and> out = utxo_TxOut x) \<Longrightarrow> txout_Unmarshal c (txout_Marshal c out) = Inr out" for u out
    using applicable_txout [OF assms(2)] by blast
  have "fst (store_Seq a st') = (case SeqMap d a of Some v \<Rightarrow> v | None \<Rightarrow> fst (store_Seq a st))" for a
    using assms(1) open' at(1) [of a] by (simp add: store_Seq_def seq map_add_def same old txn_Get_def split: option.splits sum.splits)
  moreover have "store_Account c a st' = (case AccountMap d a of Some acc \<Rightarrow> Inr acc | None \<Rightarrow> store_Account c a st)" for a
  proof (cases "AccountMap d a")
    case (Some acc)
    then obtain t where "account_TypeOf c acc = Inr t" "account_Unmarshal c t (account_Marshal c acc) = Inr acc" using sv by blast
    moreover have "Uint16ToBytes t @ r \<noteq> [0]" for r :: bytes using two_bytes_ne [of "Uint16ToBytes t @ r"] by simp
    ultimately show ?thesis using Some open' at(2) [of a] by (simp add: store_Account_def live_account_def missing_account_def same txn_Get_def BytesToUint16_ToBytes)
  qed (use assms(1) open' at(2) [of a] in \<open>simp add: store_Account_def live_account_def same old txn_Get_def\<close>)
  moreover have "store_AccountData a p n st' = (case f_data (AKey a p n) d of Some v \<Rightarrow> v | None \<Rightarrow> store_AccountData a p n st)" for a p n
    using assms(1) open' at(3) by (auto simp: store_AccountData_def f_data_def same old txn_Get_def or_nil_def split: option.splits)
  moreover have "store_ProcessData p n st' = (case f_data (PKey p n) d of Some v \<Rightarrow> v | None \<Rightarrow> store_ProcessData p n st)" for p n
    using assms(1) open' at(4) by (auto simp: store_ProcessData_def f_data_def same old txn_Get_def or_nil_def split: option.splits)
  moreover have "store_UTXO c u st' = (if DeletedUTXOMap d u \<noteq> None then Inl ErrNotExistUTXO else
      case CreatedUTXOMap d u of Some out \<Rightarrow> Inr \<lparr>utxo_TxIn = NewTxIn u, utxo_TxOut = out\<rparr>
    | None \<Rightarrow> (case UTXOMap d u of Some x \<Rightarrow> Inr \<lparr>utxo_TxIn = NewTxIn u, utxo_TxOut = utxo_TxOut x\<rparr> | None \<Rightarrow> store_UTXO c u st))" for u
    using assms(1) open' at(5) [of u] tx [of u] by (auto simp: store_UTXO_def same old txn_Get_def split: option.splits)
  ultimately show ?thesis using st' open' cache by (auto simp: store_Height_def store_Hash_def)
qed

section \<open>Refinement\<close>

lemma absc_store:
  assumes "ctx_stack ctx = [d]" "same_base (ctx_loader ctx) newContextCache (ctx_cache ctx)"
  shows "a_seq (absc ctx) a = (case f_seq a d of Some v \<Rightarrow> v | None \<Rightarrow> ld_Seq (ctx_loader ctx) a)"
    "a_acc (absc ctx) a = (case f_acc a d of Some v \<Rightarrow> v | None \<Rightarrow> ld_Account (ctx_loader ctx) a)"
    "is_address a \<Longrightarrow> a_data (absc ctx) (AKey a p n) = (case f_data (AKey a p n) d of Some v \<Rightarrow> v | None \<Rightarrow> ld_AccountData (ctx_loader ctx) a p n)"
    "a_data (absc ctx) (PKey p n) = (case f_data (PKey p n) d of Some v \<Rightarrow> v | None \<Rightarrow> ld_ProcessData (ctx_loader ctx) p n)"
    "a_utxo (absc ctx) u = (case f_utxo u d of Some v \<Rightarrow> v | None \<Rightarrow> ld_UTXO (ctx_loader ctx) u)"
proof -
  have "absc ctx = abs_of (ctx_loader ctx) [d] newContextCache"
    unfolding absc_def assms(1) by (rule abs_of_base [OF assms(2)])
  then show "a_seq (absc ctx) a = (case f_seq a d of Some v \<Rightarrow> v | None \<Rightarrow> ld_Seq (ctx_loader ctx) a)"
    "a_acc (absc ctx) a = (case f_acc a d of Some v \<Rightarrow> v | None \<Rightarrow> ld_Account (ctx_loader ctx) a)"
    "is_address a \<Longrightarrow> a_data (absc ctx) (AKey a p n) = (case f_data (AKey a p n) d of Some v \<Rightarrow> v | None \<Rightarrow> ld_AccountData (ctx_loader ctx) a p n)"
    "a_data (absc ctx) (PKey p n) = (case f_data (PKey p n) d of Some v \<Rightarrow> v | None \<Rightarrow> ld_ProcessData (ctx_loader ctx) p n)"
    "a_utxo (absc ctx) u = (case f_utxo u d of Some v \<Rightarrow> v | None \<Rightarrow> ld_UTXO (ctx_loader ctx) u)"
    by (simp_all add: abs_of_def view_defs base_defs newContextCache_def split: option.splits)
qed


definition addr0 :: address where "addr0 = replicate 14 1"
definition acct0 :: account where "acct0 = SingleAccount addr0 ''alice'' []"

definition codec0 :: codec where
  "codec0 = \<lparr>account_TypeOf = (\<lambda>_. Inr 1), account_Marshal = (\<lambda>_. []), account_Unmarshal = (\<lambda>_ _. Inr acct0),
     txout_Marshal = (\<lambda>_. []), txout_Unmarshal = (\<lambda>_. Inl Panic), events_Encode = (\<lambda>_. Inr []), events_Decode = (\<lambda>_. Inr []),
     base58_dec = (\<lambda>_. Inl Panic), sha = (\<lambda>_. replicate 32 9), gzip = id, gunzip = Inr\<rparr>"

definition ctd0 :: ctx_data where
  "ctd0 = (NewContextData None)\<lparr>SeqMap := [addr0 \<mapsto> 5], AccountMap := [addr0 \<mapsto> acct0], AccountDataMap := [account_key addr0 2 [3] \<mapsto> [7]]\<rparr>"

definition orders0 :: orders where
  "orders0 = \<lparr>o_Seq = [addr0], o_Account = [addr0], o_AccountName = [], o_AccountData = [account_key addr0 2 [3]], o_DeletedAccount = [],
     o_DeletedAccountData = [], o_UTXO = [], o_CreatedUTXO = [], o_DeletedUTXO = [], o_ProcessData = [], o_DeletedProcessData = []\<rparr>"


end
