(* ===== verification/Ordered_Maps.thy ===== *)
theory Ordered_Maps
  imports Store "HOL-Library.Char_ord"
begin

text \<open>
  The ordered maps of \<open>core/types\<close> (\<open>map_*.go\<close>). Each file wraps a left-leaning red-black tree of a library for one
  key and value type, with the same methods, an encoding and a JSON text. The tree is a parameter: a record of the
  operations the files call, with the documented behaviour of an ordered map as a hypothesis. The methods are
  written once, over the codecs of the key and the value, and each map type is an instance.
\<close>

section \<open>The tree\<close>

record ('t, 'k, 'v) llrb =
  llrb_New :: 't
  llrb_Len :: "'t \<Rightarrow> nat"
  llrb_Has :: "'k \<Rightarrow> 't \<Rightarrow> bool"
  llrb_Get :: "'k \<Rightarrow> 't \<Rightarrow> ('k \<times> 'v) option"
  llrb_ReplaceOrInsert :: "'k \<times> 'v \<Rightarrow> 't \<Rightarrow> 't"
  llrb_Delete :: "'k \<Rightarrow> 't \<Rightarrow> 't"
  llrb_Ascend :: "'t \<Rightarrow> ('k \<times> 'v) list"

text \<open>
  \<open>llrb_Ascend\<close> lists the items in the order in which \<open>AscendRange(ninf, pinf, fn)\<close> passes them to \<open>fn\<close>. A tree
  satisfying \<open>ti\<close> is an ordered map: its items are in increasing order of their keys, insertion overwrites.
\<close>

definition llrb_ok :: "('t, 'k::linorder, 'v) llrb \<Rightarrow> ('t \<Rightarrow> bool) \<Rightarrow> bool" where
  "llrb_ok T ti \<longleftrightarrow>
     ti (llrb_New T) \<and> llrb_Ascend T (llrb_New T) = []
     \<and> (\<forall>t. ti t \<longrightarrow> sorted_wrt (<) (map fst (llrb_Ascend T t)) \<and> llrb_Len T t = length (llrb_Ascend T t)
          \<and> (\<forall>k. llrb_Has T k t \<longleftrightarrow> k \<in> fst ` set (llrb_Ascend T t))
          \<and> (\<forall>k. llrb_Get T k t = map_option (Pair k) (map_of (llrb_Ascend T t) k))
          \<and> (\<forall>k v. ti (llrb_ReplaceOrInsert T (k, v) t)
               \<and> map_of (llrb_Ascend T (llrb_ReplaceOrInsert T (k, v) t)) = (map_of (llrb_Ascend T t))(k \<mapsto> v))
          \<and> (\<forall>k. ti (llrb_Delete T k t) \<and> map_of (llrb_Ascend T (llrb_Delete T k t)) = (map_of (llrb_Ascend T t))(k := None)))"

section \<open>Codecs of keys and values\<close>

text \<open>An encoder that may fail, with its decoder, and the JSON text, which may fail too.\<close>

record 'a item_codec =
  it_enc :: "'a \<Rightarrow> bytes res"
  it_dec :: "'a decoder"
  it_json :: "'a \<Rightarrow> string res"

definition item_ok :: "'a item_codec \<Rightarrow> bool" where
  "item_ok c \<longleftrightarrow> (\<forall>x bs r. it_enc c x = Inr bs \<longrightarrow> it_dec c (bs @ r) = Inr (x, r))"

section \<open>The methods\<close>

text \<open>\<open>EachAll\<close> stops when the callback returns \<^const>\<open>False\<close>.\<close>

fun each_item :: "('k \<Rightarrow> 'v \<Rightarrow> 's \<Rightarrow> bool \<times> 's) \<Rightarrow> ('k \<times> 'v) list \<Rightarrow> 's \<Rightarrow> 's" where
  "each_item fn [] s = s"
| "each_item fn ((k, v) # items) s = (case fn k v s of (go, s') \<Rightarrow> if go then each_item fn items s' else s')"

definition sm_EachAll :: "('t, 'k, 'v) llrb \<Rightarrow> ('k \<Rightarrow> 'v \<Rightarrow> 's \<Rightarrow> bool \<times> 's) \<Rightarrow> 't \<Rightarrow> 's \<Rightarrow> 's" where
  "sm_EachAll T fn t s = each_item fn (llrb_Ascend T t) s"

text \<open>\<open>AscendRange(prefix, prefix + 255)\<close>: the keys from the prefix on, below the prefix followed by the byte 255.\<close>

definition sm_EachPrefix :: "('t, bytes, 'v) llrb \<Rightarrow> bytes \<Rightarrow> (bytes \<Rightarrow> 'v \<Rightarrow> 's \<Rightarrow> bool \<times> 's) \<Rightarrow> 't \<Rightarrow> 's \<Rightarrow> 's" where
  "sm_EachPrefix T prefix fn t s =
     each_item fn (filter (\<lambda>(k, v). prefix \<le> k \<and> k < prefix @ [255]) (llrb_Ascend T t)) s"

definition enc_item :: "'k item_codec \<Rightarrow> 'v item_codec \<Rightarrow> 'k \<Rightarrow> 'v \<Rightarrow> bytes \<times> error option \<Rightarrow> bool \<times> bytes \<times> error option" where
  "enc_item ck cv k v s =
     (case s of (buf, inErr) \<Rightarrow>
      case it_enc ck k of
        Inl e \<Rightarrow> (False, buf, Some e)
      | Inr kb \<Rightarrow> (case it_enc cv v of
            Inl e \<Rightarrow> (False, buf @ kb, Some e)
          | Inr vb \<Rightarrow> (True, buf @ kb @ vb, inErr)))"

definition sm_Encode :: "('t, 'k, 'v) llrb \<Rightarrow> nat item_codec \<Rightarrow> 'k item_codec \<Rightarrow> 'v item_codec \<Rightarrow> 't \<Rightarrow> bytes res" where
  "sm_Encode T cl ck cv t =
     bind_res (it_enc cl (llrb_Len T t)) (\<lambda>bs.
       case sm_EachAll T (enc_item ck cv) t (bs, None) of
         (buf, Some e) \<Rightarrow> Inl e
       | (buf, None) \<Rightarrow> Inr buf)"

fun dec_items :: "('t, 'k, 'v) llrb \<Rightarrow> 'k item_codec \<Rightarrow> 'v item_codec \<Rightarrow> nat \<Rightarrow> 't \<Rightarrow> 't decoder" where
  "dec_items T ck cv 0 t bs = Inr (t, bs)"
| "dec_items T ck cv (Suc n) t bs =
     bind_res (it_dec ck bs) (\<lambda>(k, bs).
     bind_res (it_dec cv bs) (\<lambda>(v, bs).
     dec_items T ck cv n (llrb_ReplaceOrInsert T (k, v) t) bs))"

definition sm_Decode :: "('t, 'k, 'v) llrb \<Rightarrow> nat item_codec \<Rightarrow> 'k item_codec \<Rightarrow> 'v item_codec \<Rightarrow> 't decoder" where
  "sm_Decode T cl ck cv bs = bind_res (it_dec cl bs) (\<lambda>(Len, bs). dec_items T ck cv Len (llrb_New T) bs)"

definition json_item :: "'k item_codec \<Rightarrow> 'v item_codec \<Rightarrow> 'k \<Rightarrow> 'v \<Rightarrow> string \<times> bool \<Rightarrow> bool \<times> string \<times> bool" where
  "json_item ck cv k v s =
     (case s of (buf, isFirst) \<Rightarrow>
      let buf = (if isFirst then buf else buf @ '','') in
      case it_json ck k of
        Inl e \<Rightarrow> (False, buf, False)
      | Inr kb \<Rightarrow> (case it_json cv v of
            Inl e \<Rightarrow> (False, buf @ kb @ '':'', False)
          | Inr vb \<Rightarrow> (True, buf @ kb @ '':'' @ vb, False)))"

definition sm_MarshalJSON :: "('t, 'k, 'v) llrb \<Rightarrow> 'k item_codec \<Rightarrow> 'v item_codec \<Rightarrow> 't \<Rightarrow> string" where
  "sm_MarshalJSON T ck cv t = fst (sm_EachAll T (json_item ck cv) t (''{'', True)) @ ''}''"

record ('t, 'k, 'v) ordered_map =
  om_New :: 't
  om_Len :: "'t \<Rightarrow> nat"
  om_Has :: "'k \<Rightarrow> 't \<Rightarrow> bool"
  om_Get :: "'k \<Rightarrow> 't \<Rightarrow> 'v \<times> bool"
  om_Put :: "'k \<Rightarrow> 'v \<Rightarrow> 't \<Rightarrow> 't"
  om_Delete :: "'k \<Rightarrow> 't \<Rightarrow> 't"
  om_Encode :: "'t \<Rightarrow> bytes res"
  om_Decode :: "'t decoder"
  om_MarshalJSON :: "'t \<Rightarrow> string"

text \<open>
  \<open>zero\<close> is the value that \<open>Get\<close> returns for a missing key. \<open>StringBytesMap\<close> and \<open>Uint8StringBytesMap\<close> have no JSON text
  in the source; their \<open>om_MarshalJSON\<close> is not used.
\<close>

definition ordered_map :: "('t, 'k, 'v) llrb \<Rightarrow> nat item_codec \<Rightarrow> 'k item_codec \<Rightarrow> 'v item_codec \<Rightarrow> 'v \<Rightarrow> ('t, 'k, 'v) ordered_map" where
  "ordered_map T cl ck cv zero =
     \<lparr>om_New = llrb_New T, om_Len = llrb_Len T, om_Has = llrb_Has T,
      om_Get = (\<lambda>k t. case llrb_Get T k t of None \<Rightarrow> (zero, False) | Some item \<Rightarrow> (snd item, True)),
      om_Put = (\<lambda>k v. llrb_ReplaceOrInsert T (k, v)), om_Delete = llrb_Delete T,
      om_Encode = sm_Encode T cl ck cv, om_Decode = sm_Decode T cl ck cv,
      om_MarshalJSON = sm_MarshalJSON T ck cv\<rparr>"

section \<open>The map types\<close>

text \<open>
  The primitive encoders of the message-pack library, the registered encoders of the types, and the account factory.
  Keys of type \<open>string\<close> that hold bytes are byte lists; names are character lists. Where a missing value is a nil
  pointer, it is an argument \<open>nil\<close>.
\<close>

record prims =
  pr_Len :: "nat item_codec"
  pr_u8 :: "u8 item_codec"
  pr_u16 :: "u16 item_codec"
  pr_u32 :: "u32 item_codec"
  pr_u64 :: "u64 item_codec"
  pr_bool :: "bool item_codec"
  pr_string :: "string item_codec"
  pr_key :: "bytes item_codec"
  pr_bytes :: "bytes item_codec"
  pr_Address :: "address item_codec"
  pr_PublicHash :: "public_hash item_codec"
  pr_Amount :: "int item_codec"
  pr_TxOut :: "txout item_codec"
  pr_UTXO :: "utxo item_codec"
  pr_TypeOf :: "account \<Rightarrow> u16 res"
  pr_Account :: "account \<Rightarrow> bytes res"
  pr_AccountOf :: "u16 \<Rightarrow> account decoder"
  pr_AccountJSON :: "account \<Rightarrow> string res"

definition typed_Account :: "prims \<Rightarrow> account item_codec" where
  "typed_Account P =
     \<lparr>it_enc = (\<lambda>acc. bind_res (pr_TypeOf P acc) (\<lambda>t. bind_res (it_enc (pr_u16 P) t) (\<lambda>tb.
                bind_res (pr_Account P acc) (\<lambda>ab. Inr (tb @ ab))))),
      it_dec = (\<lambda>bs. bind_res (it_dec (pr_u16 P) bs) (\<lambda>(t, bs). pr_AccountOf P t bs)),
      it_json = pr_AccountJSON P\<rparr>"

text \<open>A map as a value of another map: its encoding and its text are those of the inner map.\<close>

definition map_item :: "('t, 'k, 'v) ordered_map \<Rightarrow> 't item_codec" where
  "map_item M = \<lparr>it_enc = om_Encode M, it_dec = om_Decode M, it_json = (\<lambda>t. Inr (om_MarshalJSON M t))\<rparr>"

definition AddressAccountMap :: "prims \<Rightarrow> account \<Rightarrow> ('t, address, account) llrb \<Rightarrow> ('t, address, account) ordered_map" where
  "AddressAccountMap P nil T = ordered_map T (pr_Len P) (pr_Address P) (typed_Account P) nil"

definition AddressAddressMap :: "prims \<Rightarrow> ('t, address, address) llrb \<Rightarrow> ('t, address, address) ordered_map" where
  "AddressAddressMap P T = ordered_map T (pr_Len P) (pr_Address P) (pr_Address P) (replicate AddressSize 0)"

definition AddressAmountMap :: "prims \<Rightarrow> int \<Rightarrow> ('t, address, int) llrb \<Rightarrow> ('t, address, int) ordered_map" where
  "AddressAmountMap P nil T = ordered_map T (pr_Len P) (pr_Address P) (pr_Amount P) nil"

definition AddressAddressAmountMap ::
    "prims \<Rightarrow> int \<Rightarrow> 'm \<Rightarrow> ('m, address, int) llrb \<Rightarrow> ('t, address, 'm) llrb \<Rightarrow> ('t, address, 'm) ordered_map" where
  "AddressAddressAmountMap P nil nilm Ti T = ordered_map T (pr_Len P) (pr_Address P) (map_item (AddressAmountMap P nil Ti)) nilm"

definition AddressBoolMap :: "prims \<Rightarrow> ('t, address, bool) llrb \<Rightarrow> ('t, address, bool) ordered_map" where
  "AddressBoolMap P T = ordered_map T (pr_Len P) (pr_Address P) (pr_bool P) False"

definition AddressUint32Map :: "prims \<Rightarrow> ('t, address, u32) llrb \<Rightarrow> ('t, address, u32) ordered_map" where
  "AddressUint32Map P T = ordered_map T (pr_Len P) (pr_Address P) (pr_u32 P) 0"

definition AddressUint64Map :: "prims \<Rightarrow> ('t, address, u64) llrb \<Rightarrow> ('t, address, u64) ordered_map" where
  "AddressUint64Map P T = ordered_map T (pr_Len P) (pr_Address P) (pr_u64 P) 0"

definition PublicHashBoolMap :: "prims \<Rightarrow> ('t, public_hash, bool) llrb \<Rightarrow> ('t, public_hash, bool) ordered_map" where
  "PublicHashBoolMap P T = ordered_map T (pr_Len P) (pr_PublicHash P) (pr_bool P) False"

definition StringAddressMap :: "prims \<Rightarrow> ('t, string, address) llrb \<Rightarrow> ('t, string, address) ordered_map" where
  "StringAddressMap P T = ordered_map T (pr_Len P) (pr_string P) (pr_Address P) (replicate AddressSize 0)"

definition StringBoolMap :: "prims \<Rightarrow> ('t, bytes, bool) llrb \<Rightarrow> ('t, bytes, bool) ordered_map" where
  "StringBoolMap P T = ordered_map T (pr_Len P) (pr_key P) (pr_bool P) False"

definition StringBytesMap :: "prims \<Rightarrow> ('t, bytes, bytes) llrb \<Rightarrow> ('t, bytes, bytes) ordered_map" where
  "StringBytesMap P T = ordered_map T (pr_Len P) (pr_key P) (pr_bytes P) []"

definition StringStringMap :: "prims \<Rightarrow> ('t, string, string) llrb \<Rightarrow> ('t, string, string) ordered_map" where
  "StringStringMap P T = ordered_map T (pr_Len P) (pr_string P) (pr_string P) []"

definition Uint8StringBytesMap ::
    "prims \<Rightarrow> 'm \<Rightarrow> ('m, bytes, bytes) llrb \<Rightarrow> ('t, u8, 'm) llrb \<Rightarrow> ('t, u8, 'm) ordered_map" where
  "Uint8StringBytesMap P nilm Ti T = ordered_map T (pr_Len P) (pr_u8 P) (map_item (StringBytesMap P Ti)) nilm"

definition Uint64BoolMap :: "prims \<Rightarrow> ('t, u64, bool) llrb \<Rightarrow> ('t, u64, bool) ordered_map" where
  "Uint64BoolMap P T = ordered_map T (pr_Len P) (pr_u64 P) (pr_bool P) False"

definition Uint64TxOutMap :: "prims \<Rightarrow> txout \<Rightarrow> ('t, u64, txout) llrb \<Rightarrow> ('t, u64, txout) ordered_map" where
  "Uint64TxOutMap P nil T = ordered_map T (pr_Len P) (pr_u64 P) (pr_TxOut P) nil"

definition Uint64UTXOMap :: "prims \<Rightarrow> utxo \<Rightarrow> ('t, u64, utxo) llrb \<Rightarrow> ('t, u64, utxo) ordered_map" where
  "Uint64UTXOMap P nil T = ordered_map T (pr_Len P) (pr_u64 P) (pr_UTXO P) nil"

section \<open>Laws\<close>

lemma llrbD:
  assumes "llrb_ok T ti" "ti t"
  shows "sorted_wrt (<) (map fst (llrb_Ascend T t))" "llrb_Len T t = length (llrb_Ascend T t)"
    "llrb_Get T k t = map_option (Pair k) (map_of (llrb_Ascend T t) k)"
    "ti (llrb_ReplaceOrInsert T (k, v) t)"
    "map_of (llrb_Ascend T (llrb_ReplaceOrInsert T (k, v) t)) = (map_of (llrb_Ascend T t))(k \<mapsto> v)"
  using assms by (simp_all add: llrb_ok_def)

lemma llrb_NewD: "llrb_ok T ti \<Longrightarrow> ti (llrb_New T)" "llrb_ok T ti \<Longrightarrow> llrb_Ascend T (llrb_New T) = []"
  by (simp_all add: llrb_ok_def)

text \<open>The items of an ordered map are determined by what it maps.\<close>

lemma sorted_items_unique:
  fixes xs ys :: "('k::linorder \<times> 'v) list"
  assumes "sorted_wrt (<) (map fst xs)" "sorted_wrt (<) (map fst ys)" "map_of xs = map_of ys"
  shows "xs = ys"
proof -
  have d: "distinct (map fst xs)" "distinct (map fst ys)" using assms(1,2) by (simp_all add: strict_sorted_iff)
  have "set (map fst xs) = set (map fst ys)" using arg_cong [OF assms(3), of dom] by (simp add: dom_map_of_conv_image_fst)
  then have keys: "map fst xs = map fst ys" using assms(1,2) by (intro strict_sorted_equal) auto
  have at: "zs = map (\<lambda>k. (k, the (map_of zs k))) (map fst zs)" if "distinct (map fst zs)" for zs :: "('k \<times> 'v) list"
    using that by (auto intro!: map_idI [symmetric] simp: map_of_is_SomeI)
  show ?thesis using at [OF d(1)] at [OF d(2)] keys assms(3) by metis
qed

lemma enc_item_at:
  "enc_item ck cv k v (buf, inErr) = (case it_enc ck k of Inl e \<Rightarrow> (False, buf, Some e)
     | Inr kb \<Rightarrow> (case it_enc cv v of Inl e \<Rightarrow> (False, buf @ kb, Some e) | Inr vb \<Rightarrow> (True, buf @ kb @ vb, inErr)))"
  by (simp add: enc_item_def)

lemma each_enc_decodes:
  assumes "each_item (enc_item ck cv) items (buf, None) = (out, None)" "item_ok ck" "item_ok cv"
  shows "\<exists>bs. out = buf @ bs \<and> (\<forall>t r. dec_items T ck cv (length items) t (bs @ r) = Inr (fold (llrb_ReplaceOrInsert T) items t, r))"
  using assms(1)
proof (induction items arbitrary: buf)
  case (Cons i items)
  obtain k v where i: "i = (k, v)" by (rule prod.exhaust)
  then obtain kb vb where e: "it_enc ck k = Inr kb" "it_enc cv v = Inr vb" "each_item (enc_item ck cv) items (buf @ kb @ vb, None) = (out, None)"
    using Cons.prems by (auto simp: enc_item_at split: sum.splits)
  obtain bs where bs: "out = (buf @ kb @ vb) @ bs" "\<And>t r. dec_items T ck cv (length items) t (bs @ r) = Inr (fold (llrb_ReplaceOrInsert T) items t, r)"
    using Cons.IH [OF e(3)] by blast
  have "it_dec ck (kb @ r) = Inr (k, r)" "it_dec cv (vb @ r) = Inr (v, r)" for r using assms(2,3) e by (simp_all add: item_ok_def)
  then show ?case using bs i by (intro exI [of _ "kb @ vb @ bs"]) simp
qed simp

lemma fold_put:
  "llrb_ok T ti \<Longrightarrow> ti t \<Longrightarrow> ti (fold (llrb_ReplaceOrInsert T) items t)
     \<and> map_of (llrb_Ascend T (fold (llrb_ReplaceOrInsert T) items t)) = map_of (llrb_Ascend T t) ++ map_of (rev items)"
proof (induction items arbitrary: t)
  case (Cons i items)
  obtain k v where i: "i = (k, v)" by (rule prod.exhaust)
  show ?case unfolding i using Cons.IH [OF Cons.prems(1) llrbD(4) [OF Cons.prems, of k v], unfolded llrbD(5) [OF Cons.prems]]
    by (simp only: fold_simps rev.simps map_of_append map_of.simps fst_conv snd_conv o_def, simp add: map_add_upd_left map_add_def fun_eq_iff split: option.splits)
qed simp

text \<open>Decoding an encoded map gives a map with the same items.\<close>

lemma om_decode_ascend:
  assumes "llrb_ok T ti" "ti t" "item_ok cl" "item_ok ck" "item_ok cv" "M = ordered_map T cl ck cv zero" "om_Encode M t = Inr bs"
  shows "\<exists>t'. om_Decode M (bs @ r) = Inr (t', r) \<and> ti t' \<and> llrb_Ascend T t' = llrb_Ascend T t"
proof -
  note M = assms(6) ordered_map_def
  let ?items = "llrb_Ascend T t"
  let ?t = "fold (llrb_ReplaceOrInsert T) ?items (llrb_New T)"
  obtain hd where hd: "it_enc cl (length ?items) = Inr hd" "each_item (enc_item ck cv) ?items (hd, None) = (bs, None)"
    using assms(7) llrbD(2) [OF assms(1,2)] by (auto simp: M sm_Encode_def sm_EachAll_def bind_res_def split: sum.splits option.splits prod.splits)
  then obtain rest where rest: "bs = hd @ rest" "dec_items T ck cv (length ?items) (llrb_New T) (rest @ r) = Inr (?t, r)"
    using each_enc_decodes [OF hd(2) assms(4,5), of T] by blast
  have "it_dec cl (bs @ r) = Inr (length ?items, rest @ r)" using assms(3) hd(1) rest(1) by (simp add: item_ok_def)
  then have "om_Decode M (bs @ r) = Inr (?t, r)" using rest(2) by (simp add: M sm_Decode_def)
  moreover have t: "ti ?t" "map_of (llrb_Ascend T ?t) = map_of (rev ?items)" using fold_put [OF assms(1) llrb_NewD(1) [OF assms(1)]] llrb_NewD(2) [OF assms(1)] by auto
  moreover have "distinct (map fst ?items)" using llrbD(1) [OF assms(1,2)] by (simp add: strict_sorted_iff)
  then have "map_of (rev ?items) = map_of ?items" by (subst map_of_inject_set) (simp_all add: rev_map [symmetric])
  ultimately show ?thesis using sorted_items_unique [OF llrbD(1) [OF assms(1) t(1)] llrbD(1) [OF assms(1,2)]] by auto
qed

text \<open>
  C26. The encoding of an ordered map is canonical and reads back. Two maps that return the same for every key have
  the same encoding, however they were built, so hashing a map does not depend on the order of the insertions.
  Decoding an encoding gives a map that returns the same for every key and leaves what follows the encoding.
\<close>

theorem ordered_map_codec:
  assumes "llrb_ok T ti" "ti t" "item_ok cl" "item_ok ck" "item_ok cv" "M = ordered_map T cl ck cv zero"
  shows "(\<forall>t'. ti t' \<longrightarrow> (\<forall>k. om_Get M k t' = om_Get M k t) \<longrightarrow> om_Encode M t' = om_Encode M t)
     \<and> (\<forall>bs r. om_Encode M t = Inr bs \<longrightarrow> (\<exists>t'. om_Decode M (bs @ r) = Inr (t', r) \<and> ti t' \<and> (\<forall>k. om_Get M k t' = om_Get M k t)))"
proof -
  note M = assms(6) ordered_map_def
  have get: "om_Get M k t' = (case map_of (llrb_Ascend T t') k of None \<Rightarrow> (zero, False) | Some v \<Rightarrow> (v, True))" if "ti t'" for k t'
    using llrbD(3) [OF assms(1) that] by (simp add: M split: option.splits)
  have same: "llrb_Ascend T t' = llrb_Ascend T t" if "ti t'" "\<forall>k. om_Get M k t' = om_Get M k t" for t'
  proof (rule sorted_items_unique [OF llrbD(1) [OF assms(1) that(1)] llrbD(1) [OF assms(1,2)]])
    show "map_of (llrb_Ascend T t') = map_of (llrb_Ascend T t)"
    proof
      fix k show "map_of (llrb_Ascend T t') k = map_of (llrb_Ascend T t) k"
        using that(2) [rule_format, of k] get [OF that(1), of k] get [OF assms(2), of k]
        by (cases "map_of (llrb_Ascend T t') k"; cases "map_of (llrb_Ascend T t) k") auto
    qed
  qed
  have "om_Encode M t' = om_Encode M t" if "ti t'" "\<forall>k. om_Get M k t' = om_Get M k t" for t'
    using same [OF that] llrbD(2) [OF assms(1) that(1)] llrbD(2) [OF assms(1,2)] by (simp add: M sm_Encode_def sm_EachAll_def)
  moreover have "\<exists>t'. om_Decode M (bs @ r) = Inr (t', r) \<and> ti t' \<and> (\<forall>k. om_Get M k t' = om_Get M k t)" if enc: "om_Encode M t = Inr bs" for bs r
    using om_decode_ascend [OF assms enc, of r] get get [OF assms(2)] by fastforce
  ultimately show ?thesis by blast
qed

text \<open>Sorted lists are such a tree.\<close>

fun slist_put :: "'k::linorder \<times> 'v \<Rightarrow> ('k \<times> 'v) list \<Rightarrow> ('k \<times> 'v) list" where
  "slist_put (k, v) [] = [(k, v)]"
| "slist_put (k, v) ((k', v') # t) =
     (if k < k' then (k, v) # (k', v') # t else if k = k' then (k, v) # t else (k', v') # slist_put (k, v) t)"

definition slist :: "(('k::linorder \<times> 'v) list, 'k, 'v) llrb" where
  "slist = \<lparr>llrb_New = [], llrb_Len = length, llrb_Has = (\<lambda>k t. k \<in> fst ` set t),
     llrb_Get = (\<lambda>k t. map_option (Pair k) (map_of t k)), llrb_ReplaceOrInsert = slist_put,
     llrb_Delete = (\<lambda>k. filter (\<lambda>i. fst i \<noteq> k)), llrb_Ascend = (\<lambda>t. t)\<rparr>"

lemma set_slist_put: "fst ` set (slist_put (k, v) t) = insert k (fst ` set t)"
  by (induction "(k, v)" t rule: slist_put.induct) auto

lemma slist_ok: "llrb_ok slist (\<lambda>t. sorted_wrt (<) (map fst t))"
proof -
  have put: "sorted_wrt (<) (map fst t) \<Longrightarrow> sorted_wrt (<) (map fst (slist_put (k, v) t))" for k :: 'a and v :: 'b and t
  proof (induction "(k, v)" t rule: slist_put.induct)
    case (2 k' v' t)
    then show ?case using set_slist_put [of k v t] by (auto simp flip: set_map)
  qed simp
  moreover have "map_of (slist_put (k, v) t) = (map_of t)(k \<mapsto> v)" for k :: 'a and v :: 'b and t
    by (induction "(k, v)" t rule: slist_put.induct) (auto simp: fun_eq_iff)
  moreover have "sorted_wrt (<) (map fst t) \<Longrightarrow> sorted_wrt (<) (map fst (filter (\<lambda>i. fst i \<noteq> k) t))" for k :: 'a and t :: "('a \<times> 'b) list"
    by (induction t) auto
  moreover have "map_of (filter (\<lambda>i. fst i \<noteq> k) t) = (map_of t)(k := None)" for k :: 'a and t :: "('a \<times> 'b) list"
    by (induction t) (auto simp: fun_eq_iff)
  ultimately show ?thesis by (simp add: llrb_ok_def slist_def)
qed

lemma slist_decode:
  assumes "sorted_wrt (<) (map fst t)" "item_ok cl" "item_ok ck" "item_ok cv" "om_Encode (ordered_map slist cl ck cv zero) t = Inr bs"
  shows "om_Decode (ordered_map slist cl ck cv zero) (bs @ r) = Inr (t, r)"
  using om_decode_ascend [OF slist_ok assms(1-4) refl assms(5), of r] by (auto simp: slist_def)

definition item0 :: "nat item_codec" where
  "item0 = \<lparr>it_enc = (\<lambda>n. Inr (plain_nat n)), it_dec = dec_nat, it_json = (\<lambda>_. Inr [])\<rparr>"

lemma item0_ok: "item_ok item0"
  by (simp add: item_ok_def item0_def dec_plain_nat)

abbreviation map0 :: "((nat \<times> nat) list, nat, nat) ordered_map" where
  "map0 \<equiv> ordered_map slist item0 item0 item0 0"

theorem ordered_map_codec_witness:
  "om_Encode map0 (om_Put map0 1 5 [(2, 7)]) = om_Encode map0 [(1, 5), (2, 7)]
   \<and> (\<exists>t'. bind_res (om_Encode map0 [(1, 5), (2, 7)]) (om_Decode map0) = Inr (t', []) \<and> om_Get map0 2 t' = (7, True))"
proof -
  have get: "om_Get map0 k (om_Put map0 1 5 [(2, 7)]) = om_Get map0 k [(1, 5), (2, 7)]" for k
    by (simp add: ordered_map_def slist_def)
  have st: "sorted_wrt (<) (map fst [(1::nat, 5::nat), (2, 7)])" "sorted_wrt (<) (map fst (om_Put map0 1 5 [(2, 7)]))"
    by (simp_all add: ordered_map_def slist_def)
  obtain bs where bs: "om_Encode map0 [(1, 5), (2, 7)] = Inr bs"
    by (simp add: ordered_map_def sm_Encode_def sm_EachAll_def enc_item_at slist_def item0_def)
  have "om_Get map0 2 [(1, 5), (2, 7)] = (7, True)" by (simp add: ordered_map_def slist_def)
  then show ?thesis
    using ordered_map_codec [OF slist_ok st(1) item0_ok item0_ok item0_ok refl, of 0] get st(2) bs
    by (metis append_Nil2 bind_res.simps(2))
qed

end
