(* ===== verification/Context_Hash.thy ===== *)
theory Context_Hash
  imports Ordered_Maps
begin

text \<open>
  \<open>ContextData.Hash\<close> and \<open>Context.Hash\<close> (\<open>core/types\<close>): the hash of the state that a block leaves, which the header
  of the block records. The order in which the ordered maps visit their entries is an argument (\<open>orders\<close>), the
  encoders of the entries are parameters (\<open>prims\<close>).
\<close>

definition entries :: "('k \<rightharpoonup> 'v) \<Rightarrow> 'k list \<Rightarrow> ('k \<times> 'v) list" where
  "entries m ks = List.map_filter (\<lambda>k. map_option (Pair k) (m k)) ks"

text \<open>\<open>encoding.Hash\<close> of an ordered map with these entries; a failed encoding panics. \<open>String\<close> of the hash is hexadecimal.\<close>

definition map_Hash :: "(bytes \<Rightarrow> bytes) \<Rightarrow> prims \<Rightarrow> 'k item_codec \<Rightarrow> 'v item_codec \<Rightarrow> ('k::linorder \<rightharpoonup> 'v) \<Rightarrow> 'k list \<Rightarrow> bytes res" where
  "map_Hash H P ck cv m ks =
     (case sm_Encode slist (pr_Len P) ck cv (entries m ks) of
        Inl e \<Rightarrow> Inl Panic
      | Inr bs \<Rightarrow> Inr (string_bytes (hash_String (Hash H bs))))"

definition label :: "string \<Rightarrow> bytes res" where "label s = Inr (string_bytes s)"

definition event_Hash :: "(bytes \<Rightarrow> bytes) \<Rightarrow> (event \<Rightarrow> bytes res) \<Rightarrow> event \<Rightarrow> bytes res" where
  "event_Hash H marshal e = (case marshal e of Inl e \<Rightarrow> Inl Panic | Inr bs \<Rightarrow> Inr (Hash H bs))"

text \<open>The bytes that are hashed; the deleted keys are written one after the other.\<close>

definition ctd_buffer :: "(bytes \<Rightarrow> bytes) \<Rightarrow> prims \<Rightarrow> (event \<Rightarrow> bytes res) \<Rightarrow> orders \<Rightarrow> ctx \<Rightarrow> ctx_data \<Rightarrow> bytes res" where
  "ctd_buffer H P marshal ord ctx ctd = concat_res id [
     label ''ChainID'', Inr [ld_ChainID (ctx_loader ctx)],
     label ''ChainName'', label (ld_Name (ctx_loader ctx)),
     label ''ChainVersion'', Inr (Uint16ToBytes (ld_Version (ctx_loader ctx))),
     label ''Height'', Inr (Uint32ToBytes (genTargetHeight ctx)),
     label ''PrevHash'', Inr (genLastHash ctx),
     label ''SeqMap'', map_Hash H P (pr_Address P) (pr_u64 P) (SeqMap ctd) (o_Seq ord),
     label ''AccountMap'', map_Hash H P (pr_Address P) (typed_Account P) (AccountMap ctd) (o_Account ord),
     label ''DeletedAccountMap'', Inr (concat (map fst (entries (DeletedAccountMap ctd) (o_DeletedAccount ord)))),
     label ''AccountNameMap'', map_Hash H P (pr_string P) (pr_Address P) (AccountNameMap ctd) (o_AccountName ord),
     label ''AccountDataMap'', map_Hash H P (pr_key P) (pr_bytes P) (AccountDataMap ctd) (o_AccountData ord),
     label ''DeletedAccountDataMap'', Inr (concat (map fst (entries (DeletedAccountDataMap ctd) (o_DeletedAccountData ord)))),
     label ''UTXOMap'', map_Hash H P (pr_u64 P) (pr_UTXO P) (UTXOMap ctd) (o_UTXO ord),
     label ''CreatedUTXOMap'', map_Hash H P (pr_u64 P) (pr_TxOut P) (CreatedUTXOMap ctd) (o_CreatedUTXO ord),
     label ''DeletedUTXOMap'', Inr (concat (map (Uint64ToBytes \<circ> fst) (entries (DeletedUTXOMap ctd) (o_DeletedUTXO ord)))),
     label ''Events'', concat_res (event_Hash H marshal) (Events ctd),
     label ''ProcessDataMap'', map_Hash H P (pr_key P) (pr_bytes P) (ProcessDataMap ctd) (o_ProcessData ord),
     label ''DeletedProcessDataMap'', Inr (concat (map fst (entries (DeletedProcessDataMap ctd) (o_DeletedProcessData ord))))]"

definition ctd_Hash :: "(bytes \<Rightarrow> bytes) \<Rightarrow> prims \<Rightarrow> (event \<Rightarrow> bytes res) \<Rightarrow> (ctx_data \<Rightarrow> orders) \<Rightarrow> ctx \<Rightarrow> ctx_data \<Rightarrow> hash256 res" where
  "ctd_Hash H P marshal ord ctx ctd =
     bind_res (ctd_buffer H P marshal (ord ctd) ctx ctd) (\<lambda>buffer. Inr (DoubleHash H buffer))"

text \<open>\<open>Context.Hash\<close> is kept until a write resets \<open>isLatestHash\<close>.\<close>

definition ctx_Hash :: "(bytes \<Rightarrow> bytes) \<Rightarrow> prims \<Rightarrow> (event \<Rightarrow> bytes res) \<Rightarrow> (ctx_data \<Rightarrow> orders) \<Rightarrow> hash256 cm" where
  "ctx_Hash H P marshal ord ctx =
     (if isLatestHash ctx then (Inr (dataHash ctx), ctx)
      else case ctx_stack ctx of
          [] \<Rightarrow> (Inl Panic, ctx)
        | tp # _ \<Rightarrow>
            (case ctd_Hash H P marshal ord ctx tp of
               Inl e \<Rightarrow> (Inl e, ctx)
             | Inr h \<Rightarrow>
                 (case Hashes H [genLastHash ctx, h] of
                    Inl e \<Rightarrow> (Inl e, ctx)
                  | Inr dh \<Rightarrow> (Inr dh, ctx\<lparr>dataHash := dh, isLatestHash := True\<rparr>))))"

text \<open>
  C39. The context hash does not determine the deleted data. The deleted keys are hashed one after the other without
  their lengths, so a state that deletes two process data keys has the same hash as the state that deletes instead
  the single key made of both, whatever the rest of the state and the encoders are; the maps are visited in
  ascending order.
\<close>

theorem deleted_keys_ambiguous:
  assumes "k1 < k2"
  shows "ctd_Hash H P marshal (\<lambda>_. ord\<lparr>o_DeletedProcessData := [k1, k2]\<rparr>) ctx (d\<lparr>DeletedProcessDataMap := [k1 \<mapsto> True, k2 \<mapsto> True]\<rparr>)
     = ctd_Hash H P marshal (\<lambda>_. ord\<lparr>o_DeletedProcessData := [k1 @ k2]\<rparr>) ctx (d\<lparr>DeletedProcessDataMap := [k1 @ k2 \<mapsto> True]\<rparr>)
     \<and> [k1 \<mapsto> True, k2 \<mapsto> True] \<noteq> [k1 @ k2 \<mapsto> True]"
proof
  have "k1 \<noteq> k2" using assms by simp
  then show "ctd_Hash H P marshal (\<lambda>_. ord\<lparr>o_DeletedProcessData := [k1, k2]\<rparr>) ctx (d\<lparr>DeletedProcessDataMap := [k1 \<mapsto> True, k2 \<mapsto> True]\<rparr>)
     = ctd_Hash H P marshal (\<lambda>_. ord\<lparr>o_DeletedProcessData := [k1 @ k2]\<rparr>) ctx (d\<lparr>DeletedProcessDataMap := [k1 @ k2 \<mapsto> True]\<rparr>)"
    by (simp add: ctd_Hash_def ctd_buffer_def entries_def map_filter_simps)
  show "[k1 \<mapsto> True, k2 \<mapsto> True] \<noteq> [k1 @ k2 \<mapsto> True]"
  proof
    assume "[k1 \<mapsto> True, k2 \<mapsto> True] = [k1 @ k2 \<mapsto> True]"
    then have "dom [k1 \<mapsto> True, k2 \<mapsto> True] = dom [k1 @ k2 \<mapsto> True]" by simp
    then have "{k2, k1} = {k1 @ k2}" by simp
    then show False using \<open>k1 \<noteq> k2\<close> by blast
  qed
qed

theorem deleted_keys_ambiguous_witness:
  "\<forall>P marshal ord ctx d. ctd_Hash id P marshal (\<lambda>_. ord\<lparr>o_DeletedProcessData := [[1], [2]]\<rparr>) ctx (d\<lparr>DeletedProcessDataMap := [[1] \<mapsto> True, [2] \<mapsto> True]\<rparr>)
   = ctd_Hash id P marshal (\<lambda>_. ord\<lparr>o_DeletedProcessData := [[1] @ [2]]\<rparr>) ctx (d\<lparr>DeletedProcessDataMap := [[1] @ [2] \<mapsto> True]\<rparr>)"
  using deleted_keys_ambiguous [of "[1]" "[2]" id] by simp

end
