(* ===== verification/Context_Obs.thy ===== *)
theory Context_Obs
  imports Process_Base
begin

text \<open>
  Two contexts that differ only in what their caches happen to hold. The cache of a context keeps values the loader
  returned, so a computation that goes through the operations of the context cannot tell such contexts apart
  (\<open>obs\<close>): it returns the same and leaves the same snapshots. This is what makes executing a block again, after a
  different history of reads, give the same result. The exception is \<open>HasUTXO\<close>, which answers from the cache alone.
\<close>

section \<open>Caches\<close>

definition cache_of :: "loader \<Rightarrow> cache \<Rightarrow> bool" where
  "cache_of ld cc \<longleftrightarrow>
     (\<forall>a v. cc_SeqMap cc a = Some v \<longrightarrow> v = ld_Seq ld a) \<and> (\<forall>a v. cc_AccountMap cc a = Some v \<longrightarrow> ld_Account ld a = Inr v)
     \<and> (\<forall>n v. cc_AccountNameMap cc n = Some v \<longrightarrow> ld_AddressByName ld n = Inr v)
     \<and> (\<forall>a p n v. is_address a \<longrightarrow> cc_AccountDataMap cc (account_key a p n) = Some v \<longrightarrow> v = ld_AccountData ld a p n)
     \<and> (\<forall>p n v. cc_ProcessDataMap cc (process_key p n) = Some v \<longrightarrow> v = ld_ProcessData ld p n)
     \<and> (\<forall>u v. cc_UTXOMap cc u = Some v \<longrightarrow> ld_UTXO ld u = Inr v)"

text \<open>A loader that finds an account also says that it has it.\<close>

definition loader_ok :: "loader \<Rightarrow> bool" where
  "loader_ok ld \<longleftrightarrow> (\<forall>a acc. ld_Account ld a = Inr acc \<longrightarrow> ld_HasAccount ld a = Inr True)
     \<and> (\<forall>n a. ld_AddressByName ld n = Inr a \<longrightarrow> ld_HasAccountName ld n = Inr True)"

lemma cache_of_new [simp]: "cache_of ld newContextCache"
  by (simp add: cache_of_def newContextCache_def)

definition agree :: "loader \<Rightarrow> 'a \<times> ctx_data list \<times> cache \<Rightarrow> 'a \<times> ctx_data list \<times> cache \<Rightarrow> bool" where
  "agree ld out out' \<longleftrightarrow> (case out of (r, st, cc) \<Rightarrow> case out' of (r', st', cc') \<Rightarrow>
     r = r' \<and> st = st' \<and> cache_of ld cc \<and> cache_of ld cc')"

definition cache_free :: "(loader \<Rightarrow> ctx_data list \<Rightarrow> cache \<Rightarrow> 'a \<times> ctx_data list \<times> cache) \<Rightarrow> bool" where
  "cache_free f \<longleftrightarrow> (\<forall>ld st cc cc'. loader_ok ld \<longrightarrow> cache_of ld cc \<longrightarrow> cache_of ld cc' \<longrightarrow> agree ld (f ld st cc) (f ld st cc'))"

lemma cache_reads:
  assumes "cache_of ld cc"
  shows "\<exists>cc'. cc_Seq ld a cc = (ld_Seq ld a, cc') \<and> cache_of ld cc'"
    "\<exists>cc'. cc_Account ld a cc = (ld_Account ld a, cc') \<and> cache_of ld cc'"
    "\<exists>cc'. cc_AddressByName ld n cc = (ld_AddressByName ld n, cc') \<and> cache_of ld cc'"
    "\<exists>cc'. cc_UTXO ld u cc = (ld_UTXO ld u, cc') \<and> cache_of ld cc'"
    "\<exists>cc'. cc_ProcessData ld p k cc = (ld_ProcessData ld p k, cc') \<and> cache_of ld cc'"
    "is_address a \<Longrightarrow> \<exists>cc'. cc_AccountData ld a p k cc = (ld_AccountData ld a p k, cc') \<and> cache_of ld cc'"
  using assms by (auto simp: cc_Seq_def cc_Account_def cc_AddressByName_def cc_UTXO_def cc_ProcessData_def cc_AccountData_def
      cache_of_def Let_def is_address_def account_key_inject process_key_inject split: option.splits sum.splits)

lemma cache_has:
  assumes "loader_ok ld" "cache_of ld cc"
  shows "cc_HasAccount ld a cc = ld_HasAccount ld a" "cc_HasAccountName ld n cc = ld_HasAccountName ld n"
  using assms by (auto simp: cc_HasAccount_def cc_HasAccountName_def loader_ok_def cache_of_def)

lemma stack_has:
  assumes "loader_ok ld" "cache_of ld cc" "cache_of ld cc'"
  shows "ctd_HasAccount ld a st cc = ctd_HasAccount ld a st cc'" "ctd_HasAccountName ld n st cc = ctd_HasAccountName ld n st cc'"
proof -
  note has = cache_has [OF assms(1,2)] cache_has [OF assms(1,3)]
  show "ctd_HasAccount ld a st cc = ctd_HasAccount ld a st cc'" by (induction st) (simp_all add: has ctd_HasAccount.simps ctd_HasAccountName.simps)
  show "ctd_HasAccountName ld n st cc = ctd_HasAccountName ld n st cc'" by (induction st) (simp_all add: has ctd_HasAccount.simps ctd_HasAccountName.simps)
qed

text \<open>Reading through the snapshots.\<close>

lemma cache_free_induct:
  assumes "\<And>ld cc cc'. cache_of ld cc \<Longrightarrow> cache_of ld cc' \<Longrightarrow> agree ld (f ld [] cc) (f ld [] cc')"
    and "\<And>ld d ps cc cc'. cache_of ld cc \<Longrightarrow> cache_of ld cc' \<Longrightarrow> agree ld (f ld ps cc) (f ld ps cc') \<Longrightarrow> agree ld (f ld (d # ps) cc) (f ld (d # ps) cc')"
  shows "cache_free f"
  unfolding cache_free_def
proof (intro allI impI)
  fix ld cc cc' and st :: "ctx_data list" assume c: "cache_of ld cc" "cache_of ld cc'"
  show "agree ld (f ld st cc) (f ld st cc')" by (induction st) (auto intro: assms c)
qed

lemma cache_free_reads:
  "cache_free (\<lambda>ld. ctd_Seq ld a)" "cache_free (\<lambda>ld. ctd_Account ld a)" "cache_free (\<lambda>ld. ctd_AddressByName ld n)"
  "cache_free (\<lambda>ld. ctd_UTXO ld u)" "cache_free (\<lambda>ld. ctd_ProcessData ld p k)"
  "is_address a \<Longrightarrow> cache_free (\<lambda>ld. ctd_AccountData ld a p k)"
proof -
  show "cache_free (\<lambda>ld. ctd_Seq ld a)"
  proof (rule cache_free_induct, goal_cases)
    case 1 show ?case using cache_reads(1) [OF 1(1), of a] cache_reads(1) [OF 1(2), of a] by (auto simp: agree_def ctd_Seq.simps)
  next
    case 2 then show ?case by (auto simp: agree_def Let_def ctd_Seq.simps split: option.splits prod.splits)
  qed
  show "cache_free (\<lambda>ld. ctd_Account ld a)"
  proof (rule cache_free_induct, goal_cases)
    case 1 show ?case using cache_reads(2) [OF 1(1), of a] cache_reads(2) [OF 1(2), of a] by (auto simp: agree_def ctd_Account.simps)
  next
    case 2 then show ?case by (auto simp: agree_def Let_def ctd_Account.simps split: option.splits prod.splits sum.splits)
  qed
  show "cache_free (\<lambda>ld. ctd_AddressByName ld n)"
  proof (rule cache_free_induct, goal_cases)
    case 1 show ?case using cache_reads(3) [OF 1(1), of n] cache_reads(3) [OF 1(2), of n] by (auto simp: agree_def ctd_AddressByName.simps)
  next
    case 2 then show ?case by (auto simp: agree_def Let_def ctd_AddressByName.simps split: option.splits prod.splits sum.splits)
  qed
  show "cache_free (\<lambda>ld. ctd_UTXO ld u)"
  proof (rule cache_free_induct, goal_cases)
    case 1 show ?case using cache_reads(4) [OF 1(1), of u] cache_reads(4) [OF 1(2), of u] by (auto simp: agree_def ctd_UTXO.simps)
  next
    case 2 then show ?case by (auto simp: agree_def Let_def ctd_UTXO.simps split: option.splits prod.splits sum.splits)
  qed
  show "cache_free (\<lambda>ld. ctd_ProcessData ld p k)"
  proof (rule cache_free_induct, goal_cases)
    case 1 show ?case using cache_reads(5) [OF 1(1), of p k] cache_reads(5) [OF 1(2), of p k] by (auto simp: agree_def ctd_ProcessData.simps)
  next
    case 2 then show ?case by (auto simp: agree_def Let_def ctd_ProcessData.simps split: option.splits prod.splits)
  qed
  show "cache_free (\<lambda>ld. ctd_AccountData ld a p k)" if a: "is_address a"
  proof (rule cache_free_induct, goal_cases)
    case 1 show ?case using cache_reads(6) [OF 1(1) a, of p k] cache_reads(6) [OF 1(2) a, of p k] by (auto simp: agree_def ctd_AccountData.simps)
  next
    case 2 then show ?case by (auto simp: agree_def Let_def ctd_AccountData.simps split: option.splits prod.splits)
  qed
qed

lemma agree_cases:
  assumes "cache_free f" "loader_ok ld" "cache_of ld cc" "cache_of ld cc'"
  obtains r st1 c1 c2 where "f ld st cc = (r, st1, c1)" "f ld st cc' = (r, st1, c2)" "cache_of ld c1" "cache_of ld c2"
proof -
  have "agree ld (f ld st cc) (f ld st cc')" using assms by (simp add: cache_free_def)
  then show ?thesis using that by (auto simp: agree_def split: prod.splits)
qed

lemma cache_free_writes:
  "cache_free (\<lambda>ld st cc. ((), ctd_AddSeq ld a st cc))" "cache_free (\<lambda>ld. ctd_DeleteAccount ld acc)"
  "cache_free (\<lambda>ld. ctd_CreateUTXO ld u vout)" "cache_free (\<lambda>ld. ctd_DeleteUTXO ld ut)"
  "cache_free (\<lambda>ld st cc. case ctd_CreateAccount dec ld h acc st cc of Inl err \<Rightarrow> (Inl err, st, cc) | Inr st' \<Rightarrow> (Inr (), st', cc))"
  "cache_free (\<lambda>ld st cc. (ctd_HasAccount ld a st cc, st, cc))" "cache_free (\<lambda>ld st cc. (ctd_HasAccountName ld n st cc, st, cc))"
  "cache_free (\<lambda>ld st cc. ((), f (hd st) # tl st, cc))"
proof -
  have via: "cache_free g" if "cache_free f0"
    "\<And>ld st cc cc' r st1 c1 c2. f0 ld st cc = (r, st1, c1) \<Longrightarrow> f0 ld st cc' = (r, st1, c2) \<Longrightarrow> cache_of ld cc \<Longrightarrow> cache_of ld cc' \<Longrightarrow>
       cache_of ld c1 \<Longrightarrow> cache_of ld c2 \<Longrightarrow> agree ld (g ld st cc) (g ld st cc')"
    for f0 :: "loader \<Rightarrow> ctx_data list \<Rightarrow> cache \<Rightarrow> 'x \<times> ctx_data list \<times> cache" and g :: "loader \<Rightarrow> ctx_data list \<Rightarrow> cache \<Rightarrow> 'y \<times> ctx_data list \<times> cache"
    unfolding cache_free_def using that(2) by (metis agree_cases [OF that(1)])
  show "cache_free (\<lambda>ld st cc. ((), ctd_AddSeq ld a st cc))"
    by (rule via [OF cache_free_reads(1) [of a]]) (auto simp: ctd_AddSeq_def agree_def)
  show "cache_free (\<lambda>ld. ctd_DeleteAccount ld acc)"
    by (rule via [OF cache_free_reads(2) [of "account_Address acc"]]) (auto simp: ctd_DeleteAccount_def agree_def Let_def split: sum.splits)
  show "cache_free (\<lambda>ld. ctd_CreateUTXO ld u vout)"
    by (rule via [OF cache_free_reads(4) [of u]]) (auto simp: ctd_CreateUTXO_def agree_def split: sum.splits)
  show "cache_free (\<lambda>ld. ctd_DeleteUTXO ld ut)"
    by (rule via [OF cache_free_reads(4) [of "utxo_ID ut"]]) (auto simp: ctd_DeleteUTXO_def agree_def split: sum.splits)
  show "cache_free (\<lambda>ld st cc. (ctd_HasAccount ld a st cc, st, cc))" "cache_free (\<lambda>ld st cc. (ctd_HasAccountName ld n st cc, st, cc))"
    by (auto simp: cache_free_def agree_def intro: stack_has)
  show "cache_free (\<lambda>ld st cc. ((), f (hd st) # tl st, cc))" by (simp add: cache_free_def agree_def)
  have create: "ctd_CreateAccount dec ld h acc st cc = ctd_CreateAccount dec ld h acc st cc'" if "loader_ok ld" "cache_of ld cc" "cache_of ld cc'" for ld st cc cc'
    using stack_has [OF that] by (simp add: ctd_CreateAccount_def Let_def)
  show "cache_free (\<lambda>ld st cc. case ctd_CreateAccount dec ld h acc st cc of Inl err \<Rightarrow> (Inl err, st, cc) | Inr st' \<Rightarrow> (Inr (), st', cc))"
    unfolding cache_free_def
  proof (intro allI impI)
    fix ld st cc cc' assume c: "loader_ok ld" "cache_of ld cc" "cache_of ld cc'"
    show "agree ld (case ctd_CreateAccount dec ld h acc st cc of Inl err \<Rightarrow> (Inl err, st, cc) | Inr st' \<Rightarrow> (Inr (), st', cc))
        (case ctd_CreateAccount dec ld h acc st cc' of Inl err \<Rightarrow> (Inl err, st, cc') | Inr st' \<Rightarrow> (Inr (), st', cc'))"
      using create [OF c, of st] c by (simp add: agree_def split: sum.splits)
  qed
qed

section \<open>Contexts\<close>

text \<open>Neither context has computed its hash yet.\<close>

definition ceq :: "ctx \<Rightarrow> ctx \<Rightarrow> bool" where
  "ceq ctx ctx' \<longleftrightarrow> ctx_stack ctx = ctx_stack ctx' \<and> ctx_env ctx = ctx_env ctx' \<and> loader_ok (ctx_loader ctx)
     \<and> cache_of (ctx_loader ctx) (ctx_cache ctx) \<and> cache_of (ctx_loader ctx) (ctx_cache ctx')
     \<and> \<not> isLatestHash ctx \<and> \<not> isLatestHash ctx'"

definition obs :: "'a cm \<Rightarrow> bool" where
  "obs m \<longleftrightarrow> (\<forall>ctx ctx'. ceq ctx ctx' \<longrightarrow> fst (m ctx) = fst (m ctx') \<and> ceq (snd (m ctx)) (snd (m ctx')))"

lemma obsD: "obs m \<Longrightarrow> ceq ctx ctx' \<Longrightarrow> fst (m ctx) = fst (m ctx')" "obs m \<Longrightarrow> ceq ctx ctx' \<Longrightarrow> ceq (snd (m ctx)) (snd (m ctx'))"
  by (auto simp: obs_def)

lemma ceq_stack: "ceq ctx ctx' \<Longrightarrow> ctx_stack ctx = ctx_stack ctx'" "ceq ctx ctx' \<Longrightarrow> ctx_env ctx = ctx_env ctx'"
  by (simp_all add: ceq_def)

lemma ceq_refl: "loader_ok (ctx_loader ctx) \<Longrightarrow> cache_of (ctx_loader ctx) (ctx_cache ctx) \<Longrightarrow> \<not> isLatestHash ctx \<Longrightarrow> ceq ctx ctx"
  by (simp add: ceq_def)

lemma ceq_new: "loader_ok ld \<Longrightarrow> ceq (NewContext ld) (NewContext ld)"
  by (rule ceq_refl) (simp_all add: NewContext_def)

lemma ceq_sym: "ceq ctx ctx' \<Longrightarrow> ceq ctx' ctx"
  by (auto simp: ceq_def ctx_env_def)

lemma ceq_trans: "ceq a b \<Longrightarrow> ceq b c \<Longrightarrow> ceq a c"
  by (auto simp: ceq_def ctx_env_def)

lemma ceq_dirty [simp]: "ceq ctx ctx' \<Longrightarrow> ceq (dirty ctx) (dirty ctx')"
  by (auto simp: ceq_def dirty_def ctx_env_def)

named_theorems obs_intros

lemma obs_cret [obs_intros]: "obs (cret a)" "obs (cfail e)" "obs (clift r)" "obs (\<lambda>ctx. (r, ctx))"
  by (simp_all add: obs_def cret_def cfail_def clift_def)

lemma obs_cbind [obs_intros]: "obs m \<Longrightarrow> (\<And>a. obs (f a)) \<Longrightarrow> obs (cbind m f)"
  unfolding obs_def [of "cbind m f"]
proof (intro allI impI)
  fix ctx ctx' assume m: "obs m" "\<And>a. obs (f a)" and eq: "ceq ctx ctx'"
  show "fst (cbind m f ctx) = fst (cbind m f ctx') \<and> ceq (snd (cbind m f ctx)) (snd (cbind m f ctx'))"
    using obsD [OF m(1) eq] obsD [OF m(2)] by (cases "fst (m ctx')") (simp_all add: ctx_simps)
qed

lemma obs_if [obs_intros]: "(b \<Longrightarrow> obs m) \<Longrightarrow> (\<not> b \<Longrightarrow> obs n) \<Longrightarrow> obs (if b then m else n)"
  by simp

lemma obs_cguard [obs_intros]: "obs (cguard b e)"
  unfolding cguard_def by (intro obs_intros)

lemma obs_dirty: "obs m \<Longrightarrow> obs (\<lambda>ctx. m (dirty ctx))"
  by (simp add: obs_def)

lemma obs_on_stack: "cache_free f \<Longrightarrow> obs (on_stack f)"
  unfolding obs_def
proof (intro allI impI)
  fix ctx ctx' assume f: "cache_free f" and eq: "ceq ctx ctx'"
  let ?ld = "ctx_loader ctx"
  have ld: "loader_ok ?ld" "cache_of ?ld (ctx_cache ctx)" "cache_of ?ld (ctx_cache ctx')" "ctx_stack ctx' = ctx_stack ctx" "ctx_loader ctx' = ?ld"
    using eq by (auto simp: ceq_def ctx_env_def)
  obtain r st1 c1 c2 where "f ?ld (ctx_stack ctx) (ctx_cache ctx) = (r, st1, c1)" "f ?ld (ctx_stack ctx) (ctx_cache ctx') = (r, st1, c2)"
    "cache_of ?ld c1" "cache_of ?ld c2" using agree_cases [OF f ld(1-3)] by metis
  then show "fst (on_stack f ctx) = fst (on_stack f ctx') \<and> ceq (snd (on_stack f ctx)) (snd (on_stack f ctx'))"
    using eq ld by (auto simp: on_stack_def ceq_def ctx_env_def)
qed

lemma obs_on_stack_res: "cache_free f \<Longrightarrow> obs (on_stack_res f)"
  unfolding on_stack_res_def by (intro obs_intros obs_on_stack)

lemma obs_on_top: "obs (on_top f)"
  unfolding on_top_def by (intro obs_on_stack cache_free_writes)

lemma obs_height:
  assumes "\<And>h. obs (f h)" shows "obs (\<lambda>ctx. f (genTargetHeight ctx) ctx)"
  using assms unfolding obs_def by (metis ceq_stack(2) genTargetHeight_env)

lemma obs_ops [obs_intros]:
  "obs (ctx_Seq a)" "obs (ctx_AddSeq a)" "obs (ctx_Account a)" "obs (ctx_AddressByName n)"
  "obs (ctx_HasAccount a)" "obs (ctx_HasAccountName n)" "obs (ctx_DeleteAccount acc)" "obs (ctx_UpdateAccount acc)"
  "is_address addr \<Longrightarrow> obs (ctx_AccountData addr pid name)" "obs (ctx_SetAccountData addr pid name v)"
  "obs (ctx_UTXO u)" "obs (ctx_CreateUTXO u vout)" "obs (ctx_DeleteUTXO ut)"
  "obs (ctx_EmitEvent e)" "obs (ctx_ProcessData pid name)" "obs (ctx_SetProcessData pid name v)"
  "obs (ctx_CreateAccount dec acc)" "obs ctx_TargetHeight"
proof -
  show "obs (ctx_Seq a)" unfolding ctx_Seq_def by (intro obs_on_stack cache_free_reads)
  show "obs (ctx_AddSeq a)" unfolding ctx_AddSeq_def [abs_def] by (intro obs_dirty obs_on_stack cache_free_writes)
  show "obs (ctx_Account a)" unfolding ctx_Account_def [abs_def] by (intro obs_dirty obs_on_stack_res cache_free_reads)
  show "obs (ctx_AddressByName n)" unfolding ctx_AddressByName_def by (intro obs_on_stack_res cache_free_reads)
  show "obs (ctx_HasAccount a)" unfolding ctx_HasAccount_def by (intro obs_on_stack_res cache_free_writes)
  show "obs (ctx_HasAccountName n)" unfolding ctx_HasAccountName_def by (intro obs_on_stack_res cache_free_writes)
  show "obs (ctx_DeleteAccount acc)" unfolding ctx_DeleteAccount_def [abs_def] by (intro obs_dirty obs_on_stack_res cache_free_writes)
  show "obs (ctx_UpdateAccount acc)" unfolding ctx_UpdateAccount_def by (rule obs_on_top)
  show "obs (ctx_AccountData addr pid name)" if "is_address addr" unfolding ctx_AccountData_def using that by (intro obs_on_stack cache_free_reads)
  show "obs (ctx_SetAccountData addr pid name v)" unfolding ctx_SetAccountData_def [abs_def] by (intro obs_dirty obs_on_top)
  show "obs (ctx_UTXO u)" unfolding ctx_UTXO_def by (intro obs_on_stack_res cache_free_reads)
  show "obs (ctx_CreateUTXO u vout)" unfolding ctx_CreateUTXO_def [abs_def] by (intro obs_dirty obs_on_stack_res cache_free_writes)
  show "obs (ctx_DeleteUTXO ut)" unfolding ctx_DeleteUTXO_def [abs_def] by (intro obs_dirty obs_on_stack_res cache_free_writes)
  show "obs (ctx_EmitEvent e)" unfolding ctx_EmitEvent_def [abs_def] by (intro obs_dirty obs_on_top)
  show "obs (ctx_ProcessData pid name)" unfolding ctx_ProcessData_def by (intro obs_on_stack cache_free_reads)
  show "obs (ctx_SetProcessData pid name v)" unfolding ctx_SetProcessData_def by (rule obs_on_top)
  show "obs (ctx_CreateAccount dec acc)" unfolding ctx_CreateAccount_def [abs_def]
    by (rule obs_height [where f = "\<lambda>h ctx. on_stack_res (\<lambda>ld st cc. case ctd_CreateAccount dec ld h acc st cc of
         Inl err \<Rightarrow> (Inl err, st, cc) | Inr st' \<Rightarrow> (Inr (), st', cc)) (dirty ctx)"])
      (intro obs_dirty obs_on_stack_res cache_free_writes)
  show "obs ctx_TargetHeight" unfolding ctx_TargetHeight_def [abs_def] by (rule obs_height [where f = "\<lambda>h ctx. (Inr h, ctx)"]) (rule obs_intros)
qed

lemma obs_Snapshot [obs_intros]: "obs ctx_Snapshot" "obs (ctx_Revert sn)" "obs (ctx_Commit sn)"
  by (auto simp: obs_def ctx_Snapshot_def ctx_Revert_def ctx_Commit_def ceq_def ctx_env_def dirty_def Let_def split: list.splits sum.splits)

end
