(* ===== verification/Keys.thy ===== *)
theory Keys
  imports Hashing
begin

text \<open>
  \<open>common\<close>: public keys, public hashes and signatures with their texts, the majority check of observer
  signatures (\<open>util_verify.go\<close>) and the type factory (\<open>common/factory\<close>). Elliptic-curve recovery and the base58
  package are parameters.
\<close>

section \<open>Public keys and signatures\<close>

definition PublicKeySize :: nat where "PublicKeySize = 33"
definition SignatureSize :: nat where "SignatureSize = 65"
definition PublicHashSize :: nat where "PublicHashSize = 31"

definition pubkey_String :: "public_key \<Rightarrow> string" where "pubkey_String pubkey = hex_encode pubkey"

definition ParsePublicKey :: "string \<Rightarrow> public_key res" where
  "ParsePublicKey str =
     (if length str \<noteq> PublicKeySize * 2 then Inl ErrInvalidPublicKeyFormat
      else bind_res (hex_decode str) (\<lambda>bs. Inr (go_copy (replicate PublicKeySize 0) bs)))"

definition sig_String :: "signature \<Rightarrow> string" where "sig_String sig = hex_encode sig"

definition ParseSignature :: "string \<Rightarrow> signature res" where
  "ParseSignature str =
     (if length str \<noteq> SignatureSize * 2 then Inl ErrInvalidSignatureFormat
      else bind_res (hex_decode str) (\<lambda>bs. Inr (go_copy (replicate SignatureSize 0) bs)))"

text \<open>The quoted text of the JSON form, and the check that opens the readers.\<close>

definition quoted :: "string \<Rightarrow> string" where "quoted s = [CHR 0x22] @ s @ [CHR 0x22]"

definition unquote :: "error \<Rightarrow> string \<Rightarrow> string res" where
  "unquote err bs =
     (if length bs < 3 then Inl err
      else if bs ! 0 \<noteq> CHR 0x22 \<or> bs ! (length bs - 1) \<noteq> CHR 0x22 then Inl err
      else Inr (slice 1 (length bs - 1) bs))"

definition pubkey_MarshalJSON :: "public_key \<Rightarrow> string" where "pubkey_MarshalJSON pubkey = quoted (pubkey_String pubkey)"
definition pubkey_UnmarshalJSON :: "string \<Rightarrow> public_key res" where
  "pubkey_UnmarshalJSON bs = bind_res (unquote ErrInvalidPublicKeyFormat bs) ParsePublicKey"

definition sig_MarshalJSON :: "signature \<Rightarrow> string" where "sig_MarshalJSON sig = quoted (sig_String sig)"
definition sig_UnmarshalJSON :: "string \<Rightarrow> signature res" where
  "sig_UnmarshalJSON bs = bind_res (unquote ErrInvalidSignatureFormat bs) ParseSignature"

section \<open>Public hashes\<close>

definition NewPublicHash :: "(bytes \<Rightarrow> bytes) \<Rightarrow> public_key \<Rightarrow> public_hash" where
  "NewPublicHash H pubkey =
     (let h = DoubleHash H pubkey
      in copy_at 1 (take (length h - 2) h) ((replicate PublicHashSize 0)[0 := Checksum pubkey]))"

definition pubhash_String :: "(bytes \<Rightarrow> string) \<Rightarrow> public_hash \<Rightarrow> string" where
  "pubhash_String enc pubhash = enc (trim_right0 pubhash)"

definition ParsePublicHash :: "(string \<Rightarrow> bytes res) \<Rightarrow> string \<Rightarrow> public_hash res" where
  "ParsePublicHash dec str = bind_res (dec str) (\<lambda>bs. Inr (go_copy (replicate PublicHashSize 0) bs))"

definition pubhash_MarshalJSON :: "(bytes \<Rightarrow> string) \<Rightarrow> public_hash \<Rightarrow> string" where
  "pubhash_MarshalJSON enc pubhash = quoted (pubhash_String enc pubhash)"
definition pubhash_UnmarshalJSON :: "(string \<Rightarrow> bytes res) \<Rightarrow> string \<Rightarrow> public_hash res" where
  "pubhash_UnmarshalJSON dec bs = bind_res (unquote ErrInvalidPublicHashFormat bs) (ParsePublicHash dec)"

definition pubhash_Less :: "public_hash \<Rightarrow> public_hash \<Rightarrow> bool" where "pubhash_Less a b \<longleftrightarrow> a < b"

lemma go_copy_full: "length bs = n \<Longrightarrow> go_copy (replicate n x) bs = bs"
  by (simp add: go_copy_def)

lemma unquote_quoted: "s \<noteq> [] \<Longrightarrow> unquote err (quoted s) = Inr s"
  by (cases s) (simp_all add: unquote_def quoted_def nth_append slice_def)



section \<open>Majorities of observer keys\<close>

text \<open>
  A key map is the list of keys that are set and their number. \<open>KeyMap[pubhash]\<close> is \<^const>\<open>False\<close> for a key that is
  not set.
\<close>

type_synonym key_map = "public_hash \<rightharpoonup> bool"

definition has_key :: "key_map \<Rightarrow> public_hash \<Rightarrow> bool" where
  "has_key KeyMap pubhash \<longleftrightarrow> KeyMap pubhash = Some True"

definition majority :: "key_map \<Rightarrow> nat" where "majority KeyMap = card (dom KeyMap) div 2 + 1"

definition signer_of :: "(bytes \<Rightarrow> bytes) \<Rightarrow> (hash256 \<Rightarrow> signature \<Rightarrow> public_key res) \<Rightarrow> hash256 \<Rightarrow> signature
    \<Rightarrow> public_hash res" where
  "signer_of H RecoverPubkey h sig = bind_res (RecoverPubkey h sig) (\<lambda>pubkey. Inr (NewPublicHash H pubkey))"

fun majority_loop :: "(signature \<Rightarrow> public_hash res) \<Rightarrow> key_map \<Rightarrow> signature list \<Rightarrow> public_hash list
    \<Rightarrow> public_hash list res" where
  "majority_loop signer KeyMap [] sigMap = Inr sigMap"
| "majority_loop signer KeyMap (sig # sigs) sigMap =
     bind_res (signer sig) (\<lambda>pubhash.
       if \<not> has_key KeyMap pubhash then Inl ErrInvalidSignature
       else majority_loop signer KeyMap sigs (List.insert pubhash sigMap))"

definition ValidateSignaturesMajority :: "(bytes \<Rightarrow> bytes) \<Rightarrow> (hash256 \<Rightarrow> signature \<Rightarrow> public_key res) \<Rightarrow> hash256
    \<Rightarrow> signature list \<Rightarrow> key_map \<Rightarrow> unit res" where
  "ValidateSignaturesMajority H RecoverPubkey signedHash sigs KeyMap =
     (if length sigs \<noteq> majority KeyMap then Inl ErrInsufficientSignature
      else bind_res (majority_loop (signer_of H RecoverPubkey signedHash) KeyMap sigs []) (\<lambda>sigMap.
             if length sigMap \<noteq> length sigs then Inl ErrDuplicatedSignature else Inr ()))"

text \<open>
  What the protocol takes from a majority: a family of sets, any two of which over the same key map meet. The
  law gives agreement: when every voter votes at most once, two values with a quorum of votes are the same.
\<close>

locale quorums =
  fixes quorum :: "'s \<Rightarrow> 'v set \<Rightarrow> bool"
  assumes meet: "quorum s A \<Longrightarrow> quorum s B \<Longrightarrow> \<exists>v. v \<in> A \<and> v \<in> B"
begin

lemma agreement:
  assumes "quorum s {v. vote v x}" "quorum s {v. vote v y}" and "\<And>v x y. vote v x \<Longrightarrow> vote v y \<Longrightarrow> x = y"
  shows "x = y"
  using meet [OF assms(1,2)] assms(3) by blast

lemma not_both:
  assumes "quorum s A" "quorum s B" shows "\<not> A \<subseteq> - B"
  using meet [OF assms] by blast

end

definition majority_of :: "key_map \<Rightarrow> public_hash set \<Rightarrow> bool" where
  "majority_of KeyMap S \<longleftrightarrow> finite (dom KeyMap) \<and> S \<subseteq> Collect (has_key KeyMap) \<and> majority KeyMap \<le> card S"

interpretation majorities: quorums majority_of
proof
  fix s A B assume *: "majority_of s A" "majority_of s B"
  let ?d = "dom s"
  have sub: "A \<subseteq> ?d" "B \<subseteq> ?d" using * by (auto simp: majority_of_def dest!: subsetD, auto simp: has_key_def)
  have fin: "finite ?d" "finite A" "finite B" using * sub finite_subset by (auto simp: majority_of_def)
  have "card ?d < card A + card B" using * unfolding majority_of_def majority_def by linarith
  moreover have "A \<inter> B = {} \<Longrightarrow> card A + card B \<le> card ?d"
    using card_Un_disjoint [OF fin(2,3)] card_mono [OF fin(1), of "A \<union> B"] sub by simp
  ultimately show "\<exists>v. v \<in> A \<and> v \<in> B" by auto
qed

lemma majority_loop_run:
  "majority_loop signer KeyMap sigs acc = Inr m \<Longrightarrow> distinct acc \<Longrightarrow> set acc \<subseteq> Collect (has_key KeyMap)
   \<Longrightarrow> distinct m \<and> set m = set acc \<union> {p. \<exists>sig \<in> set sigs. signer sig = Inr p} \<and> set m \<subseteq> Collect (has_key KeyMap)"
proof (induction sigs arbitrary: acc)
  case (Cons sig sigs)
  then obtain p where p: "signer sig = Inr p" "has_key KeyMap p" "majority_loop signer KeyMap sigs (List.insert p acc) = Inr m"
    by (auto simp: bind_res_def split: sum.splits if_splits)
  have "distinct m \<and> set m = set (List.insert p acc) \<union> {q. \<exists>sig \<in> set sigs. signer sig = Inr q} \<and> set m \<subseteq> Collect (has_key KeyMap)"
    by (rule Cons.IH [OF p(3)]) (use Cons.prems p(2) in auto)
  then show ?case using p(1) by auto
qed simp

lemma majority_loop_keys:
  "majority_loop signer KeyMap sigs acc = Inr m \<Longrightarrow> \<forall>sig \<in> set sigs. \<exists>p. signer sig = Inr p \<and> has_key KeyMap p"
proof (induction sigs arbitrary: acc)
  case (Cons sig sigs)
  then obtain p where p: "signer sig = Inr p" "has_key KeyMap p" "majority_loop signer KeyMap sigs (List.insert p acc) = Inr m"
    by (auto simp: bind_res_def split: sum.splits if_splits)
  then show ?case using Cons.IH by auto
qed simp

lemma majority_loop_total:
  "\<forall>sig \<in> set sigs. \<exists>p. signer sig = Inr p \<and> has_key KeyMap p \<Longrightarrow> \<exists>m. majority_loop signer KeyMap sigs acc = Inr m"
  by (induction sigs arbitrary: acc) auto

definition signer_set :: "(signature \<Rightarrow> public_hash res) \<Rightarrow> signature list \<Rightarrow> public_hash set" where
  "signer_set signer sigs = {p. \<exists>sig \<in> set sigs. signer sig = Inr p}"

text \<open>Acceptance is exactly: a majority of signatures, all by keys of the map, no key twice.\<close>

lemma ValidateSignaturesMajority_iff:
  "ValidateSignaturesMajority H R h sigs KeyMap = Inr () \<longleftrightarrow>
     length sigs = majority KeyMap \<and> (\<forall>sig \<in> set sigs. \<exists>p. signer_of H R h sig = Inr p \<and> has_key KeyMap p)
     \<and> card (signer_set (signer_of H R h) sigs) = length sigs"
  (is "?l \<longleftrightarrow> ?r")
proof
  assume ?l
  then obtain m where m: "length sigs = majority KeyMap" "majority_loop (signer_of H R h) KeyMap sigs [] = Inr m" "length m = length sigs"
    by (auto simp: ValidateSignaturesMajority_def bind_res_def split: sum.splits if_splits)
  then show ?r using majority_loop_run [OF m(2)] majority_loop_keys [OF m(2)] distinct_card [of m]
    by (simp add: signer_set_def)
next
  assume r: ?r
  then obtain m where m: "majority_loop (signer_of H R h) KeyMap sigs [] = Inr m" using majority_loop_total by blast
  then show ?l using r majority_loop_run [OF m] distinct_card [of m]
    by (simp add: ValidateSignaturesMajority_def signer_set_def)
qed

lemma accepted_majority:
  assumes "ValidateSignaturesMajority H R h sigs KeyMap = Inr ()" "finite (dom KeyMap)"
  shows "majority_of KeyMap (signer_set (signer_of H R h) sigs)"
  using assms by (auto simp: ValidateSignaturesMajority_iff majority_of_def signer_set_def)

text \<open>
  C19. Two accepted majorities share an observer. When the signatures over two hashes are both accepted against
  the same finite key map, some key of the map has signed both hashes. In particular two different blocks at
  the same height are only accepted together if an observer signed twice.
\<close>

theorem majority_overlap:
  assumes "finite (dom KeyMap)"
    and "ValidateSignaturesMajority H R h sigs KeyMap = Inr ()" "ValidateSignaturesMajority H R h' sigs' KeyMap = Inr ()"
  shows "\<exists>p sig sig'. has_key KeyMap p \<and> sig \<in> set sigs \<and> sig' \<in> set sigs'
     \<and> signer_of H R h sig = Inr p \<and> signer_of H R h' sig' = Inr p"
proof -
  obtain p where p: "p \<in> signer_set (signer_of H R h) sigs" "p \<in> signer_set (signer_of H R h') sigs'"
    using majorities.meet [OF accepted_majority [OF assms(2,1)] accepted_majority [OF assms(3,1)]] by blast
  then have "has_key KeyMap p" using assms(2) by (auto simp: ValidateSignaturesMajority_iff signer_set_def)
  then show ?thesis using p by (auto simp: signer_set_def)
qed

definition key0 :: "byte \<Rightarrow> public_hash" where "key0 b = NewPublicHash (\<lambda>d. d) [b]"

definition keys0 :: key_map where "keys0 = [key0 1 \<mapsto> True, key0 2 \<mapsto> True, key0 3 \<mapsto> True]"

lemma key0_distinct: "key0 1 \<noteq> key0 2" "key0 1 \<noteq> key0 3" "key0 2 \<noteq> key0 3"
  by code_simp+

lemma keys0_accepts:
  assumes "{a, b} \<subseteq> {1, 2, 3}" "a \<noteq> b"
  shows "ValidateSignaturesMajority (\<lambda>d. d) (\<lambda>h sig. Inr sig) h [[a], [b]] keys0 = Inr ()"
proof -
  have ne: "key0 a \<noteq> key0 b" using assms key0_distinct by auto
  have "card (dom keys0) = 3" using key0_distinct by (simp add: keys0_def)
  moreover have "signer_of (\<lambda>d. d) (\<lambda>h sig. Inr sig) h [c] = Inr (key0 c)" for c by (simp add: signer_of_def key0_def)
  moreover have "has_key keys0 (key0 a)" "has_key keys0 (key0 b)" using assms by (auto simp: has_key_def keys0_def)
  moreover have "signer_set (signer_of (\<lambda>d. d) (\<lambda>h sig. Inr sig) h) [[a], [b]] = {key0 a, key0 b}"
    by (auto simp: signer_set_def signer_of_def key0_def)
  ultimately show ?thesis using ne by (simp add: ValidateSignaturesMajority_iff majority_def)
qed

theorem majority_overlap_witness:
  "\<exists>p sig sig'. has_key keys0 p \<and> sig \<in> set [[1], [2]] \<and> sig' \<in> set [[2], [3]]
     \<and> signer_of (\<lambda>d. d) (\<lambda>h sig. Inr sig) [7] sig = Inr p \<and> signer_of (\<lambda>d. d) (\<lambda>h sig. Inr sig) [8] sig' = Inr p"
  by (rule majority_overlap [OF _ keys0_accepts keys0_accepts]) (simp_all add: keys0_def)

section \<open>Type factory\<close>

text \<open>
  \<open>common/factory\<close>. A Go type is its qualified name (\<open>typeNameOf\<close>) and its reflect value, here any \<open>'rt\<close>; creating a
  value of a type returns that reflect value.
\<close>

type_synonym 'rt gotype = "string \<times> 'rt"

record 'rt factory =
  nameTypeMap :: "string \<rightharpoonup> u16"
  nameHashTypeMap :: "hash256 \<rightharpoonup> u16"
  typeNameMap :: "u16 \<rightharpoonup> string"
  typeReflectMap :: "u16 \<rightharpoonup> 'rt"

definition NewFactory :: "'rt factory" where
  "NewFactory = \<lparr>nameTypeMap = Map.empty, nameHashTypeMap = Map.empty, typeNameMap = Map.empty, typeReflectMap = Map.empty\<rparr>"

definition name_hash :: "(bytes \<Rightarrow> bytes) \<Rightarrow> string \<Rightarrow> hash256" where
  "name_hash H nm = Hash H (map (of_nat \<circ> of_char) nm)"

fun Register :: "(bytes \<Rightarrow> bytes) \<Rightarrow> u16 \<Rightarrow> 'rt gotype \<Rightarrow> 'rt factory \<Rightarrow> 'rt factory res" where
  "Register H t (nm, rt) fc =
     (let h = name_hash H nm in
      if typeReflectMap fc t \<noteq> None then Inl ErrExistType
      else if nameHashTypeMap fc h \<noteq> None then Inl ErrExistTypeName
      else Inr (fc\<lparr>nameHashTypeMap := (nameHashTypeMap fc)(h \<mapsto> t), nameTypeMap := (nameTypeMap fc)(nm \<mapsto> t),
                   typeNameMap := (typeNameMap fc)(t \<mapsto> nm), typeReflectMap := (typeReflectMap fc)(t \<mapsto> rt)\<rparr>))"

definition Create :: "u16 \<Rightarrow> 'rt factory \<Rightarrow> 'rt res" where
  "Create t fc = (case typeReflectMap fc t of None \<Rightarrow> Inl ErrUnknownType | Some rt \<Rightarrow> Inr rt)"

fun TypeOf :: "(bytes \<Rightarrow> bytes) \<Rightarrow> 'rt gotype \<Rightarrow> 'rt factory \<Rightarrow> u16 res" where
  "TypeOf H (nm, rt) fc =
     (case nameTypeMap fc nm of None \<Rightarrow> Inl ErrUnknownType
      | Some _ \<Rightarrow> (case nameHashTypeMap fc (name_hash H nm) of None \<Rightarrow> Inl ErrUnknownType | Some t \<Rightarrow> Inr t))"

definition TypeName :: "u16 \<Rightarrow> 'rt factory \<Rightarrow> string res" where
  "TypeName t fc = (case typeNameMap fc t of None \<Rightarrow> Inl ErrUnknownType | Some nm \<Rightarrow> Inr nm)"

fun RegisterAll :: "(bytes \<Rightarrow> bytes) \<Rightarrow> (u16 \<times> 'rt gotype) list \<Rightarrow> 'rt factory \<Rightarrow> 'rt factory res" where
  "RegisterAll H [] fc = Inr fc"
| "RegisterAll H ((t, v) # rs) fc = bind_res (Register H t v fc) (RegisterAll H rs)"

definition factory_inv :: "(bytes \<Rightarrow> bytes) \<Rightarrow> (u16 \<times> 'rt gotype) set \<Rightarrow> 'rt factory \<Rightarrow> bool" where
  "factory_inv H S fc \<longleftrightarrow>
     (\<forall>t nm rt. (t, nm, rt) \<in> S \<longrightarrow> typeReflectMap fc t = Some rt \<and> typeNameMap fc t = Some nm
        \<and> nameTypeMap fc nm = Some t \<and> nameHashTypeMap fc (name_hash H nm) = Some t)
     \<and> (\<forall>nm t. nameTypeMap fc nm = Some t \<longrightarrow> (\<exists>rt. (t, nm, rt) \<in> S))"

lemma factory_inv_new: "factory_inv H {} NewFactory"
  by (simp add: factory_inv_def NewFactory_def)

lemma factory_inv_Register:
  assumes "factory_inv H S fc" "Register H t v fc = Inr fc'"
  shows "factory_inv H (insert (t, v) S) fc'"
  using assms by (cases v) (auto simp: factory_inv_def Let_def split: if_splits, metis option.distinct(1))

lemma factory_inv_RegisterAll:
  "factory_inv H S fc \<Longrightarrow> RegisterAll H rs fc = Inr fc' \<Longrightarrow> factory_inv H (set rs \<union> S) fc'"
proof (induction rs arbitrary: S fc)
  case (Cons r rs)
  obtain t v where r: "r = (t, v)" by (rule prod.exhaust)
  then obtain f where f: "Register H t v fc = Inr f" "RegisterAll H rs f = Inr fc'"
    using Cons.prems(2) by (auto simp: bind_res_def split: sum.splits)
  show ?case using Cons.IH [OF factory_inv_Register [OF Cons.prems(1) f(1)] f(2)] r by simp
qed simp

text \<open>
  C28. The factory is a bijection between registered numbers and types. After any sequence of registrations that
  all succeed, every registered type has its number, its number creates the type and names it, and a number is
  only returned for a name that was registered with it.
\<close>

theorem factory_registered:
  assumes "RegisterAll H rs NewFactory = Inr fc"
  shows "(\<forall>t nm rt. (t, nm, rt) \<in> set rs \<longrightarrow> TypeOf H (nm, rt) fc = Inr t \<and> Create t fc = Inr rt \<and> TypeName t fc = Inr nm)
     \<and> (\<forall>nm rt t. TypeOf H (nm, rt) fc = Inr t \<longrightarrow> (\<exists>rt'. (t, nm, rt') \<in> set rs))"
proof -
  have inv: "factory_inv H (set rs) fc" using factory_inv_RegisterAll [OF factory_inv_new assms] by simp
  then show ?thesis
    unfolding factory_inv_def by (fastforce simp: Create_def TypeName_def split: option.splits)
qed

theorem factory_registered_witness:
  "RegisterAll (\<lambda>d. d) [(1, ''a'', True), (2, ''b'', False)] NewFactory \<noteq> Inl ErrUnknownType
   \<and> (case RegisterAll (\<lambda>d. d) [(1, ''a'', True), (2, ''b'', False)] NewFactory of
        Inr fc \<Rightarrow> TypeOf (\<lambda>d. d) (''b'', False) fc = Inr 2 | Inl _ \<Rightarrow> False)"
proof -
  have "name_hash (\<lambda>d. d) ''a'' \<noteq> name_hash (\<lambda>d. d) ''b''" by code_simp
  then obtain fc where fc: "RegisterAll (\<lambda>d. d) [(1, ''a'', True), (2, ''b'', False)] NewFactory = Inr fc"
    by (simp add: NewFactory_def)
  have "TypeOf (\<lambda>d. d) (''b'', False) fc = Inr 2"
    using factory_registered [OF fc, THEN conjunct1, rule_format, of 2 "''b''" False] by (simp del: TypeOf.simps)
  then show ?thesis by (simp add: fc del: RegisterAll.simps TypeOf.simps)
qed

end
