(* ===== verification/Chain.thy ===== *)
theory Chain
  imports Context_Hash Context_Obs Keys
begin

text \<open>
  \<open>core/chain/chain.go\<close> and \<open>block_creator.go\<close>: the chain, its processes and services, the execution of a block on a
  context, the connection of a block, and the creation of blocks.

  Transactions, processes, the application, the consensus and the services are interfaces of the source. The
  methods the chain calls on a transaction, the recovery of public keys, the serialisation and the number of
  processors are collected in a record (\<open>chain_env\<close>); a process is a record of its methods. What the consensus and
  the services keep for themselves is the state \<open>'s\<close>. A panic with an error value is that error.
\<close>

section \<open>Data\<close>

record 'tx process =
  p_ID :: u8
  p_Name :: string
  p_Init :: "u8 \<Rightarrow> (string \<Rightarrow> u8 res) \<Rightarrow> unit res"
  p_OnLoadChain :: "u8 \<Rightarrow> unit cm"
  p_Before :: "u8 \<Rightarrow> unit cm"
  p_After :: "'tx block \<Rightarrow> u8 \<Rightarrow> unit cm"
  p_OnSave :: "'tx block \<Rightarrow> u8 \<Rightarrow> unit cm"
  p_InitGenesis :: "u8 \<Rightarrow> unit cm"

record ('tx, 's) service =
  sv_Name :: string
  sv_Init :: "'s \<Rightarrow> unit res \<times> 's"
  sv_OnLoadChain :: "ctx \<Rightarrow> 's \<Rightarrow> unit res \<times> 's"
  sv_OnBlockConnected :: "'tx block \<Rightarrow> event list \<Rightarrow> ctx \<Rightarrow> 's \<Rightarrow> 's"

record ('tx, 's) consensus =
  cs_Init :: "'s \<Rightarrow> unit res \<times> 's"
  cs_InitGenesis :: "ctx \<times> 's \<Rightarrow> unit res \<times> ctx \<times> 's"
  cs_OnLoadChain :: "ctx \<Rightarrow> 's \<Rightarrow> unit res \<times> 's"
  cs_ValidateSignature :: "header \<Rightarrow> signature list \<Rightarrow> 's \<Rightarrow> unit res"
  cs_OnSaveData :: "'tx block \<Rightarrow> ctx \<times> 's \<Rightarrow> unit res \<times> ctx \<times> 's"

record ('tx, 's) chain =
  cn_isInit :: bool
  cn_store :: "'tx store"
  cn_consensus :: "('tx, 's) consensus"
  cn_app :: "'tx process"
  processes :: "'tx process list"
  processIDMap :: "string \<rightharpoonup> u8"
  processIndexMap :: "u8 \<rightharpoonup> nat"
  services :: "('tx, 's) service list"
  serviceMap :: "string \<rightharpoonup> ('tx, 's) service"
  cn_isClose :: bool
  cn_state :: 's

record 'tx chain_env =
  ce_codec :: codec
  ce_wire :: "'tx wire"
  ce_prims :: prims
  ce_marshal :: "event \<Rightarrow> bytes res"
  ce_orders :: "ctx_data \<Rightarrow> orders"
  ce_Recover :: "hash256 \<Rightarrow> signature \<Rightarrow> public_key res"
  ce_TypeOf :: "'tx \<Rightarrow> u16 res"
  ce_Account :: "'tx \<Rightarrow> (address \<times> u64) option"
  ce_Validate :: "'tx \<Rightarrow> 'tx process \<Rightarrow> u8 \<Rightarrow> public_hash list \<Rightarrow> unit cm"
  ce_Execute :: "'tx \<Rightarrow> 'tx process \<Rightarrow> u8 \<Rightarrow> u16 \<Rightarrow> unit cm"
  ce_NumCPU :: nat
  ce_sched :: "nat \<Rightarrow> nat list"

text \<open>
  \<open>ce_Account tx\<close> is \<open>(From, Seq)\<close> of a transaction that is an \<open>AccountTransaction\<close>. \<open>ce_sched n\<close> is the order in
  which \<open>n\<close> goroutines finish.
\<close>

abbreviation ce_sha :: "'tx chain_env \<Rightarrow> bytes \<Rightarrow> bytes" where "ce_sha env \<equiv> sha (ce_codec env)"

abbreviation cn_loader :: "'tx chain_env \<Rightarrow> ('tx, 's) chain \<Rightarrow> loader" where
  "cn_loader env cn \<equiv> store_loader (ce_codec env) (ce_wire env) (cn_store cn)"

abbreviation hash_ctx :: "'tx chain_env \<Rightarrow> hash256 cm" where
  "hash_ctx env \<equiv> ctx_Hash (ce_sha env) (ce_prims env) (ce_marshal env) (ce_orders env)"

section \<open>Processes and services\<close>

definition NewChain :: "('tx, 's) consensus \<Rightarrow> 'tx process \<Rightarrow> 'tx store \<Rightarrow> 's \<Rightarrow> ('tx, 's) chain res" where
  "NewChain cs app st s =
     (if p_ID app \<noteq> 255 then Inl ErrApplicationIDMustBe255
      else Inr \<lparr>cn_isInit = False, cn_store = st, cn_consensus = cs, cn_app = app, processes = [], processIDMap = Map.empty,
                processIndexMap = Map.empty, services = [], serviceMap = Map.empty, cn_isClose = False, cn_state = s\<rparr>)"

definition chain_Close :: "('tx, 's) chain \<Rightarrow> ('tx, 's) chain" where
  "chain_Close cn = (if cn_isClose cn then cn else cn\<lparr>cn_store := store_Close (cn_store cn), cn_isClose := True\<rparr>)"

definition Process :: "('tx, 's) chain \<Rightarrow> u8 \<Rightarrow> 'tx process res" where
  "Process cn pid =
     (if pid = 255 then Inr (cn_app cn)
      else case processIndexMap cn pid of
          None \<Rightarrow> Inl ErrNotExistProcess
        | Some idx \<Rightarrow> if idx < length (processes cn) then Inr (processes cn ! idx) else Inl Panic)"

definition ProcessByName :: "('tx, 's) chain \<Rightarrow> string \<Rightarrow> 'tx process res" where
  "ProcessByName cn name =
     (case processIDMap cn name of
        None \<Rightarrow> Inl ErrNotExistProcess
      | Some pid \<Rightarrow> (case processIndexMap cn pid of
            None \<Rightarrow> Inl ErrNotExistProcess
          | Some idx \<Rightarrow> if idx < length (processes cn) then Inr (processes cn ! idx) else Inl Panic))"

definition MustAddProcess :: "'tx process \<Rightarrow> ('tx, 's) chain \<Rightarrow> ('tx, 's) chain res" where
  "MustAddProcess p cn =
     (if cn_isInit cn then Inl ErrAddBeforeChainInit
      else if p_ID p = 0 \<or> p_ID p = 255 then Inl ErrReservedID
      else if processIDMap cn (p_Name p) \<noteq> None then Inl ErrExistProcessName
      else if processIndexMap cn (p_ID p) \<noteq> None then Inl ErrExistProcessID
      else Inr (cn\<lparr>processes := processes cn @ [p], processIDMap := (processIDMap cn)(p_Name p \<mapsto> p_ID p),
                   processIndexMap := (processIndexMap cn)(p_ID p \<mapsto> length (processes cn))\<rparr>))"

definition ServiceByName :: "('tx, 's) chain \<Rightarrow> string \<Rightarrow> ('tx, 's) service res" where
  "ServiceByName cn name = (case serviceMap cn name of None \<Rightarrow> Inl ErrNotExistService | Some s \<Rightarrow> Inr s)"

definition MustAddService :: "('tx, 's) service \<Rightarrow> ('tx, 's) chain \<Rightarrow> ('tx, 's) chain res" where
  "MustAddService s cn =
     (if cn_isInit cn then Inl ErrAddBeforeChainInit
      else if serviceMap cn (sv_Name s) \<noteq> None then Inl ErrExistServiceName
      else Inr (cn\<lparr>services := services cn @ [s], serviceMap := (serviceMap cn)(sv_Name s \<mapsto> s)\<rparr>))"

text \<open>\<open>IDMap[idx]\<close>, filled by ranging over \<open>processIndexMap\<close>; zero for an index that is not there.\<close>

definition IDMap :: "('tx, 's) chain \<Rightarrow> nat \<Rightarrow> u8" where
  "IDMap cn idx = (case filter (\<lambda>pid. processIndexMap cn pid = Some idx) (map word_of_nat [0..<256]) of [] \<Rightarrow> 0 | pids \<Rightarrow> last pids)"

text \<open>Calls in sequence up to the first error.\<close>

fun run_all :: "('s \<Rightarrow> unit res \<times> 's) list \<Rightarrow> 's \<Rightarrow> unit res \<times> 's" where
  "run_all [] s = (Inr (), s)"
| "run_all (f # fs) s = (case f s of (Inl e, s') \<Rightarrow> (Inl e, s') | (Inr _, s') \<Rightarrow> run_all fs s')"

text \<open>A hook must leave the stack with one snapshot.\<close>

definition check_stack :: "unit cm" where
  "check_stack ctx = (if 1 < ctx_StackSize ctx then (Inl ErrDirtyContext, ctx) else (Inr (), ctx))"

definition clean :: "unit cm \<Rightarrow> unit cm" where "clean m = cbind m (\<lambda>_. check_stack)"

definition hooks :: "('tx, 's) chain \<Rightarrow> ('tx process \<Rightarrow> u8 \<Rightarrow> unit cm) \<Rightarrow> unit cm list" where
  "hooks cn h = map (\<lambda>(i, p). h p (IDMap cn i)) (enumerate 0 (processes cn)) @ [h (cn_app cn) 255]"

definition run_hooks :: "('tx, 's) chain \<Rightarrow> ('tx process \<Rightarrow> u8 \<Rightarrow> unit cm) \<Rightarrow> unit cm" where
  "run_hooks cn h = run_all (map clean (hooks cn h))"

section \<open>Transactions\<close>

definition HashTransactionByType :: "'tx chain_env \<Rightarrow> u8 \<Rightarrow> u16 \<Rightarrow> 'tx \<Rightarrow> hash256" where
  "HashTransactionByType env ChainID t tx =
     Hash (ce_sha env) (enc_u8 (ce_wire env) ChainID @ enc_u16 (ce_wire env) t @ enc_Tx (ce_wire env) tx)"

definition HashTransaction :: "'tx chain_env \<Rightarrow> u8 \<Rightarrow> 'tx \<Rightarrow> hash256 res" where
  "HashTransaction env ChainID tx =
     (case ce_TypeOf env tx of Inl e \<Rightarrow> Inl e | Inr t \<Rightarrow> Inr (HashTransactionByType env ChainID t tx))"

text \<open>The public hashes of the keys that made the signatures, up to the first error.\<close>

fun recover_signers :: "'tx chain_env \<Rightarrow> hash256 \<Rightarrow> signature list \<Rightarrow> public_hash list res" where
  "recover_signers env h [] = Inr []"
| "recover_signers env h (sig # sigs) =
     bind_res (ce_Recover env h sig) (\<lambda>pubkey.
     bind_res (recover_signers env h sigs) (\<lambda>rest. Inr (NewPublicHash (ce_sha env) pubkey # rest)))"

section \<open>Signatures of a block\<close>

text \<open>
  The transactions are split into one slice per goroutine. A goroutine writes the hash and the signers of each of
  its transactions and stops at the first error, which it sends to the channel. The slices do not overlap, so a run
  is given by the order in which the goroutines send their errors.
\<close>

definition cpuCnt :: "'tx chain_env \<Rightarrow> nat \<Rightarrow> nat" where
  "cpuCnt env n = (if n < 1000 then 1 else ce_NumCPU env * 2)"

definition txUnit :: "nat \<Rightarrow> nat \<Rightarrow> nat" where
  "txUnit n cpus = n div cpus + (if n mod cpus \<noteq> 0 then 1 else 0)"

definition lastCnt :: "nat \<Rightarrow> nat \<Rightarrow> nat \<Rightarrow> nat" where
  "lastCnt n unit i = (if n < (i + 1) * unit then n else (i + 1) * unit)"

text \<open>\<open>b.Transactions[i*txUnit : lastCnt]\<close>; slicing with a lower bound above the upper one panics.\<close>

definition tx_slice :: "'a list \<Rightarrow> nat \<Rightarrow> nat \<Rightarrow> 'a list res" where
  "tx_slice txs unit i =
     (let lo = i * unit; hi = lastCnt (length txs) unit i
      in if hi < lo then Inl Panic else Inr (slice lo hi txs))"

type_synonym sig_state = "hash256 list \<times> public_hash list list \<times> error list"

fun sig_worker :: "'tx chain_env \<Rightarrow> u8 \<Rightarrow> 'tx block \<Rightarrow> nat \<Rightarrow> 'tx list \<Rightarrow> sig_state \<Rightarrow> sig_state" where
  "sig_worker env ChainID b k [] (TxHashes, TxSigners, errs) = (TxHashes, TxSigners, errs)"
| "sig_worker env ChainID b k (tx # txs) (TxHashes, TxSigners, errs) =
     (if length (TransactionTypes b) \<le> k then (TxHashes, TxSigners, errs @ [Panic])
      else
        let t = TransactionTypes b ! k; sigs = TransactionSignatures b ! k;
            TxHash = HashTransactionByType env ChainID t tx;
            TxHashes = TxHashes[k + 1 := TxHash]
        in case recover_signers env TxHash sigs of
            Inl e \<Rightarrow> (TxHashes, TxSigners, errs @ [e])
          | Inr signers \<Rightarrow> sig_worker env ChainID b (k + 1) txs (TxHashes, TxSigners[k := signers], errs))"

definition sig_job :: "'tx chain_env \<Rightarrow> u8 \<Rightarrow> 'tx block \<Rightarrow> nat \<Rightarrow> nat \<Rightarrow> sig_state \<Rightarrow> sig_state" where
  "sig_job env ChainID b unit i s =
     (case tx_slice (Transactions b) unit i of
        Inl e \<Rightarrow> s
      | Inr txs \<Rightarrow> sig_worker env ChainID b (i * unit) txs s)"

definition validateTransactionSignatures :: "'tx chain_env \<Rightarrow> ('tx, 's) chain \<Rightarrow> 'tx block \<Rightarrow> public_hash list list res" where
  "validateTransactionSignatures env cn b =
     (let n = length (Transactions b); cpus = cpuCnt env n; unit = txUnit n cpus in
      if cpus = 0 then Inl Panic
      else if length (TransactionSignatures b) < n then Inl Panic
      else if \<exists>i < cpus. tx_slice (Transactions b) unit i = Inl Panic then Inl Panic
      else
        let s0 = (bh_PrevHash (blk_Header b) # replicate n EmptyHash, replicate n [], []);
            (TxHashes, TxSigners, errs) = fold (sig_job env (chainID (cn_store cn)) b unit) (ce_sched env cpus) s0
        in if Panic \<in> set errs then Inl Panic
           else case errs of
               e # _ \<Rightarrow> Inl e
             | [] \<Rightarrow> bind_res (BuildLevelRoot (ce_sha env) (ce_sched env) TxHashes) (\<lambda>h.
                       if bh_LevelRootHash (blk_Header b) \<noteq> h then Inl ErrInvalidLevelRootHash else Inr TxSigners))"

section \<open>Executing a block\<close>

text \<open>Handling an error value; a panic is not handled.\<close>

definition ctry :: "'a cm \<Rightarrow> (error \<Rightarrow> 'b cm) \<Rightarrow> ('a \<Rightarrow> 'b cm) \<Rightarrow> 'b cm" where
  "ctry m h k ctx =
     (case m ctx of
        (Inl e, ctx') \<Rightarrow> if e = Panic then (Inl Panic, ctx') else h e ctx'
      | (Inr a, ctx') \<Rightarrow> k a ctx')"

definition revert_fail :: "nat \<Rightarrow> error \<Rightarrow> 'a cm" where
  "revert_fail sn e = cbind (ctx_Revert sn) (\<lambda>_. cfail e)"

text \<open>The end of every transaction: the generator must still have its account, then the snapshot is committed.\<close>

definition commit_tx :: "address \<Rightarrow> nat \<Rightarrow> unit cm" where
  "commit_tx Generator sn =
     ctry (ctx_HasAccount Generator)
       (\<lambda>e. revert_fail sn (if e = ErrDeletedAccount then ErrCannotDeleteGeneratorAccount else e))
       (\<lambda>Has. if \<not> Has then revert_fail sn ErrCannotDeleteGeneratorAccount else ctx_Commit sn)"

text \<open>
  One transaction. \<open>executeBlockOnContext\<close> and \<open>UnsafeAddTx\<close> have this text in common; they differ in what they do
  with the result of an account transaction (\<open>check\<close>). A wrong sequence reverts and returns the error variable of
  \<open>cn.Process\<close>, which is nil there: the value is \<open>None\<close>. An account transaction that fails to execute is kept with
  result 0.
\<close>

definition run_tx :: "'tx chain_env \<Rightarrow> 'tx process \<Rightarrow> u8 \<Rightarrow> address \<Rightarrow> 'tx \<Rightarrow> public_hash list \<Rightarrow> nat \<Rightarrow> (u8 \<Rightarrow> unit cm) \<Rightarrow> u8 option cm" where
  "run_tx env p pid Generator tx signers i check =
     cbind ctx_Snapshot (\<lambda>sn.
     ctry (ce_Validate env tx p pid signers) (revert_fail sn) (\<lambda>_.
     case ce_Account env tx of
       Some (From, Seq) \<Rightarrow>
         cbind (ctx_Seq From) (\<lambda>seq.
         if Seq \<noteq> seq + 1 then cbind (ctx_Revert sn) (\<lambda>_. cret None)
         else
           cbind (ctx_AddSeq From) (\<lambda>_.
           cbind (ctry (ce_Execute env tx p pid (word_of_nat i)) (\<lambda>_. cret 0) (\<lambda>_. cret 1)) (\<lambda>Result.
           cbind (check Result) (\<lambda>_.
           cbind (commit_tx Generator sn) (\<lambda>_. cret (Some Result))))))
     | None \<Rightarrow>
         ctry (ce_Execute env tx p pid (word_of_nat i)) (revert_fail sn) (\<lambda>_.
         cbind (commit_tx Generator sn) (\<lambda>_. cret (Some 0)))))"

text \<open>\<open>uint8(t >> 8)\<close>\<close>

definition pid_of :: "u16 \<Rightarrow> u8" where "pid_of t = ucast (drop_bit 8 t)"

definition check_result :: "'tx block \<Rightarrow> nat \<Rightarrow> u8 \<Rightarrow> unit cm" where
  "check_result b i Result =
     (if length (TransactionResults b) \<le> i then cfail Panic
      else if Result \<noteq> TransactionResults b ! i then cfail ErrInvalidResult else cret ())"

text \<open>The loop over the transactions from index \<open>i\<close>; \<^const>\<open>False\<close> when it was left by the return of a nil error.\<close>

fun exec_txs :: "'tx chain_env \<Rightarrow> ('tx, 's) chain \<Rightarrow> 'tx block \<Rightarrow> public_hash list list \<Rightarrow> nat \<Rightarrow> 'tx list \<Rightarrow> bool cm" where
  "exec_txs env cn b TxSigners i [] = cret True"
| "exec_txs env cn b TxSigners i (tx # txs) =
     (let pid = pid_of (TransactionTypes b ! i) in
      cbind (clift (Process cn pid)) (\<lambda>p.
      cbind (run_tx env p pid (bh_Generator (blk_Header b)) tx (TxSigners ! i) i (check_result b i)) (\<lambda>r.
      case r of None \<Rightarrow> cret False | Some _ \<Rightarrow> exec_txs env cn b TxSigners (i + 1) txs)))"

definition executeBlockOnContext :: "'tx chain_env \<Rightarrow> ('tx, 's) chain \<Rightarrow> 'tx block \<Rightarrow> unit cm" where
  "executeBlockOnContext env cn b =
     cbind (clift (validateTransactionSignatures env cn b)) (\<lambda>TxSigners.
     cbind (run_hooks cn p_Before) (\<lambda>_.
     cbind (exec_txs env cn b TxSigners 0 (Transactions b)) (\<lambda>finished.
     if \<not> finished then cret ()
     else cbind check_stack (\<lambda>_. run_hooks cn (\<lambda>p. p_After p b)))))"

section \<open>Connecting a block\<close>

definition validateHeader :: "'tx chain_env \<Rightarrow> ('tx, 's) chain \<Rightarrow> header \<Rightarrow> unit res" where
  "validateHeader env cn bh =
     (let c = ce_codec env; w = ce_wire env; st = cn_store cn in
      bind_res (store_LastStatus c w st) (\<lambda>(height, lastHash, lastTimestamp).
      if bh_ChainID bh \<noteq> chainID st then Inl ErrInvalidChainID
      else if st_version st < bh_Version bh then Inl ErrInvalidVersion
      else if bh_PrevHash bh \<noteq> lastHash then Inl ErrInvalidPrevHash
      else if bh_Timestamp bh \<le> lastTimestamp then Inl ErrInvalidTimestamp
      else if bh_Generator bh = NewAddress 0 0 0 then Inl ErrInvalidGenerator
      else if bh_Height bh \<noteq> height + 1 then Inl ErrInvalidHeight
      else if bh_Height bh = 1 then (if bh_Version bh \<le> 0 then Inl ErrInvalidVersion else Inr ())
      else
        bind_res (store_Header c w height st) (\<lambda>TargetHeader.
        if bh_Version bh < bh_Version TargetHeader then Inl ErrInvalidVersion
        else if bh_ChainID bh \<noteq> bh_ChainID TargetHeader then Inl ErrInvalidChainID
        else Inr ())))"

text \<open>\<open>now\<close> is the clock that the block log reads when it decides to sync.\<close>

definition connectBlockWithContext ::
    "'tx chain_env \<Rightarrow> int \<Rightarrow> 'tx block \<Rightarrow> ctx \<Rightarrow> ('tx, 's) chain \<Rightarrow> unit res \<times> ctx \<times> ('tx, 's) chain" where
  "connectBlockWithContext env now b ctx cn =
     (case hash_ctx env ctx of
        (Inl e, ctx) \<Rightarrow> (Inl e, ctx, cn)
      | (Inr h, ctx) \<Rightarrow>
          if bh_ContextHash (blk_Header b) \<noteq> h then (Inl ErrInvalidContextHash, ctx, cn)
          else case cbind check_stack (\<lambda>_. run_hooks cn (\<lambda>p. p_OnSave p b)) ctx of
              (Inl e, ctx) \<Rightarrow> (Inl e, ctx, cn)
            | (Inr _, ctx) \<Rightarrow>
                (case cs_OnSaveData (cn_consensus cn) b (ctx, cn_state cn) of
                   (Inl e, ctx, s) \<Rightarrow> (Inl e, ctx, cn\<lparr>cn_state := s\<rparr>)
                 | (Inr _, ctx, s) \<Rightarrow>
                     if 1 < ctx_StackSize ctx then (Inl ErrDirtyContext, ctx, cn\<lparr>cn_state := s\<rparr>)
                     else if ctx_stack ctx = [] then (Inl Panic, ctx, cn\<lparr>cn_state := s\<rparr>)
                     else
                       let tp = hd (ctx_stack ctx) in
                       case StoreBlock (ce_codec env) (ce_wire env) (ce_orders env tp) now b tp (cn_store cn) of
                         (Inl e, st) \<Rightarrow> (Inl e, ctx, cn\<lparr>cn_state := s, cn_store := st\<rparr>)
                       | (Inr _, st) \<Rightarrow>
                           (Inr (), ctx, cn\<lparr>cn_store := st, cn_state := fold (\<lambda>sv. sv_OnBlockConnected sv b (Events tp) ctx) (services cn) s\<rparr>)))"

definition ConnectBlock :: "'tx chain_env \<Rightarrow> int \<Rightarrow> 'tx block \<Rightarrow> ('tx, 's) chain \<Rightarrow> unit res \<times> ('tx, 's) chain" where
  "ConnectBlock env now b cn =
     (if cn_isClose cn then (Inl ErrChainClosed, cn)
      else case validateHeader env cn (blk_Header b) of
          Inl e \<Rightarrow> (Inl e, cn)
        | Inr _ \<Rightarrow>
            (case cs_ValidateSignature (cn_consensus cn) (blk_Header b) (Signatures b) (cn_state cn) of
               Inl e \<Rightarrow> (Inl e, cn)
             | Inr _ \<Rightarrow>
                 (case executeBlockOnContext env cn b (NewContext (cn_loader env cn)) of
                    (Inl e, _) \<Rightarrow> (Inl e, cn)
                  | (Inr _, ctx) \<Rightarrow> (case connectBlockWithContext env now b ctx cn of (r, _, cn) \<Rightarrow> (r, cn)))))"

section \<open>Loading the chain\<close>

definition genesis_Hash :: "'tx chain_env \<Rightarrow> ('tx, 's) chain \<Rightarrow> hash256 \<Rightarrow> hash256 res" where
  "genesis_Hash env cn h =
     Hashes (ce_sha env) [Hash (ce_sha env) (string_bytes (st_name (cn_store cn))), Hash (ce_sha env) [chainID (cn_store cn)], h]"

text \<open>
  \<open>Init\<close>. The \<open>Init\<close> of a process registers its types under its id and looks up the processes it uses by name.
\<close>

fun first_err :: "unit res list \<Rightarrow> unit res" where
  "first_err [] = Inr ()"
| "first_err (r # rs) = bind_res r (\<lambda>_. first_err rs)"

definition init_processes :: "('tx, 's) chain \<Rightarrow> unit res" where
  "init_processes cn =
     (let pm = (\<lambda>name. bind_res (ProcessByName cn name) (\<lambda>p. Inr (p_ID p)))
      in first_err (map (\<lambda>(i, p). p_Init p (IDMap cn i) pm) (enumerate 0 (processes cn)) @ [p_Init (cn_app cn) 255 pm]))"

definition init_genesis :: "('tx, 's) chain \<Rightarrow> 's \<Rightarrow> ctx res \<times> 's" where
  "init_genesis cn s =
     (case p_InitGenesis (cn_app cn) 255 (NewContext emptyLoader) of
        (Inl e, _) \<Rightarrow> (Inl e, s)
      | (Inr _, gctx) \<Rightarrow>
          (case cs_InitGenesis (cn_consensus cn) (gctx, s) of
             (Inl e, _, s) \<Rightarrow> (Inl e, s)
           | (Inr _, gctx, s) \<Rightarrow> if 1 < ctx_StackSize gctx then (Inl ErrDirtyContext, s) else (Inr gctx, s)))"

definition chain_Init :: "'tx chain_env \<Rightarrow> ('tx, 's) chain \<Rightarrow> unit res \<times> ('tx, 's) chain" where
  "chain_Init env cn =
     (case (case init_processes cn of
              Inl e \<Rightarrow> (Inl e, cn_state cn)
            | Inr _ \<Rightarrow> run_all (cs_Init (cn_consensus cn) # map sv_Init (services cn)) (cn_state cn)) of
        (Inl e, s) \<Rightarrow> (Inl e, cn\<lparr>cn_state := s\<rparr>)
      | (Inr _, s) \<Rightarrow>
          case init_genesis cn s of
            (Inl e, s) \<Rightarrow> (Inl e, cn\<lparr>cn_state := s\<rparr>)
          | (Inr gctx, s) \<Rightarrow>
              let cn = cn\<lparr>cn_state := s\<rparr> in
              (case (case hash_ctx env gctx of (Inl e, _) \<Rightarrow> Inl e | (Inr h, _) \<Rightarrow> genesis_Hash env cn h) of
                 Inl e \<Rightarrow> (Inl e, cn)
               | Inr GenesisHash \<Rightarrow>
                   (case (if 0 < store_Height (cn_store cn) then
                            (case store_Hash 0 (cn_store cn) of
                               Inl e \<Rightarrow> (Inl e, cn_store cn)
                             | Inr h \<Rightarrow> if GenesisHash \<noteq> h then (Inl ErrInvalidGenesisHash, cn_store cn) else (Inr (), cn_store cn))
                          else
                            let tp = hd (ctx_stack gctx)
                            in StoreGenesis (ce_codec env) (ce_orders env tp) GenesisHash tp (cn_store cn)) of
                      (Inl e, st) \<Rightarrow> (Inl e, cn\<lparr>cn_store := st\<rparr>)
                    | (Inr _, st) \<Rightarrow>
                        let cn = cn\<lparr>cn_store := st\<rparr> in
                        (case run_all (hooks cn p_OnLoadChain) (NewContext (cn_loader env cn)) of
                           (Inl e, _) \<Rightarrow> (Inl e, cn)
                         | (Inr _, ctx) \<Rightarrow>
                             (case run_all (cs_OnLoadChain (cn_consensus cn) ctx # map (\<lambda>sv. sv_OnLoadChain sv ctx) (services cn)) (cn_state cn) of
                                (Inl e, s) \<Rightarrow> (Inl e, cn\<lparr>cn_state := s\<rparr>)
                              | (Inr _, s) \<Rightarrow> (Inr (), cn\<lparr>cn_state := s, cn_isInit := True\<rparr>))))))"

section \<open>Creating a block\<close>

record 'tx creator =
  bc_ctx :: ctx
  bc_txHashes :: "hash256 list"
  bc_b :: "'tx block"

definition NewBlockCreator :: "ctx \<Rightarrow> address \<Rightarrow> bytes \<Rightarrow> 'tx creator" where
  "NewBlockCreator ctx Generator ConsensusData =
     \<lparr>bc_ctx = ctx, bc_txHashes = [genLastHash ctx],
      bc_b = \<lparr>blk_Header = \<lparr>bh_ChainID = ld_ChainID (ctx_loader ctx), bh_Version = ld_Version (ctx_loader ctx),
                 bh_Height = genTargetHeight ctx, bh_PrevHash = genLastHash ctx, bh_LevelRootHash = EmptyHash,
                 bh_ContextHash = EmptyHash, bh_Timestamp = 0, bh_Generator = Generator, bh_ConsensusData = ConsensusData\<rparr>,
               TransactionTypes = [], Transactions = [], TransactionSignatures = [], TransactionResults = [], Signatures = []\<rparr>\<rparr>"

definition creator_Init :: "('tx, 's) chain \<Rightarrow> 'tx creator \<Rightarrow> unit res \<times> 'tx creator" where
  "creator_Init cn bc = (case run_hooks cn p_Before (bc_ctx bc) of (r, ctx) \<Rightarrow> (r, bc\<lparr>bc_ctx := ctx\<rparr>))"

definition append_tx :: "u16 \<Rightarrow> 'tx \<Rightarrow> signature list \<Rightarrow> u8 \<Rightarrow> 'tx block \<Rightarrow> 'tx block" where
  "append_tx t tx sigs Result b =
     b\<lparr>TransactionTypes := TransactionTypes b @ [t], Transactions := Transactions b @ [tx],
       TransactionSignatures := TransactionSignatures b @ [sigs], TransactionResults := TransactionResults b @ [Result]\<rparr>"

definition UnsafeAddTx :: "'tx chain_env \<Rightarrow> ('tx, 's) chain \<Rightarrow> address \<Rightarrow> u16 \<Rightarrow> hash256 \<Rightarrow> 'tx \<Rightarrow> signature list \<Rightarrow> public_hash list
    \<Rightarrow> 'tx creator \<Rightarrow> unit res \<times> 'tx creator" where
  "UnsafeAddTx env cn Generator t TxHash tx sigs signers bc =
     (let pid = pid_of t in
      case Process cn pid of
        Inl e \<Rightarrow> (Inl e, bc)
      | Inr p \<Rightarrow>
          (case run_tx env p pid Generator tx signers (length (Transactions (bc_b bc))) (\<lambda>_. cret ()) (bc_ctx bc) of
             (Inl e, ctx) \<Rightarrow> (Inl e, bc\<lparr>bc_ctx := ctx\<rparr>)
           | (Inr None, ctx) \<Rightarrow> (Inr (), bc\<lparr>bc_ctx := ctx\<rparr>)
           | (Inr (Some Result), ctx) \<Rightarrow>
               (Inr (), bc\<lparr>bc_ctx := ctx, bc_b := append_tx t tx sigs Result (bc_b bc), bc_txHashes := bc_txHashes bc @ [TxHash]\<rparr>)))"

definition AddTx :: "'tx chain_env \<Rightarrow> ('tx, 's) chain \<Rightarrow> address \<Rightarrow> 'tx \<Rightarrow> signature list \<Rightarrow> 'tx creator \<Rightarrow> unit res \<times> 'tx creator" where
  "AddTx env cn Generator tx sigs bc =
     (case ce_TypeOf env tx of
        Inl e \<Rightarrow> (Inl e, bc)
      | Inr t \<Rightarrow>
          let TxHash = HashTransactionByType env (chainID (cn_store cn)) t tx in
          (case recover_signers env TxHash sigs of
             Inl e \<Rightarrow> (Inl e, bc)
           | Inr signers \<Rightarrow> UnsafeAddTx env cn Generator t TxHash tx sigs signers bc))"

definition Finalize :: "'tx chain_env \<Rightarrow> ('tx, 's) chain \<Rightarrow> u64 \<Rightarrow> 'tx creator \<Rightarrow> 'tx block res \<times> 'tx creator" where
  "Finalize env cn Timestamp bc =
     (case BuildLevelRoot (ce_sha env) (ce_sched env) (bc_txHashes bc) of
        Inl e \<Rightarrow> (Inl e, bc)
      | Inr LevelRootHash \<Rightarrow>
          let b = (bc_b bc)\<lparr>blk_Header := (blk_Header (bc_b bc))\<lparr>bh_LevelRootHash := LevelRootHash\<rparr>\<rparr> in
          (case cbind check_stack (\<lambda>_. run_hooks cn (\<lambda>p. p_After p b)) (bc_ctx bc) of
             (Inl e, ctx) \<Rightarrow> (Inl e, bc\<lparr>bc_ctx := ctx, bc_b := b\<rparr>)
           | (Inr _, ctx) \<Rightarrow>
               (case hash_ctx env ctx of
                  (Inl e, ctx) \<Rightarrow> (Inl e, bc\<lparr>bc_ctx := ctx, bc_b := b\<rparr>)
                | (Inr h, ctx) \<Rightarrow>
                    let b = b\<lparr>blk_Header := (blk_Header b)\<lparr>bh_Timestamp := Timestamp, bh_ContextHash := h\<rparr>\<rparr>
                    in (Inr b, bc\<lparr>bc_ctx := ctx, bc_b := b\<rparr>))))"

end
