(* ===== verification/Chain_Sigs.thy ===== *)
theory Chain_Sigs
  imports Chain Store_Laws
begin

text \<open>
  The concurrent check of the signatures of a block does what checking one transaction after the other does, for
  every order in which the goroutines finish, as long as the slices are in range; and when they are.
\<close>

section \<open>Slices\<close>

lemma last_slice_starts:
  assumes "0 < c" "c = 1 \<or> c \<le> 32 \<and> 1000 \<le> n"
  shows "(c - 1) * txUnit n c \<le> n" "n \<le> c * txUnit n c"
proof -
  show le: "n \<le> c * txUnit n c"
  proof (cases "n mod c = 0")
    case False
    have "c * (n div c) + n mod c = n" by simp
    moreover have "c * txUnit n c = c * (n div c) + c" using False by (simp add: txUnit_def)
    ultimately show ?thesis using mod_less_divisor [OF assms(1), of n] by linarith
  qed (use mult_div_mod_eq [of c n] in \<open>simp add: txUnit_def\<close>)
  show "(c - 1) * txUnit n c \<le> n"
  proof (cases "c = 1")
    case False
    then have c: "c \<le> 32" "1000 \<le> n" using assms by auto
    have "txUnit n c \<le> n div c + 1" by (simp add: txUnit_def)
    then have "(c - 1) * txUnit n c \<le> (c - 1) * (n div c) + (c - 1)" by (metis add_mult_distrib2 mult_le_mono2 nat_mult_1_right)
    moreover have "c * (n div c) \<le> n" by simp
    moreover have "c - 1 \<le> n div c"
    proof -
      have "31 \<le> n div 32" using div_le_mono [OF c(2), of 32] by simp
      also have "\<dots> \<le> n div c" using c(1) assms(1) by (intro div_le_mono2) auto
      finally show ?thesis using c(1) by simp
    qed
    moreover have "(c - 1) * (n div c) + n div c = c * (n div c)" using assms(1) by (metis Suc_diff_1 mult_Suc add.commute)
    ultimately show ?thesis by linarith
  qed simp
qed

lemma slice_in_range:
  assumes "0 < c" "c = 1 \<or> c \<le> 32 \<and> 1000 \<le> length txs" "i < c"
  shows "tx_slice txs (txUnit (length txs) c) i =
     Inr (map (nth txs) [i * txUnit (length txs) c..<min (length txs) ((i + 1) * txUnit (length txs) c)])"
proof -
  let ?u = "txUnit (length txs) c"
  have "i * ?u \<le> (c - 1) * ?u" using assms(3) by (intro mult_le_mono) auto
  then have lo: "i * ?u \<le> length txs" using last_slice_starts(1) [OF assms(1,2)] by linarith
  have hi: "lastCnt (length txs) ?u i = min (length txs) ((i + 1) * ?u)" by (simp add: lastCnt_def min_def)
  have cut: "take (m - k) (drop k xs) = map (nth xs) [k..<m]" if "k \<le> m" "m \<le> length xs" for k m and xs :: "'x list"
    using that by (intro nth_equalityI) auto
  have mid: "i * ?u \<le> min (length txs) ((i + 1) * ?u)" using lo by simp
  show ?thesis unfolding tx_slice_def Let_def hi slice_def if_not_P [OF mid [folded not_less]]
    by (subst cut [OF mid]) simp_all
qed

section \<open>One goroutine\<close>

definition tx_hash_at :: "'tx chain_env \<Rightarrow> u8 \<Rightarrow> 'tx block \<Rightarrow> nat \<Rightarrow> hash256" where
  "tx_hash_at env ChainID b k = HashTransactionByType env ChainID (TransactionTypes b ! k) (Transactions b ! k)"

definition signers_at :: "'tx chain_env \<Rightarrow> u8 \<Rightarrow> 'tx block \<Rightarrow> nat \<Rightarrow> public_hash list res" where
  "signers_at env ChainID b k = recover_signers env (tx_hash_at env ChainID b k) (TransactionSignatures b ! k)"

definition the_signers :: "'tx chain_env \<Rightarrow> u8 \<Rightarrow> 'tx block \<Rightarrow> nat \<Rightarrow> public_hash list" where
  "the_signers env ChainID b k = (case signers_at env ChainID b k of Inr s \<Rightarrow> s | Inl _ \<Rightarrow> [])"

definition sig_recovers :: "'tx chain_env \<Rightarrow> u8 \<Rightarrow> 'tx block \<Rightarrow> nat \<Rightarrow> bool" where
  "sig_recovers env ChainID b k \<longleftrightarrow> (\<exists>s. signers_at env ChainID b k = Inr s)"

definition put_range :: "nat \<Rightarrow> nat \<Rightarrow> (nat \<Rightarrow> 'a) \<Rightarrow> 'a list \<Rightarrow> 'a list" where
  "put_range k m g xs = map (\<lambda>i. if k \<le> i \<and> i < m then g i else xs ! i) [0..<length xs]"

lemma put_range_step: "k < m \<Longrightarrow> put_range (Suc k) m g (xs[k := g k]) = put_range k m g xs"
  by (auto intro!: nth_equalityI simp: put_range_def nth_list_update) (use le_antisym not_less_eq_eq in blast)

lemma put_range_none: "m \<le> k \<Longrightarrow> put_range k m g xs = xs"
  by (auto intro!: nth_equalityI simp: put_range_def)

lemma worker_ok:
  assumes "m \<le> length (TransactionTypes b)" "\<And>j. k \<le> j \<Longrightarrow> j < m \<Longrightarrow> sig_recovers env C b j"
  shows "sig_worker env C b k (map (nth (Transactions b)) [k..<m]) (P # TH, TS, errs) =
     (P # put_range k m (tx_hash_at env C b) TH, put_range k m (the_signers env C b) TS, errs)"
  using assms(2)
proof (induction "m - k" arbitrary: k TH TS)
  case (Suc d)
  then have k: "k < m" by simp
  obtain s where s: "signers_at env C b k = Inr s" using Suc.prems [of k] k by (auto simp: sig_recovers_def)
  have "sig_worker env C b (Suc k) (map (nth (Transactions b)) [Suc k..<m]) (P # TH[k := tx_hash_at env C b k], TS[k := the_signers env C b k], errs) =
     (P # put_range (Suc k) m (tx_hash_at env C b) (TH[k := tx_hash_at env C b k]), put_range (Suc k) m (the_signers env C b) (TS[k := the_signers env C b k]), errs)"
    by (rule Suc.hyps(1)) (use Suc.hyps(2) Suc.prems in auto)
  then show ?case using k assms(1) s by (simp add: upt_conv_Cons signers_at_def tx_hash_at_def the_signers_def Let_def put_range_step [symmetric])
qed (simp add: put_range_none)

lemma worker_err:
  assumes "m \<le> length (TransactionTypes b)" "k \<le> j" "j < m" "\<not> sig_recovers env C b j"
  shows "\<exists>S e i. sig_worker env C b k (map (nth (Transactions b)) [k..<m]) (TH, TS, errs) = (fst S, snd S, errs @ [e])
     \<and> i < m \<and> signers_at env C b i = Inl e"
  using assms(2)
proof (induction "m - k" arbitrary: k TH TS)
  case (Suc d)
  then have k: "k < m" by simp
  show ?case
  proof (cases "signers_at env C b k")
    case (Inl e)
    then show ?thesis using k assms(1) by (auto simp: upt_conv_Cons signers_at_def tx_hash_at_def Let_def)
  next
    case (Inr s)
    then have "Suc k \<le> j" using assms(4) Suc.prems by (metis Suc_leI le_eq_less_or_eq sig_recovers_def)
    moreover have "d = m - Suc k" using Suc.hyps(2) by simp
    ultimately obtain S e i where "sig_worker env C b (Suc k) (map (nth (Transactions b)) [Suc k..<m]) (TH[Suc k := tx_hash_at env C b k], TS[k := s], errs) = (fst S, snd S, errs @ [e])"
      "i < m" "signers_at env C b i = Inl e" using Suc.hyps(1) [of "Suc k" "TH[Suc k := tx_hash_at env C b k]" "TS[k := s]"] by blast
    then show ?thesis using k assms(1) Inr by (auto simp: upt_conv_Cons signers_at_def tx_hash_at_def Let_def)
  qed
qed (use assms in simp)

section \<open>All goroutines\<close>

definition in_slice :: "nat \<Rightarrow> nat set \<Rightarrow> nat \<Rightarrow> bool" where
  "in_slice u J k \<longleftrightarrow> (\<exists>i \<in> J. i * u \<le> k \<and> k < (i + 1) * u)"

definition after_jobs :: "'tx chain_env \<Rightarrow> u8 \<Rightarrow> 'tx block \<Rightarrow> nat \<Rightarrow> nat set \<Rightarrow> sig_state" where
  "after_jobs env C b u J =
     (bh_PrevHash (blk_Header b) # map (\<lambda>k. if in_slice u J k then tx_hash_at env C b k else EmptyHash) [0..<length (Transactions b)],
      map (\<lambda>k. if in_slice u J k then the_signers env C b k else []) [0..<length (Transactions b)], [])"

text \<open>The block has a type and a list of signatures for every transaction, and no processor count breaks the slices.\<close>

definition slices_ok :: "'tx chain_env \<Rightarrow> 'tx block \<Rightarrow> bool" where
  "slices_ok env b \<longleftrightarrow> 0 < ce_NumCPU env \<and> ce_NumCPU env \<le> 16 \<and> schedule (ce_sched env)
     \<and> length (Transactions b) \<le> length (TransactionTypes b) \<and> length (Transactions b) \<le> length (TransactionSignatures b)"

lemma cpus_ok:
  assumes "slices_ok env b"
  shows "0 < cpuCnt env (length (Transactions b))"
    "cpuCnt env (length (Transactions b)) = 1 \<or> cpuCnt env (length (Transactions b)) \<le> 32 \<and> 1000 \<le> length (Transactions b)"
  using assms by (auto simp: cpuCnt_def slices_ok_def)

lemma job_ok:
  assumes "slices_ok env b" "\<forall>k < length (Transactions b). sig_recovers env C b k" "i < cpuCnt env (length (Transactions b))"
  defines "u \<equiv> txUnit (length (Transactions b)) (cpuCnt env (length (Transactions b)))"
  shows "sig_job env C b u i (after_jobs env C b u J) = after_jobs env C b u (insert i J)"
proof -
  let ?n = "length (Transactions b)"
  let ?m = "min ?n ((i + 1) * u)"
  have sl: "tx_slice (Transactions b) u i = Inr (map (nth (Transactions b)) [i * u..<?m])"
    unfolding u_def by (rule slice_in_range [OF cpus_ok [OF assms(1)] assms(3)])
  have m: "?m \<le> length (TransactionTypes b)" using assms(1) by (simp add: slices_ok_def min.coboundedI1)
  have put: "put_range (i * u) ?m g (map (\<lambda>k. if in_slice u J k then g k else z) [0..<?n]) = map (\<lambda>k. if in_slice u (insert i J) k then g k else z) [0..<?n]"
    for g :: "nat \<Rightarrow> 'z" and z
    by (auto intro!: nth_equalityI simp: put_range_def in_slice_def)
  have w: "sig_worker env C b (i * u) (map (nth (Transactions b)) [i * u..<?m]) (P # TH, TS, errs) =
     (P # put_range (i * u) ?m (tx_hash_at env C b) TH, put_range (i * u) ?m (the_signers env C b) TS, errs)" for P TH TS errs
    by (rule worker_ok [OF m]) (use assms(2) in auto)
  show ?thesis unfolding sig_job_def sl after_jobs_def sum.case w put by (rule refl)
qed

lemma jobs_ok:
  assumes "slices_ok env b" "\<forall>k < length (Transactions b). sig_recovers env C b k" "set js \<subseteq> {..<cpuCnt env (length (Transactions b))}"
  defines "u \<equiv> txUnit (length (Transactions b)) (cpuCnt env (length (Transactions b)))"
  shows "fold (sig_job env C b u) js (after_jobs env C b u J) = after_jobs env C b u (set js \<union> J)"
  using assms(3)
proof (induction js arbitrary: J)
  case (Cons i js)
  then show ?case using job_ok [OF assms(1,2), of i J] by (simp add: u_def)
qed simp

lemma all_slices:
  assumes "slices_ok env b" "k < length (Transactions b)"
  defines "c \<equiv> cpuCnt env (length (Transactions b))"
  shows "in_slice (txUnit (length (Transactions b)) c) {..<c} k"
proof -
  let ?u = "txUnit (length (Transactions b)) c"
  have le: "length (Transactions b) \<le> c * ?u" using last_slice_starts(2) [OF cpus_ok [OF assms(1)]] by (simp add: c_def)
  then have u: "0 < ?u" using assms(2) by (cases "?u") auto
  have "k div ?u \<in> {..<c}" using le assms(2) u by (simp add: div_less_iff_less_mult)
  moreover have "k div ?u * ?u \<le> k" by (simp add: div_times_less_eq_dividend)
  moreover have "k < (k div ?u + 1) * ?u" using dividend_less_div_times [OF u, of k] by (simp add: algebra_simps)
  ultimately show ?thesis unfolding in_slice_def by blast
qed

lemma worker_quiet:
  assumes "m \<le> length (TransactionTypes b)" "\<And>j. k \<le> j \<Longrightarrow> j < m \<Longrightarrow> sig_recovers env C b j"
  shows "snd (snd (sig_worker env C b k (map (nth (Transactions b)) [k..<m]) (TH, TS, errs))) = errs"
  using assms(2)
proof (induction "m - k" arbitrary: k TH TS)
  case (Suc d)
  then have k: "k < m" by simp
  obtain sg where "signers_at env C b k = Inr sg" using Suc.prems [of k] k by (auto simp: sig_recovers_def)
  moreover have "snd (snd (sig_worker env C b (Suc k) (map (nth (Transactions b)) [Suc k..<m]) (TH', TS', errs))) = errs" for TH' TS'
    by (rule Suc.hyps(1)) (use Suc.hyps(2) Suc.prems in auto)
  ultimately show ?case using k assms(1) by (simp add: upt_conv_Cons signers_at_def tx_hash_at_def Let_def)
qed simp

lemma job_errs:
  assumes "slices_ok env b" "i < cpuCnt env (length (Transactions b))"
  defines "u \<equiv> txUnit (length (Transactions b)) (cpuCnt env (length (Transactions b)))"
  shows "\<exists>more. snd (snd (sig_job env C b u i s)) = snd (snd s) @ more
     \<and> (\<forall>e \<in> set more. \<exists>j < length (Transactions b). signers_at env C b j = Inl e)
     \<and> ((\<exists>j < length (Transactions b). in_slice u {i} j \<and> \<not> sig_recovers env C b j) \<longrightarrow> more \<noteq> [])"
proof -
  let ?n = "length (Transactions b)"
  define m where "m = min ?n ((i + 1) * u)"
  obtain TH TS errs where s: "s = (TH, TS, errs)" by (rule prod_cases3)
  have sl: "tx_slice (Transactions b) u i = Inr (map (nth (Transactions b)) [i * u..<m])"
    unfolding u_def m_def by (rule slice_in_range [OF cpus_ok [OF assms(1)] assms(2)])
  have m: "m \<le> length (TransactionTypes b)" "m \<le> ?n" using assms(1) by (simp_all add: slices_ok_def m_def min.coboundedI1)
  have sub: "j < m" "i * u \<le> j" if "j < ?n" "in_slice u {i} j" for j using that by (auto simp: in_slice_def m_def)
  show ?thesis
  proof (cases "\<exists>j. i * u \<le> j \<and> j < m \<and> \<not> sig_recovers env C b j")
    case True
    then obtain S e k where "sig_worker env C b (i * u) (map (nth (Transactions b)) [i * u..<m]) s = (fst S, snd S, errs @ [e])" "k < m" "signers_at env C b k = Inl e"
      using worker_err [OF m(1), of "i * u" _ env C TH TS errs] s by metis
    moreover have "k < ?n" using calculation(2) m(2) by simp
    ultimately show ?thesis by (intro exI [of _ "[e]"]) (auto simp: sig_job_def sl s)
  next
    case False
    have "snd (snd (sig_worker env C b (i * u) (map (nth (Transactions b)) [i * u..<m]) (TH, TS, errs))) = errs"
      by (rule worker_quiet [OF m(1)]) (use False in auto)
    then show ?thesis using False sub by (intro exI [of _ "[]"]) (auto simp: sig_job_def sl s)
  qed
qed

lemma jobs_errs:
  assumes "slices_ok env b" "set js \<subseteq> {..<cpuCnt env (length (Transactions b))}"
  defines "u \<equiv> txUnit (length (Transactions b)) (cpuCnt env (length (Transactions b)))"
  shows "\<exists>more. snd (snd (fold (sig_job env C b u) js s)) = snd (snd s) @ more
     \<and> (\<forall>e \<in> set more. \<exists>j < length (Transactions b). signers_at env C b j = Inl e)
     \<and> ((\<exists>j < length (Transactions b). in_slice u (set js) j \<and> \<not> sig_recovers env C b j) \<longrightarrow> more \<noteq> [])"
  using assms(2)
proof (induction js arbitrary: s)
  case (Cons i js)
  have i: "i < cpuCnt env (length (Transactions b))" and sub: "set js \<subseteq> {..<cpuCnt env (length (Transactions b))}" using Cons.prems by auto
  obtain m1 where m1: "snd (snd (sig_job env C b u i s)) = snd (snd s) @ m1"
    "\<forall>e \<in> set m1. \<exists>j < length (Transactions b). signers_at env C b j = Inl e"
    "(\<exists>j < length (Transactions b). in_slice u {i} j \<and> \<not> sig_recovers env C b j) \<longrightarrow> m1 \<noteq> []"
    using job_errs [OF assms(1) i, of C s, folded u_def] by blast
  obtain m2 where m2: "snd (snd (fold (sig_job env C b u) js (sig_job env C b u i s))) = snd (snd (sig_job env C b u i s)) @ m2"
    "\<forall>e \<in> set m2. \<exists>j < length (Transactions b). signers_at env C b j = Inl e"
    "(\<exists>j < length (Transactions b). in_slice u (set js) j \<and> \<not> sig_recovers env C b j) \<longrightarrow> m2 \<noteq> []"
    using Cons.IH [OF sub, of "sig_job env C b u i s"] by blast
  have "in_slice u (set (i # js)) j \<longleftrightarrow> in_slice u {i} j \<or> in_slice u (set js) j" for j by (auto simp: in_slice_def)
  then show ?case using m1 m2 by (intro exI [of _ "m1 @ m2"]) auto
qed (simp add: in_slice_def)

lemma sched_set: "slices_ok env b \<Longrightarrow> set (ce_sched env n) = {..<n}"
  by (simp add: slices_ok_def schedule_def)

lemma no_slice_panics:
  assumes "slices_ok env b"
  defines "c \<equiv> cpuCnt env (length (Transactions b))"
  shows "\<not> (\<exists>i < c. tx_slice (Transactions b) (txUnit (length (Transactions b)) c) i = Inl Panic)"
  using slice_in_range [OF cpus_ok [OF assms(1)]] by (auto simp: c_def)

lemma validate_run:
  fixes cn :: "('tx, 's) chain"
  assumes "slices_ok env b"
  defines "n \<equiv> length (Transactions b)" and "C \<equiv> chainID (cn_store cn)"
  defines "c \<equiv> cpuCnt env n"
  shows "validateTransactionSignatures env cn b =
      (case fold (sig_job env C b (txUnit n c)) (ce_sched env c) (after_jobs env C b (txUnit n c) {}) of (TxHashes, TxSigners, errs) \<Rightarrow>
         if Panic \<in> set errs then Inl Panic
         else case errs of e # _ \<Rightarrow> Inl e
           | [] \<Rightarrow> bind_res (BuildLevelRoot (ce_sha env) (ce_sched env) TxHashes) (\<lambda>h.
               if bh_LevelRootHash (blk_Header b) \<noteq> h then Inl ErrInvalidLevelRootHash else Inr TxSigners))"
proof -
  have len: "\<not> length (TransactionSignatures b) < n" "c \<noteq> 0"
    using assms(1) cpus_ok(1) [OF assms(1)] by (simp_all add: slices_ok_def n_def c_def)
  have np: "\<not> (\<exists>i < c. tx_slice (Transactions b) (txUnit n c) i = Inl Panic)" using no_slice_panics [OF assms(1)] by (simp add: c_def n_def)
  have init: "(bh_PrevHash (blk_Header b) # replicate n EmptyHash, replicate n [], []) = after_jobs env C b (txUnit n c) {}"
    by (simp add: after_jobs_def in_slice_def n_def map_replicate_const)
  show ?thesis
    unfolding validateTransactionSignatures_def Let_def n_def [symmetric] c_def [symmetric] C_def [symmetric] init
    using len by (simp add: if_not_P [OF np])
qed

lemma validate_signed:
  fixes cn :: "('tx, 's) chain"
  assumes "slices_ok env b"
  defines "n \<equiv> length (Transactions b)" and "C \<equiv> chainID (cn_store cn)"
  assumes "\<forall>k < n. \<exists>s. signers_at env C b k = Inr s"
  shows "validateTransactionSignatures env cn b =
     bind_res (BuildLevelRoot (ce_sha env) (ce_sched env) (bh_PrevHash (blk_Header b) # map (tx_hash_at env C b) [0..<n])) (\<lambda>h.
       if bh_LevelRootHash (blk_Header b) \<noteq> h then Inl ErrInvalidLevelRootHash else Inr (map (the_signers env C b) [0..<n]))"
proof -
  define c where "c = cpuCnt env n"
  define u where "u = txUnit n c"
  have "fold (sig_job env C b u) (ce_sched env c) (after_jobs env C b u {}) = after_jobs env C b u {..<c}"
    using assms(4) jobs_ok [OF assms(1), of C "ce_sched env c" "{}"] sched_set [OF assms(1), of c] by (simp add: sig_recovers_def n_def c_def u_def)
  moreover have "after_jobs env C b u {..<c} = (bh_PrevHash (blk_Header b) # map (tx_hash_at env C b) [0..<n], map (the_signers env C b) [0..<n], [])"
    using all_slices [OF assms(1)] by (simp add: after_jobs_def n_def c_def u_def)
  ultimately show ?thesis
    unfolding validate_run [OF assms(1)] n_def [symmetric] C_def [symmetric] c_def [symmetric] u_def [symmetric] by simp
qed

lemma validate_unsigned:
  fixes cn :: "('tx, 's) chain"
  assumes "slices_ok env b" "\<And>h sig. ce_Recover env h sig \<noteq> Inl Panic"
  defines "n \<equiv> length (Transactions b)" and "C \<equiv> chainID (cn_store cn)"
  assumes "k < n" "signers_at env C b k = Inl e"
  shows "\<exists>j e'. j < n \<and> signers_at env C b j = Inl e' \<and> validateTransactionSignatures env cn b = Inl e'"
proof -
  define c where "c = cpuCnt env n"
  define u where "u = txUnit n c"
  have js: "set (ce_sched env c) \<subseteq> {..<c}" using sched_set [OF assms(1)] by simp
  obtain TH TS errs where out: "fold (sig_job env C b u) (ce_sched env c) (after_jobs env C b u {}) = (TH, TS, errs)" by (rule prod_cases3)
  have "in_slice u (set (ce_sched env c)) k" using all_slices [OF assms(1)] assms(5) sched_set [OF assms(1)] by (simp add: n_def c_def u_def)
  then have "errs \<noteq> []" and er: "\<forall>e \<in> set errs. \<exists>j < n. signers_at env C b j = Inl e"
    using jobs_errs [OF assms(1) js [unfolded c_def n_def], of C "after_jobs env C b u {}"] out assms(5,6)
    by (auto simp: u_def c_def n_def after_jobs_def sig_recovers_def)
  then obtain e' es where es: "errs = e' # es" by (cases errs) auto
  have "recover_signers env h sigs \<noteq> Inl Panic" for h sigs using assms(2) by (induction sigs) (auto simp: res_simps)
  then have "Panic \<notin> set errs" using er by (force simp: signers_at_def)
  then show ?thesis using er es out
    unfolding validate_run [OF assms(1)] n_def [symmetric] C_def [symmetric] c_def [symmetric] u_def [symmetric] by auto
qed

text \<open>
  C16. The signatures of a block are checked as if one after the other. With at most 16 processors, and for every
  order in which the goroutines finish: if the signers of every transaction can be recovered, the result is the
  list of the signers of the transactions, provided that the level root over the previous hash and the transaction
  hashes is the one of the header; and if some signature is invalid, the result is the error of one of the invalid
  signatures.
\<close>

theorem signatures_sequential:
  fixes cn :: "('tx, 's) chain"
  assumes "slices_ok env b" and "\<And>h sig. ce_Recover env h sig \<noteq> Inl Panic"
  defines "n \<equiv> length (Transactions b)" and "C \<equiv> chainID (cn_store cn)"
  shows "((\<forall>k < n. \<exists>s. signers_at env C b k = Inr s) \<longrightarrow>
       validateTransactionSignatures env cn b =
         bind_res (BuildLevelRoot (ce_sha env) (ce_sched env) (bh_PrevHash (blk_Header b) # map (tx_hash_at env C b) [0..<n])) (\<lambda>h.
           if bh_LevelRootHash (blk_Header b) \<noteq> h then Inl ErrInvalidLevelRootHash else Inr (map (the_signers env C b) [0..<n])))
    \<and> (\<forall>k e. k < n \<and> signers_at env C b k = Inl e \<longrightarrow>
       (\<exists>j e'. j < n \<and> signers_at env C b j = Inl e' \<and> validateTransactionSignatures env cn b = Inl e'))"
proof (intro conjI impI allI)
  assume "\<forall>k < n. \<exists>s. signers_at env C b k = Inr s"
  then show "validateTransactionSignatures env cn b =
         bind_res (BuildLevelRoot (ce_sha env) (ce_sched env) (bh_PrevHash (blk_Header b) # map (tx_hash_at env C b) [0..<n])) (\<lambda>h.
           if bh_LevelRootHash (blk_Header b) \<noteq> h then Inl ErrInvalidLevelRootHash else Inr (map (the_signers env C b) [0..<n]))"
    unfolding n_def C_def by (rule validate_signed [OF assms(1)])
next
  fix k e assume "k < n \<and> signers_at env C b k = Inl e"
  then show "\<exists>j e'. j < n \<and> signers_at env C b j = Inl e' \<and> validateTransactionSignatures env cn b = Inl e'"
    unfolding n_def C_def using validate_unsigned [OF assms(1,2)] by blast
qed

text \<open>
  C36. With 17 processors a block of 1021 transactions stops the node: the last of the 34 slices of 31 transactions
  starts behind the end of the list, and slicing there panics, whatever the transactions are.
\<close>

theorem signatures_panic:
  assumes "ce_NumCPU env = 17" "length (Transactions b) = 1021"
  shows "validateTransactionSignatures env cn b = Inl Panic"
proof -
  have "tx_slice (Transactions b) 31 33 = Inl Panic" by (simp add: tx_slice_def lastCnt_def assms(2))
  then show ?thesis using assms by (auto simp: validateTransactionSignatures_def cpuCnt_def txUnit_def Let_def)
qed

section \<open>A small chain\<close>

definition blank :: "'a item_codec" where
  "blank = \<lparr>it_enc = (\<lambda>_. Inr []), it_dec = (\<lambda>_. Inl Panic), it_json = (\<lambda>_. Inr [])\<rparr>"

definition prims0 :: prims where
  "prims0 = \<lparr>pr_Len = item0, pr_u8 = blank, pr_u16 = blank, pr_u32 = blank, pr_u64 = blank, pr_bool = blank, pr_string = blank,
     pr_key = blank, pr_bytes = blank, pr_Address = blank, pr_PublicHash = blank, pr_Amount = blank, pr_TxOut = blank, pr_UTXO = blank,
     pr_TypeOf = (\<lambda>_. Inr 1), pr_Account = (\<lambda>_. Inr []), pr_AccountOf = (\<lambda>_ _. Inl Panic), pr_AccountJSON = (\<lambda>_. Inr [])\<rparr>"

definition no_orders :: orders where
  "no_orders = \<lparr>o_Seq = [], o_Account = [], o_AccountName = [], o_AccountData = [], o_DeletedAccount = [], o_DeletedAccountData = [],
     o_UTXO = [], o_CreatedUTXO = [], o_DeletedUTXO = [], o_ProcessData = [], o_DeletedProcessData = []\<rparr>"

text \<open>One kind of transaction, which sets a process data; the signature \<open>[9]\<close> is invalid.\<close>

definition env0 :: "nat \<Rightarrow> unit chain_env" where
  "env0 cpus = \<lparr>ce_codec = codec0, ce_wire = wire0, ce_prims = prims0, ce_marshal = (\<lambda>_. Inr []), ce_orders = (\<lambda>_. no_orders),
     ce_Recover = (\<lambda>h sig. if sig = [9] then Inl ErrInvalidSignature else Inr sig), ce_TypeOf = (\<lambda>_. Inr 0x0101),
     ce_Account = (\<lambda>_. None), ce_Validate = (\<lambda>_ _ _ _. cret ()), ce_Execute = (\<lambda>_ _ pid i. ctx_SetProcessData pid [1] [ucast i + 1]),
     ce_NumCPU = cpus, ce_sched = (\<lambda>n. [0..<n])\<rparr>"

definition process0 :: "u8 \<Rightarrow> unit process" where
  "process0 pid = \<lparr>p_ID = pid, p_Name = ''p'', p_Init = (\<lambda>_ _. Inr ()), p_OnLoadChain = (\<lambda>_. cret ()), p_Before = (\<lambda>_. cret ()),
     p_After = (\<lambda>_ _. cret ()), p_OnSave = (\<lambda>_ _. cret ()), p_InitGenesis = (\<lambda>_. cret ())\<rparr>"

definition consensus0 :: "(unit, unit) consensus" where
  "consensus0 = \<lparr>cs_Init = Pair (Inr ()), cs_InitGenesis = Pair (Inr ()), cs_OnLoadChain = (\<lambda>_. Pair (Inr ())),
     cs_ValidateSignature = (\<lambda>_ _ _. Inr ()), cs_OnSaveData = (\<lambda>_. Pair (Inr ()))\<rparr>"

definition chain0 :: "(unit, unit) chain" where
  "chain0 = \<lparr>cn_isInit = True, cn_store = NewStore Map.empty None 1 ''test'' 1, cn_consensus = consensus0, cn_app = process0 255,
     processes = [process0 1], processIDMap = [''p'' \<mapsto> 1], processIndexMap = [1 \<mapsto> 0], services = [], serviceMap = Map.empty,
     cn_isClose = False, cn_state = ()\<rparr>"

definition block_of :: "signature list list \<Rightarrow> unit block" where
  "block_of sigs = \<lparr>blk_Header = header0, TransactionTypes = map (\<lambda>_. 0x0101) sigs, Transactions = map (\<lambda>_. ()) sigs,
     TransactionSignatures = sigs, TransactionResults = map (\<lambda>_. 0) sigs, Signatures = []\<rparr>"

lemma env0_slices: "0 < cpus \<Longrightarrow> cpus \<le> 16 \<Longrightarrow> slices_ok (env0 cpus) (block_of sigs)"
  by (auto simp: slices_ok_def env0_def block_of_def schedule_def)

theorem signatures_sequential_witness:
  "validateTransactionSignatures (env0 4) chain0 (block_of [[[1]], [[9]]]) = Inl ErrInvalidSignature"
proof -
  have at: "signers_at (env0 4) C (block_of [[[1]], [[9]]]) 0 = Inr [NewPublicHash (ce_sha (env0 4)) [1]]"
    "signers_at (env0 4) C (block_of [[[1]], [[9]]]) 1 = Inl ErrInvalidSignature" for C
    by (simp_all add: signers_at_def block_of_def env0_def)
  have rec: "ce_Recover (env0 4) h sig \<noteq> Inl Panic" for h sig by (simp add: env0_def)
  have sl: "slices_ok (env0 4) (block_of [[[1]], [[9]]])" by (simp add: env0_slices)
  have two: "length (Transactions (block_of [[[1]], [[9]]])) = 2" by (simp add: block_of_def)
  obtain j e where j: "j < 2" "signers_at (env0 4) (chainID (cn_store chain0)) (block_of [[[1]], [[9]]]) j = Inl e"
    "validateTransactionSignatures (env0 4) chain0 (block_of [[[1]], [[9]]]) = Inl e"
    using conjunct2 [OF signatures_sequential [OF sl rec, of chain0, unfolded two]] at(2) by (metis one_less_numeral_iff semiring_norm(76))
  then have "j = 1" using at(1) by (cases "j = 0") auto
  then show ?thesis using j at(2) by simp
qed

theorem signatures_panic_witness:
  "validateTransactionSignatures (env0 17) chain0 (block_of (replicate 1021 [])) = Inl Panic"
  by (rule signatures_panic) (simp_all add: env0_def block_of_def)

end
