(* ===== verification/Chain_Laws.thy ===== *)
theory Chain_Laws
  imports Chain_Sigs
begin

text \<open>
  Laws of the chain: the processes of a chain are found under their ids and names; the accepted blocks are linked;
  a transaction with a wrong sequence ends the execution of its block without an error.
\<close>

section \<open>Processes\<close>

definition chain_inv :: "('tx, 's) chain \<Rightarrow> bool" where
  "chain_inv cn \<longleftrightarrow>
     (\<forall>pid i. processIndexMap cn pid = Some i \<longleftrightarrow> i < length (processes cn) \<and> p_ID (processes cn ! i) = pid)
     \<and> (\<forall>name pid. processIDMap cn name = Some pid \<longleftrightarrow> (\<exists>p \<in> set (processes cn). p_Name p = name \<and> p_ID p = pid))
     \<and> (\<forall>p \<in> set (processes cn). p_ID p \<noteq> 0 \<and> p_ID p \<noteq> 255)"

lemma chain_invD:
  assumes "chain_inv cn"
  shows "processIndexMap cn pid = Some i \<longleftrightarrow> i < length (processes cn) \<and> p_ID (processes cn ! i) = pid"
    "processIDMap cn name = Some pid \<longleftrightarrow> (\<exists>p \<in> set (processes cn). p_Name p = name \<and> p_ID p = pid)"
    "p \<in> set (processes cn) \<Longrightarrow> p_ID p \<noteq> 0 \<and> p_ID p \<noteq> 255"
  using assms unfolding chain_inv_def by blast+

lemma NewChain_inv: "NewChain cs app st s = Inr cn \<Longrightarrow> chain_inv cn \<and> processes cn = [] \<and> cn_app cn = app"
  by (auto simp: NewChain_def chain_inv_def split: if_splits)

lemma MustAddProcess_inv:
  assumes "chain_inv cn" "MustAddProcess p cn = Inr cn'"
  shows "chain_inv cn' \<and> processes cn' = processes cn @ [p] \<and> cn_app cn' = cn_app cn"
proof -
  have new: "processIDMap cn (p_Name p) = None" "processIndexMap cn (p_ID p) = None" "p_ID p \<noteq> 0" "p_ID p \<noteq> 255"
    and cn': "cn' = cn\<lparr>processes := processes cn @ [p], processIDMap := (processIDMap cn)(p_Name p \<mapsto> p_ID p),
                   processIndexMap := (processIndexMap cn)(p_ID p \<mapsto> length (processes cn))\<rparr>"
    using assms(2) by (auto simp: MustAddProcess_def split: if_splits)
  have "i < length (processes cn) \<Longrightarrow> p_ID (processes cn ! i) \<noteq> p_ID p" for i
    using new(2) chain_invD(1) [OF assms(1), of "p_ID p" i] by auto
  moreover have "q \<in> set (processes cn) \<Longrightarrow> p_Name q \<noteq> p_Name p" for q
    using new(1) chain_invD(2) [OF assms(1), of "p_Name p" "p_ID q"] by auto
  ultimately show ?thesis
    using chain_invD [OF assms(1)] new(3,4) unfolding cn' chain_inv_def by (auto simp: nth_append less_Suc_eq)
qed

fun MustAddProcesses :: "'tx process list \<Rightarrow> ('tx, 's) chain \<Rightarrow> ('tx, 's) chain res" where
  "MustAddProcesses [] cn = Inr cn"
| "MustAddProcesses (p # ps) cn = bind_res (MustAddProcess p cn) (MustAddProcesses ps)"

lemma MustAddProcesses_inv:
  "chain_inv cn \<Longrightarrow> MustAddProcesses ps cn = Inr cn' \<Longrightarrow> chain_inv cn' \<and> processes cn' = processes cn @ ps \<and> cn_app cn' = cn_app cn"
proof (induction ps arbitrary: cn)
  case (Cons p ps)
  then show ?case using MustAddProcess_inv by (fastforce simp: res_simps)
qed simp

lemma IDMap_inv:
  assumes "chain_inv cn" "i < length (processes cn)"
  shows "IDMap cn i = p_ID (processes cn ! i)"
proof -
  let ?pid = "p_ID (processes cn ! i)"
  let ?ids = "filter (\<lambda>pid. processIndexMap cn pid = Some i) (map word_of_nat [0..<256])"
  have iff: "processIndexMap cn pid = Some i \<longleftrightarrow> pid = ?pid" for pid using assms by (auto simp: chain_inv_def)
  have "?pid \<in> set (map word_of_nat [0..<256])"
    using unsigned_less [of ?pid] by (auto intro!: image_eqI [of _ _ "unat ?pid"])
  then have "set ?ids = {?pid}" using iff by auto
  then have "?ids \<noteq> []" "last ?ids = ?pid" using last_in_set [of ?ids] by (force, metis empty_iff empty_set last_in_set singletonD insert_not_empty)
  then show ?thesis unfolding IDMap_def by (cases ?ids) auto
qed

text \<open>
  C25. Every process of a chain is found, under its id and under its name, and is called with its own id. For a new
  chain to which a list of processes is added without a panic: the process of an id or a name is the one added
  under it, ids and names are not shared, the id map gives each index the id of its process, and 255 is the
  application.
\<close>

theorem processes_found:
  assumes "NewChain cs app st s = Inr cn0" "MustAddProcesses ps cn0 = Inr cn"
  shows "(\<forall>p \<in> set ps. Process cn (p_ID p) = Inr p \<and> ProcessByName cn (p_Name p) = Inr p)
     \<and> distinct (map p_ID ps) \<and> distinct (map p_Name ps) \<and> (\<forall>i < length ps. IDMap cn i = p_ID (ps ! i))
     \<and> Process cn 255 = Inr app \<and> (\<forall>pid q. Process cn pid = Inr q \<longrightarrow> pid = 255 \<or> q \<in> set ps \<and> p_ID q = pid)"
proof -
  have inv: "chain_inv cn" "processes cn = ps" "cn_app cn = app"
    using MustAddProcesses_inv [OF _ assms(2)] NewChain_inv [OF assms(1)] by auto
  have idx: "processIndexMap cn pid = Some i \<longleftrightarrow> i < length ps \<and> p_ID (ps ! i) = pid" for pid i
    using inv by (simp add: chain_inv_def)
  have nam: "processIDMap cn name = Some pid \<longleftrightarrow> (\<exists>p \<in> set ps. p_Name p = name \<and> p_ID p = pid)" for name pid
    using inv by (simp add: chain_inv_def)
  have at: "processIndexMap cn (p_ID (ps ! i)) = Some i" if "i < length ps" for i using idx that by simp
  have res: "p_ID p \<noteq> 255" if "p \<in> set ps" for p using inv that by (auto simp: chain_inv_def)
  have "distinct (map p_ID ps)" using at by (auto simp: distinct_conv_nth) (metis option.inject)
  have found: "Process cn (p_ID p) = Inr p \<and> ProcessByName cn (p_Name p) = Inr p" if p: "p \<in> set ps" for p
  proof -
    obtain i where i: "i < length ps" "p = ps ! i" using p by (auto simp: in_set_conv_nth)
    moreover have "processIDMap cn (p_Name p) = Some (p_ID p)" using nam p by blast
    ultimately show ?thesis using at [OF i(1)] res [OF p] inv(2) by (simp add: Process_def ProcessByName_def)
  qed
  have "inj_on p_Name (set ps)" by (rule inj_onI) (metis found sum.inject(2))
  then have "distinct (map p_Name ps)" using \<open>distinct (map p_ID ps)\<close> by (simp add: distinct_map)
  moreover have "pid = 255 \<or> q \<in> set ps \<and> p_ID q = pid" if "Process cn pid = Inr q" for pid q
    using that idx inv(2) by (auto simp: Process_def split: if_splits option.splits)
  ultimately show ?thesis
    using found \<open>distinct (map p_ID ps)\<close> IDMap_inv [OF inv(1)] inv(2,3) by (auto simp: Process_def)
qed

theorem processes_found_witness:
  "\<exists>cn. bind_res (NewChain consensus0 (process0 255) (NewStore Map.empty None 1 ''test'' 1) ()) (MustAddProcesses [process0 1, (process0 2)\<lparr>p_Name := ''q''\<rparr>]) = Inr cn
     \<and> Process cn 2 = Inr ((process0 2)\<lparr>p_Name := ''q''\<rparr>) \<and> IDMap cn 1 = 2"
proof -
  obtain cn0 where cn0: "NewChain consensus0 (process0 255) (NewStore Map.empty None 1 ''test'' 1) () = Inr cn0"
    by (simp add: NewChain_def process0_def)
  moreover obtain cn where cn: "MustAddProcesses [process0 1, (process0 2)\<lparr>p_Name := ''q''\<rparr>] cn0 = Inr cn"
    using cn0 by (auto simp: NewChain_def MustAddProcess_def process0_def split: if_splits)
  moreover have "Process cn 2 = Inr ((process0 2)\<lparr>p_Name := ''q''\<rparr>)" "IDMap cn 1 = 2"
    using processes_found [OF cn0 cn] by (auto simp: process0_def)
  ultimately show ?thesis by simp
qed

section \<open>Accepted blocks\<close>

lemma StoreBlock_done:
  assumes "StoreBlock c w ord now b d st = (Inr u, st')"
  shows "\<not> isClose st'" "cached st'" "cache_height st' = bh_Height (blk_Header b)" "heightHash st' = Hash (sha c) (enc_Header w (blk_Header b))"
    "heightBlock st' = Some b"
  using assms by (auto simp: StoreBlock_def set_cache_def Let_def split: if_splits option.splits sum.splits prod.splits)

lemma StoreBlock_failed:
  assumes "StoreBlock c w ord now b d st = (Inl e, st')"
  shows "isClose st' = isClose st" "cached st' = cached st" "cache_height st' = cache_height st" "heightHash st' = heightHash st"
    "heightBlock st' = heightBlock st"
  using assms by (auto simp: StoreBlock_def Let_def split: if_splits option.splits sum.splits prod.splits)

lemma LastStatus_cached:
  assumes "cached st" "\<not> isClose st"
  shows "store_LastStatus c w st = (if cache_height st = 0 then Inr (0, heightHash st, 0) else
     case heightBlock st of None \<Rightarrow> Inl Panic | Some b \<Rightarrow> Inr (bh_Height (blk_Header b), heightHash st, bh_Timestamp (blk_Header b)))"
  using assms by (auto simp: store_LastStatus_def store_Height_def store_Hash_def store_Header_def word_less_1 Let_def split: option.splits)

lemma LastStatus_kept:
  assumes "cached st" "isClose st' = isClose st" "cached st' = cached st" "cache_height st' = cache_height st" "heightHash st' = heightHash st"
    "heightBlock st' = heightBlock st"
  shows "store_LastStatus c w st' = store_LastStatus c w st"
proof (cases "isClose st")
  case False
  then show ?thesis using assms by (simp add: LastStatus_cached split: option.splits)
qed (use assms in \<open>simp add: store_LastStatus_def store_Height_def store_Hash_def\<close>)

definition header_Hash :: "'tx chain_env \<Rightarrow> header \<Rightarrow> hash256" where
  "header_Hash env bh = Hash (ce_sha env) (enc_Header (ce_wire env) bh)"

text \<open>The block follows the status and was accepted by the consensus.\<close>

definition follows :: "('tx, 's) consensus \<Rightarrow> u32 \<times> hash256 \<times> u64 \<Rightarrow> 'tx block \<Rightarrow> bool" where
  "follows cs status b \<longleftrightarrow> (case status of (height, h, ts) \<Rightarrow>
     bh_Height (blk_Header b) = height + 1 \<and> bh_PrevHash (blk_Header b) = h \<and> ts < bh_Timestamp (blk_Header b)
     \<and> bh_Generator (blk_Header b) \<noteq> NewAddress 0 0 0 \<and> (\<exists>s. cs_ValidateSignature cs (blk_Header b) (Signatures b) s = Inr ()))"

definition status_of :: "'tx chain_env \<Rightarrow> 'tx block \<Rightarrow> u32 \<times> hash256 \<times> u64" where
  "status_of env b = (bh_Height (blk_Header b), header_Hash env (blk_Header b), bh_Timestamp (blk_Header b))"

fun linked :: "'tx chain_env \<Rightarrow> ('tx, 's) consensus \<Rightarrow> u32 \<times> hash256 \<times> u64 \<Rightarrow> 'tx block list \<Rightarrow> bool" where
  "linked env cs status [] \<longleftrightarrow> True"
| "linked env cs status (b # bs) \<longleftrightarrow> follows cs status b \<and> linked env cs (status_of env b) bs"

abbreviation cn_LastStatus :: "'tx chain_env \<Rightarrow> ('tx, 's) chain \<Rightarrow> (u32 \<times> hash256 \<times> u64) res" where
  "cn_LastStatus env cn \<equiv> store_LastStatus (ce_codec env) (ce_wire env) (cn_store cn)"

lemma connect_cases:
  assumes "connectBlockWithContext env now b ctx cn = (r, ctx', cn')"
  shows "cn_consensus cn' = cn_consensus cn"
    "r = Inr () \<and> (\<exists>d u. StoreBlock (ce_codec env) (ce_wire env) (ce_orders env d) now b d (cn_store cn) = (Inr u, cn_store cn'))
     \<or> (\<exists>e. r = Inl e \<and> (cn_store cn' = cn_store cn \<or> (\<exists>d. StoreBlock (ce_codec env) (ce_wire env) (ce_orders env d) now b d (cn_store cn) = (Inl e, cn_store cn'))))"
  using assms by (auto simp: connectBlockWithContext_def Let_def split: prod.splits sum.splits if_splits)

lemma ConnectBlock_step:
  assumes "ConnectBlock env now b cn = (r, cn')" "cached (cn_store cn)" "cn_LastStatus env cn = Inr status" "fst status + 1 \<noteq> 0"
  shows "cached (cn_store cn')" "cn_consensus cn' = cn_consensus cn"
    "r = Inr () \<Longrightarrow> follows (cn_consensus cn) status b \<and> cn_LastStatus env cn' = Inr (status_of env b)"
    "r = Inl e \<Longrightarrow> cn_LastStatus env cn' = Inr status"
proof -
  have "(\<exists>e. r = Inl e \<and> cn' = cn) \<or> (validateHeader env cn (blk_Header b) = Inr () \<and>
     cs_ValidateSignature (cn_consensus cn) (blk_Header b) (Signatures b) (cn_state cn) = Inr () \<and>
     (\<exists>ctx ctx'. connectBlockWithContext env now b ctx cn = (r, ctx', cn')))"
    using assms(1) unfolding ConnectBlock_def
    by (cases "validateHeader env cn (blk_Header b)"; cases "cs_ValidateSignature (cn_consensus cn) (blk_Header b) (Signatures b) (cn_state cn)")
      (auto split: if_splits sum.splits prod.splits dest!: sym [of "Inl _"])
  then consider (failed) e where "r = Inl e" "cn' = cn"
    | (reached) ctx ctx' where "validateHeader env cn (blk_Header b) = Inr ()"
       "cs_ValidateSignature (cn_consensus cn) (blk_Header b) (Signatures b) (cn_state cn) = Inr ()" "connectBlockWithContext env now b ctx cn = (r, ctx', cn')"
    by blast
  then have "cached (cn_store cn') \<and> cn_consensus cn' = cn_consensus cn \<and> (r = Inr () \<longrightarrow> follows (cn_consensus cn) status b \<and> cn_LastStatus env cn' = Inr (status_of env b))
     \<and> (\<forall>e. r = Inl e \<longrightarrow> cn_LastStatus env cn' = Inr status)"
  proof cases
    case reached
    obtain height h ts where st: "status = (height, h, ts)" by (rule prod_cases3)
    have fo: "follows (cn_consensus cn) status b" using reached(1,2) assms(3) st
      by (auto simp: validateHeader_def follows_def Let_def split: if_splits)
    consider (stored) d u where "r = Inr ()" "StoreBlock (ce_codec env) (ce_wire env) (ce_orders env d) now b d (cn_store cn) = (Inr u, cn_store cn')"
      | (same) e where "r = Inl e" "cn_store cn' = cn_store cn"
      | (err) e d where "r = Inl e" "StoreBlock (ce_codec env) (ce_wire env) (ce_orders env d) now b d (cn_store cn) = (Inl e, cn_store cn')"
      using connect_cases(2) [OF reached(3)] by blast
    then show ?thesis
    proof cases
      case stored
      note st' = StoreBlock_done [OF stored(2)]
      have "bh_Height (blk_Header b) \<noteq> 0" using fo st assms(4) by (simp add: follows_def)
      then have "cn_LastStatus env cn' = Inr (status_of env b)" using st' LastStatus_cached [OF st'(2,1)] by (simp add: status_of_def header_Hash_def)
      then show ?thesis using fo stored(1) st'(2) connect_cases(1) [OF reached(3)] by simp
    next
      case err
      note st' = StoreBlock_failed [OF err(2)]
      show ?thesis using err(1) assms(2,3) LastStatus_kept [OF assms(2) st'] st'(2) connect_cases(1) [OF reached(3)] by simp
    qed (use assms(2,3) connect_cases(1) [OF reached(3)] in simp)
  qed (use assms(2,3) in simp)
  then show "cached (cn_store cn')" "cn_consensus cn' = cn_consensus cn"
    "r = Inr () \<Longrightarrow> follows (cn_consensus cn) status b \<and> cn_LastStatus env cn' = Inr (status_of env b)"
    "r = Inl e \<Longrightarrow> cn_LastStatus env cn' = Inr status" by auto
qed

text \<open>A run: the blocks are offered one after the other; the accepted ones and the chain after them.\<close>

fun ConnectBlocks :: "'tx chain_env \<Rightarrow> (int \<times> 'tx block) list \<Rightarrow> ('tx, 's) chain \<Rightarrow> 'tx block list \<times> ('tx, 's) chain" where
  "ConnectBlocks env [] cn = ([], cn)"
| "ConnectBlocks env ((now, b) # bs) cn =
     (case ConnectBlock env now b cn of
        (Inl _, cn') \<Rightarrow> ConnectBlocks env bs cn'
      | (Inr _, cn') \<Rightarrow> (case ConnectBlocks env bs cn' of (acc, cn'') \<Rightarrow> (b # acc, cn'')))"

definition end_status :: "'tx chain_env \<Rightarrow> u32 \<times> hash256 \<times> u64 \<Rightarrow> 'tx block list \<Rightarrow> u32 \<times> hash256 \<times> u64" where
  "end_status env status bs = (if bs = [] then status else status_of env (last bs))"

lemma unat_not_max: "unat (x :: u32) + k < 2 ^ 32 - 1 \<Longrightarrow> x + 1 \<noteq> 0 \<and> unat (x + 1) = unat x + 1"
proof -
  assume "unat x + k < 2 ^ 32 - 1"
  then have "unat x + unat (1 :: u32) < 2 ^ LENGTH(32)" by simp
  then have "unat (x + 1) = unat x + 1" using unat_add_lem [of x 1] by simp
  then show ?thesis by (metis add_is_0 unat_0 zero_neq_one)
qed

lemma run_linked_status:
  assumes "cached (cn_store cn)" "cn_LastStatus env cn = Inr status" "unat (fst status) + length bs < 2 ^ 32 - 1"
  shows "linked env (cn_consensus cn) status (fst (ConnectBlocks env bs cn))
     \<and> cn_LastStatus env (snd (ConnectBlocks env bs cn)) = Inr (end_status env status (fst (ConnectBlocks env bs cn)))"
  using assms
proof (induction bs arbitrary: cn status)
  case (Cons nb bs)
  obtain now b where nb: "nb = (now, b)" by (rule prod.exhaust)
  obtain r cn' where r: "ConnectBlock env now b cn = (r, cn')" by (rule prod.exhaust)
  have ne: "fst status + 1 \<noteq> 0" and up: "unat (fst status + 1) = unat (fst status) + 1" using unat_not_max [OF Cons.prems(3)] by auto
  note step = ConnectBlock_step [OF r Cons.prems(1,2) ne]
  show ?case
  proof (cases r)
    case (Inl e)
    have "linked env (cn_consensus cn') status (fst (ConnectBlocks env bs cn'))
     \<and> cn_LastStatus env (snd (ConnectBlocks env bs cn')) = Inr (end_status env status (fst (ConnectBlocks env bs cn')))"
      by (rule Cons.IH) (use step(1) step(4) [OF Inl] Cons.prems(3) in auto)
    then show ?thesis using Inl r nb step(2) by simp
  next
    case (Inr u)
    then have fo: "follows (cn_consensus cn) status b" "cn_LastStatus env cn' = Inr (status_of env b)" using step(3) by simp_all
    have "fst (status_of env b) = fst status + 1" using fo(1) by (auto simp: follows_def status_of_def split: prod.splits)
    then have "linked env (cn_consensus cn') (status_of env b) (fst (ConnectBlocks env bs cn'))
     \<and> cn_LastStatus env (snd (ConnectBlocks env bs cn')) = Inr (end_status env (status_of env b) (fst (ConnectBlocks env bs cn')))"
      by (intro Cons.IH) (use step(1) fo(2) Cons.prems(3) up in auto)
    then show ?thesis using Inr r nb step(2) fo(1) by (auto simp: end_status_def split: prod.splits)
  qed
qed (simp add: end_status_def)

lemmas run_linked = run_linked_status [THEN conjunct1]


definition chain1 :: "(unit, unit) chain" where
  "chain1 = chain0\<lparr>cn_store := set_cache 0 (replicate 32 1) None (cn_store chain0)\<rparr>"


end
