(* ===== verification/Chain_Creator.thy ===== *)
theory Chain_Creator
  imports Chain_Laws
begin

text \<open>
  Blocks made by the block creator are valid: executing a created block on a fresh context succeeds and gives the
  context hash the creator wrote, although the creator also ran the transactions it then left out.
\<close>

section \<open>Hypotheses\<close>

text \<open>
  A computation of a process: it does not see the cache, it leaves the snapshots below alone, and it does not panic.
\<close>

definition tame :: "'a cm \<Rightarrow> bool" where
  "tame m \<longleftrightarrow> obs m \<and> keeps m \<and> (\<forall>ctx. ctx_wf ctx \<longrightarrow> fst (m ctx) \<noteq> Inl Panic)"

text \<open>Two blocks that differ only in the timestamp and the context hash of their headers.\<close>

definition same_but_stamp :: "'tx block \<Rightarrow> 'tx block \<Rightarrow> bool" where
  "same_but_stamp b b' \<longleftrightarrow> (\<exists>ts h. b' = b\<lparr>blk_Header := (blk_Header b)\<lparr>bh_Timestamp := ts, bh_ContextHash := h\<rparr>\<rparr>)"

text \<open>
  The transactions and hooks are tame, and \<open>AfterExecuteTransactions\<close> does not use the fields of the header that the
  creator fills in last.
\<close>

definition chain_tame :: "'tx chain_env \<Rightarrow> ('tx, 's) chain \<Rightarrow> bool" where
  "chain_tame env cn \<longleftrightarrow>
     (\<forall>tx p pid sg. tame (ce_Validate env tx p pid sg)) \<and> (\<forall>tx p pid i. tame (ce_Execute env tx p pid i))
     \<and> (\<forall>p \<in> set (cn_app cn # processes cn). \<forall>pid. tame (p_Before p pid) \<and> (\<forall>b. tame (p_After p b pid))
          \<and> (\<forall>b b'. same_but_stamp b b' \<longrightarrow> p_After p b pid = p_After p b' pid))"

section \<open>The computations of the chain\<close>

lemma obs_ctry [obs_intros]: "obs m \<Longrightarrow> (\<And>e. obs (h e)) \<Longrightarrow> (\<And>a. obs (k a)) \<Longrightarrow> obs (ctry m h k)"
  unfolding obs_def [of "ctry m h k"]
proof (intro allI impI)
  fix ctx ctx' assume m: "obs m" "\<And>e. obs (h e)" "\<And>a. obs (k a)" and eq: "ceq ctx ctx'"
  show "fst (ctry m h k ctx) = fst (ctry m h k ctx') \<and> ceq (snd (ctry m h k ctx)) (snd (ctry m h k ctx'))"
    using obsD [OF m(1) eq] obsD [OF m(2)] obsD [OF m(3)]
    by (cases "m ctx"; cases "m ctx'"; cases "fst (m ctx')") (auto simp: ctry_def)
qed

lemma obs_check_stack [obs_intros]: "obs check_stack"
  by (auto simp: obs_def check_stack_def ctx_StackSize_def dest: ceq_stack)

lemma obs_case_option [obs_intros]: "(x = None \<Longrightarrow> obs m) \<Longrightarrow> (\<And>y. x = Some y \<Longrightarrow> obs (f y)) \<Longrightarrow> obs (case x of None \<Rightarrow> m | Some y \<Rightarrow> f y)"
  by (cases x) auto

lemma obs_case_prod [obs_intros]: "(\<And>a b. obs (f a b)) \<Longrightarrow> obs (case x of (a, b) \<Rightarrow> f a b)"
  by (cases x) auto

lemma obs_run_all [obs_intros]: "(\<And>f. f \<in> set fs \<Longrightarrow> obs f) \<Longrightarrow> obs (run_all fs)"
proof (induction fs)
  case (Cons f fs)
  have "run_all (f # fs) = cbind f (\<lambda>_. run_all fs)" by (rule ext) (simp add: cbind_def)
  then show ?case using Cons by (auto intro: obs_cbind)
qed (simp add: obs_def)

lemma obs_run_tx:
  assumes "chain_tame env cn" "\<And>r. obs (check r)"
  shows "obs (run_tx env p pid G tx sg i check)"
  using assms unfolding run_tx_def commit_tx_def revert_fail_def chain_tame_def tame_def by (intro obs_intros) auto

section \<open>Inside a snapshot\<close>

text \<open>\<open>inside c0 ctx\<close>: \<open>ctx\<close> has one snapshot more than \<open>c0\<close>, the snapshots of \<open>c0\<close> below it.\<close>

definition inside :: "ctx \<Rightarrow> ctx \<Rightarrow> bool" where
  "inside c0 ctx \<longleftrightarrow> ctx_wf c0 \<and> ctx_wf ctx \<and> ctx_parents ctx = set_isTop False (ctx_stack c0) \<and> ctx_env ctx = ctx_env c0
     \<and> ceq c0 c0 \<and> ceq ctx ctx"

lemma inside_Snapshot:
  assumes "ctx_wf c0" "ceq c0 c0"
  shows "fst (ctx_Snapshot c0) = Inr (length (ctx_stack c0) + 1)" "inside c0 (snd (ctx_Snapshot c0))"
proof -
  obtain d ps where st: "ctx_stack c0 = d # ps" "isTop d" "list_all (\<lambda>d. \<not> isTop d) ps" using assms(1) by (auto elim: ctx_wfE)
  show "fst (ctx_Snapshot c0) = Inr (length (ctx_stack c0) + 1)" by (simp add: ctx_Snapshot_def st set_isTop_def Let_def)
  have "ceq (snd (ctx_Snapshot c0)) (snd (ctx_Snapshot c0))" using obsD(2) [OF obs_Snapshot(1) assms(2)] .
  then show "inside c0 (snd (ctx_Snapshot c0))"
    using assms st by (simp add: inside_def ctx_Snapshot_def set_isTop_def Let_def ctx_wf_def ctx_parents_def ctx_env_def dirty_def NewContextData_def)
qed

lemma inside_step: "inside c0 ctx \<Longrightarrow> obs m \<Longrightarrow> keeps m \<Longrightarrow> inside c0 (snd (m ctx))"
  using keepsD [of m ctx] obsD(2) [of m ctx ctx] by (simp add: inside_def)

lemma inside_stack:
  assumes "inside c0 ctx"
  obtains d where "ctx_stack ctx = d # set_isTop False (ctx_stack c0)"
  using assms ctx_stack_parents [of ctx] by (auto simp: inside_def)

lemma set_isTop_back: "ctx_wf c0 \<Longrightarrow> set_isTop True (set_isTop False (ctx_stack c0)) = ctx_stack c0"
  by (cases "ctx_stack c0") (auto simp: ctx_wf_def set_isTop_def)

lemma inside_Revert:
  assumes "inside c0 ctx"
  shows "fst (ctx_Revert (length (ctx_stack c0) + 1) ctx) = Inr ()" "ceq c0 (snd (ctx_Revert (length (ctx_stack c0) + 1) ctx))"
    "ctx_wf (snd (ctx_Revert (length (ctx_stack c0) + 1) ctx))"
proof -
  obtain d where st: "ctx_stack ctx = d # set_isTop False (ctx_stack c0)" using assms by (rule inside_stack)
  have ne: "set_isTop False (ctx_stack c0) \<noteq> []" and len: "length (set_isTop False (ctx_stack c0)) = length (ctx_stack c0)"
    using assms by (auto simp: inside_def ctx_wf_def set_isTop_def split: list.splits)
  have "ctx_Revert (length (ctx_stack c0) + 1) ctx = (Inr (), (dirty ctx)\<lparr>ctx_stack := ctx_stack c0\<rparr>)"
    using ne len set_isTop_back [of c0] assms by (simp add: ctx_Revert_def st Let_def inside_def)
  then show "fst (ctx_Revert (length (ctx_stack c0) + 1) ctx) = Inr ()" "ceq c0 (snd (ctx_Revert (length (ctx_stack c0) + 1) ctx))"
    "ctx_wf (snd (ctx_Revert (length (ctx_stack c0) + 1) ctx))"
    using assms by (auto simp: inside_def ceq_def ctx_env_def dirty_def ctx_wf_def)
qed

lemma inside_Commit:
  assumes "inside c0 ctx"
  shows "fst (ctx_Commit (length (ctx_stack c0) + 1) ctx) = Inr ()" "ctx_wf (snd (ctx_Commit (length (ctx_stack c0) + 1) ctx))"
    "ctx_StackSize (snd (ctx_Commit (length (ctx_stack c0) + 1) ctx)) = ctx_StackSize c0"
    "ctx_env (snd (ctx_Commit (length (ctx_stack c0) + 1) ctx)) = ctx_env c0"
proof -
  obtain d where st: "ctx_stack ctx = d # set_isTop False (ctx_stack c0)" using assms by (rule inside_stack)
  obtain d0 ps where c0: "ctx_stack c0 = d0 # ps" "list_all (\<lambda>d. \<not> isTop d) ps" using assms by (auto simp: inside_def elim: ctx_wfE)
  have "commit_loop (length (ctx_stack c0) + 1) (ctx_stack ctx) = Inr (commit_merge d (d0\<lparr>isTop := False\<rparr>) # ps)"
    by (cases ps) (simp_all add: st c0 set_isTop_def)
  then show "fst (ctx_Commit (length (ctx_stack c0) + 1) ctx) = Inr ()" "ctx_wf (snd (ctx_Commit (length (ctx_stack c0) + 1) ctx))"
    "ctx_StackSize (snd (ctx_Commit (length (ctx_stack c0) + 1) ctx)) = ctx_StackSize c0"
    "ctx_env (snd (ctx_Commit (length (ctx_stack c0) + 1) ctx)) = ctx_env c0"
    using c0 assms by (simp_all add: ctx_Commit_def set_isTop_def ctx_wf_def ctx_StackSize_def inside_def ctx_env_def dirty_def)
qed

lemma post_ctry_inside:
  assumes "inside c0 ctx" "obs m" "keeps m" "fst (m ctx) \<noteq> Inl Panic"
    "\<And>e c. inside c0 c \<Longrightarrow> post (h e) c Q" "\<And>a c. inside c0 c \<Longrightarrow> post (k a) c Q"
  shows "post (ctry m h k) ctx Q"
proof -
  obtain r c where m: "m ctx = (r, c)" by (rule prod.exhaust)
  then have "inside c0 c" "r \<noteq> Inl Panic" using inside_step [OF assms(1-3)] assms(4) by simp_all
  then show ?thesis using assms(5,6) m by (cases r) (auto simp: post_def ctry_def)
qed

lemma post_bind_inside:
  assumes "inside c0 ctx" "obs m" "keeps m" "\<And>e. fst (m ctx) \<noteq> Inl e" "\<And>a c. inside c0 c \<Longrightarrow> post (f a) c Q"
  shows "post (cbind m f) ctx Q"
  using assms(4,5) inside_step [OF assms(1-3)] by (cases "fst (m ctx)") (auto simp: post_def ctx_simps)

lemma post_bind_known: "fst (m ctx) = Inr x \<Longrightarrow> post (f x) (snd (m ctx)) Q \<Longrightarrow> post (cbind m f) ctx Q"
  by (simp add: post_def ctx_simps)

lemma post_revert:
  assumes "inside c0 ctx" "\<And>c. ceq c0 c \<Longrightarrow> ctx_wf c \<Longrightarrow> post (k ()) c Q"
  shows "post (cbind (ctx_Revert (length (ctx_stack c0) + 1)) k) ctx Q"
  using assms(2) inside_Revert [OF assms(1)] by (simp add: post_def ctx_simps)

lemma post_commit:
  assumes "inside c0 ctx" "\<And>c. ctx_wf c \<Longrightarrow> ctx_StackSize c = ctx_StackSize c0 \<Longrightarrow> ctx_env c = ctx_env c0 \<Longrightarrow> post (k ()) c Q"
  shows "post (cbind (ctx_Commit (length (ctx_stack c0) + 1)) k) ctx Q"
  using assms(2) inside_Commit [OF assms(1)] by (simp add: post_def ctx_simps)

lemma cbind_ctry: "cbind (ctry m h k) f = ctry m (\<lambda>e. cbind (h e) f) (\<lambda>a. cbind (k a) f)"
  by (rule ext) (auto simp: cbind_def ctry_def split: prod.splits sum.splits)

lemma cbind_revert_fail: "cbind (revert_fail sn e) f = revert_fail sn e"
  by (rule ext) (auto simp: cbind_def revert_fail_def cfail_def split: prod.splits sum.splits)

lemma cbind_if: "cbind (if b then m else n) f = (if b then cbind m f else cbind n f)"
  by simp

definition has_total :: "loader \<Rightarrow> bool" where
  "has_total ld \<longleftrightarrow> (\<forall>a. ld_HasAccount ld a \<noteq> Inl Panic)"

lemma HasAccount_total: "inside c0 ctx \<Longrightarrow> has_total (ctx_loader c0) \<Longrightarrow> fst (ctx_HasAccount G ctx) \<noteq> Inl Panic"
proof -
  assume i: "inside c0 ctx" and t: "has_total (ctx_loader c0)"
  then have t: "has_total (ctx_loader ctx)" by (simp add: inside_def ctx_env_def)
  have "ctd_HasAccount (ctx_loader ctx) G st cc \<noteq> Inl Panic" for st cc
    by (induction st) (use t in \<open>auto simp: ctd_HasAccount.simps cc_HasAccount_def has_total_def\<close>)
  then show ?thesis using i unfolding inside_def ctx_HasAccount_def on_stack_res_def on_stack_def cbind_def
    by (auto simp: ctx_wf_def split: sum.splits)
qed

lemma on_stack_wf: "ctx_wf ctx \<Longrightarrow> fst (on_stack f ctx) \<noteq> Inl e"
  by (auto simp: on_stack_def ctx_wf_def split: prod.splits)

definition tx_outcome :: "ctx \<Rightarrow> u8 option res \<Rightarrow> ctx \<Rightarrow> bool" where
  "tx_outcome c0 r c \<longleftrightarrow> ctx_wf c \<and> (case r of Inr (Some _) \<Rightarrow> ctx_StackSize c = ctx_StackSize c0 \<and> ctx_env c = ctx_env c0 | _ \<Rightarrow> ceq c0 c)"

lemma post_revert_fail: "inside c0 ctx \<Longrightarrow> post (revert_fail (length (ctx_stack c0) + 1) e) ctx (tx_outcome c0)"
  unfolding revert_fail_def by (rule post_revert) (auto simp: post_def tx_outcome_def cfail_def)

lemma post_commit_tx:
  assumes "inside c0 ctx" "has_total (ctx_loader c0)"
  shows "post (cbind (commit_tx G (length (ctx_stack c0) + 1)) (\<lambda>_. cret (Some r))) ctx (tx_outcome c0)"
  unfolding commit_tx_def cbind_ctry cbind_revert_fail cbind_if
proof (rule post_ctry_inside [OF assms(1) obs_ops(5) keeps_ops(5) HasAccount_total [OF assms]])
  fix Has c assume c: "inside c0 c"
  show "post (if \<not> Has then revert_fail (length (ctx_stack c0) + 1) ErrCannotDeleteGeneratorAccount
      else cbind (ctx_Commit (length (ctx_stack c0) + 1)) (\<lambda>_. cret (Some r))) c (tx_outcome c0)"
    by (rule post_basic(4)) (rule post_revert_fail [OF c], rule post_commit [OF c], simp add: post_def tx_outcome_def cret_def)
qed (rule post_revert_fail)

text \<open>A transaction that is not added leaves the context as it was, up to the cache.\<close>

lemma run_tx_outcome:
  assumes "chain_tame env cn" "ctx_wf c0" "ceq c0 c0" "has_total (ctx_loader c0)"
  shows "post (run_tx env p pid G tx sg i (\<lambda>_. cret ())) c0 (tx_outcome c0)"
proof -
  let ?sn = "length (ctx_stack c0) + 1"
  note tv = assms(1) [unfolded chain_tame_def tame_def]
  have ex: "obs (ce_Execute env tx p pid k)" "keeps (ce_Execute env tx p pid k)" "inside c0 c \<Longrightarrow> fst (ce_Execute env tx p pid k c) \<noteq> Inl Panic" for k c
    using tv unfolding inside_def by blast+
  have va: "obs (ce_Validate env tx p pid sg)" "keeps (ce_Validate env tx p pid sg)" "inside c0 c \<Longrightarrow> fst (ce_Validate env tx p pid sg c) \<noteq> Inl Panic" for c
    using tv unfolding inside_def by blast+
  have wf: "ctx_wf c" if "inside c0 c" for c using that by (simp add: inside_def)
  have last: "post (cbind (cret ()) (\<lambda>_. cbind (commit_tx G ?sn) (\<lambda>_. cret (Some r)))) c (tx_outcome c0)" if "inside c0 c" for c r
    by (rule post_bind_basic(1)) (rule post_commit_tx [OF that assms(4)])
  have acc: "post (cbind (ctx_AddSeq From) (\<lambda>_. cbind (ctry (ce_Execute env tx p pid (word_of_nat i)) (\<lambda>_. cret 0) (\<lambda>_. cret 1)) (\<lambda>Result.
      cbind (cret ()) (\<lambda>_. cbind (commit_tx G ?sn) (\<lambda>_. cret (Some Result)))))) c (tx_outcome c0)" if c: "inside c0 c" for From c
    using c
  proof (rule post_bind_inside)
    show "fst (ctx_AddSeq From c) \<noteq> Inl e" for e
      unfolding ctx_AddSeq_def by (rule on_stack_wf) (use wf [OF c] in \<open>simp add: ctx_simps\<close>)
    fix u c' assume c': "inside c0 c'"
    show "post (cbind (ctry (ce_Execute env tx p pid (word_of_nat i)) (\<lambda>_. cret 0) (\<lambda>_. cret 1)) (\<lambda>Result.
      cbind (cret ()) (\<lambda>_. cbind (commit_tx G ?sn) (\<lambda>_. cret (Some Result))))) c' (tx_outcome c0)"
      unfolding cbind_ctry by (rule post_ctry_inside [OF c' ex(1,2) ex(3) [OF c']]) (rule post_bind_basic(1), rule last, assumption)+
  qed (rule obs_intros keeps_intros)+
  have rest: "post (case ce_Account env tx of
       Some (From, Seq) \<Rightarrow> cbind (ctx_Seq From) (\<lambda>seq. if Seq \<noteq> seq + 1 then cbind (ctx_Revert ?sn) (\<lambda>_. cret None)
         else cbind (ctx_AddSeq From) (\<lambda>_. cbind (ctry (ce_Execute env tx p pid (word_of_nat i)) (\<lambda>_. cret 0) (\<lambda>_. cret 1)) (\<lambda>Result.
           cbind (cret ()) (\<lambda>_. cbind (commit_tx G ?sn) (\<lambda>_. cret (Some Result))))))
     | None \<Rightarrow> ctry (ce_Execute env tx p pid (word_of_nat i)) (revert_fail ?sn) (\<lambda>_. cbind (commit_tx G ?sn) (\<lambda>_. cret (Some 0)))) c (tx_outcome c0)"
    if c: "inside c0 c" for c
  proof (cases "ce_Account env tx")
    case None
    show ?thesis unfolding None option.case by (rule post_ctry_inside [OF c ex(1,2) ex(3) [OF c]]) (rule post_revert_fail post_commit_tx, assumption | rule assms(4))+
  next
    case (Some a)
    obtain From Seq where a: "a = (From, Seq)" by (rule prod.exhaust)
    show ?thesis unfolding Some a option.case prod.case
      using c
    proof (rule post_bind_inside)
      show "fst (ctx_Seq From c) \<noteq> Inl e" for e unfolding ctx_Seq_def by (rule on_stack_wf) (use wf [OF c] in simp)
      fix seq c' assume c': "inside c0 c'"
      show "post (if Seq \<noteq> seq + 1 then cbind (ctx_Revert ?sn) (\<lambda>_. cret None) else cbind (ctx_AddSeq From) (\<lambda>_. cbind (ctry (ce_Execute env tx p pid (word_of_nat i)) (\<lambda>_. cret 0) (\<lambda>_. cret 1)) (\<lambda>Result.
           cbind (cret ()) (\<lambda>_. cbind (commit_tx G ?sn) (\<lambda>_. cret (Some Result)))))) c' (tx_outcome c0)"
        by (rule post_basic(4)) (rule post_revert [OF c'], simp add: post_def tx_outcome_def cret_def, rule acc [OF c'])
    qed (rule obs_intros keeps_intros)+
  qed
  show ?thesis unfolding run_tx_def
    by (rule post_bind_known [where m = ctx_Snapshot and ctx = c0, OF inside_Snapshot(1) [OF assms(2,3)]], rule post_ctry_inside [OF inside_Snapshot(2) [OF assms(2,3)] va(1,2) va(3) [OF inside_Snapshot(2) [OF assms(2,3)]]])
      (rule post_revert_fail rest, assumption)+
qed

section \<open>Replaying the added transactions\<close>

record 'tx added =
  ad_t :: u16
  ad_tx :: 'tx
  ad_sigs :: "signature list"
  ad_signers :: "public_hash list"
  ad_res :: u8

abbreviation expect :: "u8 \<Rightarrow> u8 \<Rightarrow> unit cm" where
  "expect res r \<equiv> (if r \<noteq> res then cfail ErrInvalidResult else cret ())"

fun replay :: "'tx chain_env \<Rightarrow> ('tx, 's) chain \<Rightarrow> address \<Rightarrow> nat \<Rightarrow> 'tx added list \<Rightarrow> bool cm" where
  "replay env cn G i [] = cret True"
| "replay env cn G i (a # as) =
     cbind (clift (Process cn (pid_of (ad_t a)))) (\<lambda>p.
     cbind (run_tx env p (pid_of (ad_t a)) G (ad_tx a) (ad_signers a) i (expect (ad_res a))) (\<lambda>r.
     case r of None \<Rightarrow> cret False | Some _ \<Rightarrow> replay env cn G (i + 1) as))"

lemma cbind_cases: "cbind m f ctx = (case m ctx of (Inl e, c) \<Rightarrow> (Inl e, c) | (Inr a, c) \<Rightarrow> f a c)"
  by (simp add: cbind_def)

lemma replay_snoc:
  "replay env cn G i as ctx = (Inr True, c) \<Longrightarrow> replay env cn G i (as @ [a]) ctx = replay env cn G (i + length as) [a] c"
proof (induction as arbitrary: i ctx)
  case (Cons x as)
  obtain p r c1 c2 where s: "Process cn (pid_of (ad_t x)) = Inr p" "run_tx env p (pid_of (ad_t x)) G (ad_tx x) (ad_signers x) i (expect (ad_res x)) ctx = (Inr (Some r), c1)"
    "replay env cn G (i + 1) as c1 = (Inr True, c)"
    using Cons.prems by (auto simp: cbind_def clift_def cret_def split: sum.splits prod.splits option.splits)
  show ?case using Cons.IH [OF s(3)] s by (simp add: cbind_def clift_def)
qed (simp add: cret_def)

lemma run_tx_expect:
  assumes "run_tx env p pid G tx sg i (\<lambda>_. cret ()) ctx = (Inr (Some R), c)"
  shows "run_tx env p pid G tx sg i (expect R) ctx = (Inr (Some R), c)"
proof (cases "ce_Account env tx")
  case None
  then show ?thesis using assms by (simp add: run_tx_def)
next
  case (Some a)
  obtain From Seq where a: "a = (From, Seq)" by (rule prod.exhaust)
  obtain sn c1 where s: "ctx_Snapshot ctx = (Inr sn, c1)" using assms by (auto simp: run_tx_def cbind_def split: sum.splits prod.splits)
  obtain u c2 where v: "ce_Validate env tx p pid sg c1 = (Inr u, c2)"
    using assms s by (auto simp: run_tx_def cbind_def ctry_def revert_fail_def cfail_def split: sum.splits prod.splits if_splits)
  obtain seq c3 where q: "ctx_Seq From c2 = (Inr seq, c3)" "Seq = seq + 1"
    using assms s v Some a by (auto simp: run_tx_def cbind_def ctry_def cret_def split: sum.splits prod.splits if_splits)
  obtain u c4 where d: "ctx_AddSeq From c3 = (Inr u, c4)"
    using assms s v Some a q by (auto simp: run_tx_def cbind_def ctry_def cret_def split: sum.splits prod.splits if_splits)
  show ?thesis using assms s v Some a q d
    by (auto simp: run_tx_def cbind_def ctry_def cret_def split: sum.splits prod.splits if_splits)
qed

lemma exec_txs_replay:
  assumes "bh_Generator (blk_Header b) = G" "length as = length txs" "i + length as \<le> length (TransactionResults b)"
    and "\<And>k. k < length as \<Longrightarrow> TransactionTypes b ! (i + k) = ad_t (as ! k) \<and> txs ! k = ad_tx (as ! k) \<and> S ! (i + k) = ad_signers (as ! k)
           \<and> TransactionResults b ! (i + k) = ad_res (as ! k)"
  shows "exec_txs env cn b S i txs = replay env cn G i as"
  using assms(2-)
proof (induction as arbitrary: i txs)
  case (Cons a as)
  obtain tx txs' where txs: "txs = tx # txs'" using Cons.prems(1) by (cases txs) auto
  have at: "TransactionTypes b ! i = ad_t a" "tx = ad_tx a" "S ! i = ad_signers a" "TransactionResults b ! i = ad_res a"
    using Cons.prems(3) [of 0] txs by auto
  have "exec_txs env cn b S (i + 1) txs' = replay env cn G (i + 1) as"
  proof (rule Cons.IH)
    show "TransactionTypes b ! (i + 1 + k) = ad_t (as ! k) \<and> txs' ! k = ad_tx (as ! k) \<and> S ! (i + 1 + k) = ad_signers (as ! k)
           \<and> TransactionResults b ! (i + 1 + k) = ad_res (as ! k)" if "k < length as" for k
      using Cons.prems(3) [of "Suc k"] that txs by simp
  qed (use Cons.prems txs in auto)
  moreover have "check_result b i = expect (ad_res a)" using Cons.prems(2) at(4) by (auto simp: check_result_def fun_eq_iff)
  ultimately show ?case using at assms(1) by (simp add: txs Let_def)
qed simp

section \<open>The creator\<close>

definition added_hash :: "'tx chain_env \<Rightarrow> ('tx, 's) chain \<Rightarrow> 'tx added \<Rightarrow> hash256" where
  "added_hash env cn a = HashTransactionByType env (chainID (cn_store cn)) (ad_t a) (ad_tx a)"

text \<open>
  The state of a creator that started on \<open>c0\<close> and has added \<open>as\<close>: replaying \<open>as\<close> on \<open>c0\<close> leads to its context.
\<close>

definition created :: "'tx chain_env \<Rightarrow> ('tx, 's) chain \<Rightarrow> header \<Rightarrow> ctx \<Rightarrow> 'tx added list \<Rightarrow> 'tx creator \<Rightarrow> bool" where
  "created env cn h c0 as bc \<longleftrightarrow>
     bc_b bc = \<lparr>blk_Header = h, TransactionTypes = map ad_t as, Transactions = map ad_tx as, TransactionSignatures = map ad_sigs as,
                TransactionResults = map ad_res as, Signatures = []\<rparr>
     \<and> bc_txHashes bc = bh_PrevHash h # map (added_hash env cn) as
     \<and> (\<forall>a \<in> set as. recover_signers env (added_hash env cn a) (ad_sigs a) = Inr (ad_signers a))
     \<and> ctx_wf (bc_ctx bc) \<and> ctx_env (bc_ctx bc) = ctx_env c0
     \<and> (\<exists>c. replay env cn (bh_Generator h) 0 as c0 = (Inr True, c) \<and> ceq c (bc_ctx bc))"

lemma created_skip:
  assumes "created env cn h c0 as bc" "ceq (bc_ctx bc) c" "ctx_wf c"
  shows "created env cn h c0 as (bc\<lparr>bc_ctx := c\<rparr>)"
  using assms ceq_trans ceq_stack(2) unfolding created_def by (fastforce dest: ceq_stack(2))

lemma UnsafeAddTx_created:
  assumes "chain_tame env cn" "created env cn h c0 as bc" "has_total (ctx_loader c0)" "TxHash = HashTransactionByType env (chainID (cn_store cn)) t tx"
    "recover_signers env TxHash sigs = Inr sg"
  shows "\<exists>as'. created env cn h c0 as' (snd (UnsafeAddTx env cn (bh_Generator h) t TxHash tx sigs sg bc))"
proof (cases "Process cn (pid_of t)")
  case (Inl e)
  then show ?thesis using assms(2) by (auto simp: UnsafeAddTx_def Let_def)
next
  case (Inr p)
  let ?G = "bh_Generator h" and ?pid = "pid_of t"
  let ?run = "run_tx env p ?pid ?G tx sg (length as) (\<lambda>_. cret ())"
  obtain c where rep: "replay env cn ?G 0 as c0 = (Inr True, c)" and eq: "ceq c (bc_ctx bc)"
    and wf: "ctx_wf (bc_ctx bc)" and en: "ctx_env (bc_ctx bc) = ctx_env c0" and len: "length (Transactions (bc_b bc)) = length as"
    using assms(2) by (auto simp: created_def)
  have self: "ceq (bc_ctx bc) (bc_ctx bc)" using ceq_trans [OF ceq_sym [OF eq] eq] .
  have "has_total (ctx_loader (bc_ctx bc))" using en assms(3) by (simp add: ctx_env_def)
  note out = postD [OF run_tx_outcome [OF assms(1) wf self this, of p ?pid ?G tx sg "length as"]]
  have ob: "obs ?run" by (rule obs_run_tx [OF assms(1)]) (rule obs_intros)
  obtain r c' where run: "?run (bc_ctx bc) = (r, c')" by (rule prod.exhaust)
  show ?thesis
  proof (cases "\<exists>R. r = Inr (Some R)")
    case False
    then have "ceq (bc_ctx bc) c'" "ctx_wf c'" using out run by (auto simp: tx_outcome_def split: sum.splits option.splits)
    then have "created env cn h c0 as (bc\<lparr>bc_ctx := c'\<rparr>)" by (rule created_skip [OF assms(2)])
    moreover have "snd (UnsafeAddTx env cn ?G t TxHash tx sigs sg bc) = bc\<lparr>bc_ctx := c'\<rparr>"
      using False run Inr len by (auto simp: UnsafeAddTx_def Let_def split: sum.splits option.splits)
    ultimately show ?thesis by auto
  next
    case True
    then obtain R where R: "r = Inr (Some R)" by blast
    define a where "a = \<lparr>ad_t = t, ad_tx = tx, ad_sigs = sigs, ad_signers = sg, ad_res = R\<rparr>"
    obtain c'' where r2: "?run c = (Inr (Some R), c'')" "ceq c'' c'"
      using obsD [OF ob eq] run R by (metis fst_conv snd_conv surjective_pairing)
    have "replay env cn ?G 0 (as @ [a]) c0 = (Inr True, c'')"
      using replay_snoc [OF rep] run_tx_expect [OF r2(1)] Inr by (simp add: a_def cbind_def clift_def cret_def)
    moreover have "snd (UnsafeAddTx env cn ?G t TxHash tx sigs sg bc) =
        bc\<lparr>bc_ctx := c', bc_b := append_tx t tx sigs R (bc_b bc), bc_txHashes := bc_txHashes bc @ [TxHash]\<rparr>"
      using run R Inr len by (simp add: UnsafeAddTx_def Let_def)
    moreover have "ctx_wf c'" "ctx_env c' = ctx_env c0" using out run R en by (simp_all add: tx_outcome_def)
    ultimately have "created env cn h c0 (as @ [a]) (snd (UnsafeAddTx env cn ?G t TxHash tx sigs sg bc))"
      using assms(2,4,5) r2(2) by (auto simp: created_def append_tx_def added_hash_def a_def)
    then show ?thesis by blast
  qed
qed

fun AddTxs :: "'tx chain_env \<Rightarrow> ('tx, 's) chain \<Rightarrow> address \<Rightarrow> ('tx \<times> signature list) list \<Rightarrow> 'tx creator \<Rightarrow> 'tx creator" where
  "AddTxs env cn G [] bc = bc"
| "AddTxs env cn G ((tx, sigs) # txs) bc = AddTxs env cn G txs (snd (AddTx env cn G tx sigs bc))"

lemma AddTxs_created:
  assumes "chain_tame env cn" "has_total (ctx_loader c0)"
  shows "created env cn h c0 as bc \<Longrightarrow> \<exists>as'. created env cn h c0 as' (AddTxs env cn (bh_Generator h) txs bc)"
proof (induction txs arbitrary: as bc)
  case (Cons x txs)
  obtain tx sigs where x: "x = (tx, sigs)" by (rule prod.exhaust)
  have "\<exists>as'. created env cn h c0 as' (snd (AddTx env cn (bh_Generator h) tx sigs bc))"
    using Cons.prems UnsafeAddTx_created [OF assms(1) Cons.prems assms(2) refl] unfolding AddTx_def Let_def
    by (auto split: sum.splits)
  then show ?case using Cons.IH x by auto
qed auto

section \<open>Created blocks\<close>

lemma run_all_cbind: "run_all (f # fs) = cbind f (\<lambda>_. run_all fs)"
  by (rule ext) (simp add: cbind_def)

lemma keeps_run_all: "(\<And>f. f \<in> set fs \<Longrightarrow> keeps f) \<Longrightarrow> keeps (run_all fs)"
proof (induction fs)
  case (Cons f fs)
  then show ?case unfolding run_all_cbind by (intro keeps_cbind) auto
qed (simp add: keeps_def)

lemma keeps_check_stack: "keeps check_stack"
  by (simp add: keeps_def check_stack_def)

lemma hooks_mem: "m \<in> set (hooks cn h) \<Longrightarrow> \<exists>p \<in> set (cn_app cn # processes cn). \<exists>pid. m = h p pid"
  by (auto simp: hooks_def in_set_enumerate_eq)

lemma run_hooks_tame:
  assumes "\<And>p pid. p \<in> set (cn_app cn # processes cn) \<Longrightarrow> obs (h p pid) \<and> keeps (h p pid)"
  shows "obs (run_hooks cn h)" "keeps (run_hooks cn h)"
  unfolding run_hooks_def using hooks_mem [of _ cn h] assms
  by (intro obs_run_all keeps_run_all; auto simp: clean_def intro!: obs_intros keeps_cbind keeps_check_stack; blast)+

lemma run_hooks_cong:
  assumes "\<And>p pid. p \<in> set (cn_app cn # processes cn) \<Longrightarrow> h p pid = h' p pid"
  shows "run_hooks cn h = run_hooks cn h'"
proof -
  have "map (\<lambda>(i, p). h p (IDMap cn i)) (enumerate 0 (processes cn)) = map (\<lambda>(i, p). h' p (IDMap cn i)) (enumerate 0 (processes cn))"
    by (rule map_cong) (use assms in \<open>auto simp: in_set_enumerate_eq\<close>)
  moreover have "h (cn_app cn) 255 = h' (cn_app cn) 255" using assms by simp
  ultimately show ?thesis unfolding run_hooks_def hooks_def by (simp only:)
qed

lemma run_hooks_clean:
  assumes "run_hooks cn h ctx = (Inr u, c)" shows "ctx_StackSize c \<le> 1"
proof -
  have app: "run_all (fs @ [clean f]) ctx = (Inr u, c) \<Longrightarrow> ctx_StackSize c \<le> 1" for fs f ctx
    by (induction fs arbitrary: ctx) (auto simp: clean_def cbind_def check_stack_def split: prod.splits sum.splits if_splits)
  show ?thesis using assms app unfolding run_hooks_def hooks_def by simp
qed

lemma hash_ceq: "ceq c c' \<Longrightarrow> fst (hash_ctx env c) = fst (hash_ctx env c')"
proof -
  assume eq: "ceq c c'"
  have "ctd_Hash H P m ord c d = ctd_Hash H P m ord c' d" for H P m ord d
    using eq by (simp add: ctd_Hash_def ctd_buffer_def ceq_def ctx_env_def)
  then show ?thesis using eq by (auto simp: ctx_Hash_def ceq_def ctx_env_def split: list.splits sum.splits)
qed

lemma created_start:
  assumes "chain_tame env cn" "loader_ok (cn_loader env cn)"
    "creator_Init cn (NewBlockCreator (NewContext (cn_loader env cn)) G cd) = (Inr (), bc)"
  defines "h \<equiv> blk_Header (bc_b bc)"
  shows "run_hooks cn p_Before (NewContext (cn_loader env cn)) = (Inr (), bc_ctx bc)" "created env cn h (bc_ctx bc) [] bc"
    "bh_Generator h = G" "bh_PrevHash h = ld_LastHash (cn_loader env cn)" "ctx_loader (bc_ctx bc) = cn_loader env cn"
proof -
  let ?c = "NewContext (cn_loader env cn)"
  obtain c where c: "run_hooks cn p_Before ?c = (Inr (), c)" and bc: "bc = (NewBlockCreator ?c G cd)\<lparr>bc_ctx := c\<rparr>"
    using assms(3) by (auto simp: creator_Init_def NewBlockCreator_def split: prod.splits)
  have hk: "obs (run_hooks cn p_Before)" "keeps (run_hooks cn p_Before)"
    by (intro run_hooks_tame; use assms(1) in \<open>auto simp: chain_tame_def tame_def\<close>)+
  have "ctx_wf c" "ctx_env c = ctx_env ?c" "ceq c c"
    using keepsD(1,2) [OF hk(2), of ?c] obsD(2) [OF hk(1) ceq_new [OF assms(2)]] c by simp_all
  then show "run_hooks cn p_Before ?c = (Inr (), bc_ctx bc)" "created env cn h (bc_ctx bc) [] bc"
    "bh_Generator h = G" "bh_PrevHash h = ld_LastHash (cn_loader env cn)" "ctx_loader (bc_ctx bc) = cn_loader env cn"
    using c bc by (simp_all add: h_def created_def NewBlockCreator_def cret_def ctx_env_def NewContext_def)
qed

lemma after_hooks:
  assumes "chain_tame env cn" "b = b1\<lparr>blk_Header := (blk_Header b1)\<lparr>bh_Timestamp := ts, bh_ContextHash := hh\<rparr>\<rparr>"
  shows "run_hooks cn (\<lambda>p. p_After p b1) = run_hooks cn (\<lambda>p. p_After p b)" "obs (run_hooks cn (\<lambda>p. p_After p b))"
proof -
  have "same_but_stamp b1 b" using assms(2) by (auto simp: same_but_stamp_def)
  then show "run_hooks cn (\<lambda>p. p_After p b1) = run_hooks cn (\<lambda>p. p_After p b)"
    by (intro run_hooks_cong) (use assms(1) in \<open>auto simp: chain_tame_def\<close>)
  show "obs (run_hooks cn (\<lambda>p. p_After p b))" by (rule run_hooks_tame) (use assms(1) in \<open>auto simp: chain_tame_def tame_def\<close>)
qed

lemma created_signers:
  assumes "TransactionTypes b = map ad_t as" "Transactions b = map ad_tx as" "TransactionSignatures b = map ad_sigs as"
    "\<forall>a \<in> set as. recover_signers env (added_hash env cn a) (ad_sigs a) = Inr (ad_signers a)" "k < length as"
  shows "tx_hash_at env (chainID (cn_store cn)) b k = added_hash env cn (as ! k)"
    "signers_at env (chainID (cn_store cn)) b k = Inr (ad_signers (as ! k))"
  using assms by (simp_all add: tx_hash_at_def added_hash_def signers_at_def)

text \<open>The store as a loader: no account has a name that reads as an address.\<close>

definition names_ok :: "codec \<Rightarrow> 'tx store \<Rightarrow> bool" where
  "names_ok c st \<longleftrightarrow> (\<forall>Name. st_db st (toAccountNameKey Name) \<noteq> None \<longrightarrow> ParseAddress (base58_dec c) Name \<notin> range Inr)"

lemma store_loader_ok: "names_ok c st \<Longrightarrow> loader_ok (store_loader c w st)"
  by (auto simp: loader_ok_def store_loader_def store_Account_def store_HasAccount_def store_AddressByName_def store_HasAccountName_def
      missing_account_def missing_false_def live_account_def txn_Get_def names_ok_def Let_def bind_res_def split: if_splits sum.splits option.splits)

lemma store_has_total: "has_total (store_loader c w st)"
  by (auto simp: has_total_def store_loader_def store_HasAccount_def missing_false_def live_account_def txn_Get_def bind_res_def
      split: if_splits sum.splits option.splits)

text \<open>
  C1. A created block is accepted. Take a block creator on a fresh context of a chain, let it run its first hooks,
  add any transactions, of which some may be refused, and finalize. Then another node executes the block on its own
  fresh context without an error, ends with one snapshot, and computes the context hash that the header contains.
  The transactions and hooks only use the operations of the context and do not panic, no stored name reads as an
  address, and there are at most 16 processors.
\<close>

theorem created_block_executes:
  fixes cn :: "('tx, 's) chain"
  assumes "chain_tame env cn" "names_ok (ce_codec env) (cn_store cn)"
    "0 < ce_NumCPU env" "ce_NumCPU env \<le> 16" "schedule (ce_sched env)"
    "creator_Init cn (NewBlockCreator (NewContext (cn_loader env cn)) G cd) = (Inr (), bc)"
    "Finalize env cn ts (AddTxs env cn G txs bc) = (Inr b, bc')"
  shows "\<exists>ctx. executeBlockOnContext env cn b (NewContext (cn_loader env cn)) = (Inr (), ctx)
     \<and> fst (hash_ctx env ctx) = Inr (bh_ContextHash (blk_Header b)) \<and> ctx_StackSize ctx \<le> 1"
proof -
  define h where "h = blk_Header (bc_b bc)"
  note start = created_start [OF assms(1) store_loader_ok [OF assms(2)] assms(6), folded h_def]
  obtain as where as: "created env cn h (bc_ctx bc) as (AddTxs env cn G txs bc)"
    using AddTxs_created [OF assms(1) _ start(2), of txs] start(3,5) store_has_total by auto
  let ?bc = "AddTxs env cn G txs bc"
  have bcb: "bc_b ?bc = \<lparr>blk_Header = h, TransactionTypes = map ad_t as, Transactions = map ad_tx as, TransactionSignatures = map ad_sigs as,
                TransactionResults = map ad_res as, Signatures = []\<rparr>" "bc_txHashes ?bc = bh_PrevHash h # map (added_hash env cn) as"
    and rec: "\<forall>a \<in> set as. recover_signers env (added_hash env cn a) (ad_sigs a) = Inr (ad_signers a)"
    using as by (simp_all add: created_def)
  obtain c where rep: "replay env cn G 0 as (bc_ctx bc) = (Inr True, c)" and eq: "ceq c (bc_ctx ?bc)" using as start(3) by (auto simp: created_def)
  obtain root where root: "BuildLevelRoot (ce_sha env) (ce_sched env) (bc_txHashes ?bc) = Inr root"
    using assms(7) by (auto simp: Finalize_def split: sum.splits)
  define b1 where "b1 = (bc_b ?bc)\<lparr>blk_Header := (blk_Header (bc_b ?bc))\<lparr>bh_LevelRootHash := root\<rparr>\<rparr>"
  obtain u c3 hh c4 where fin: "cbind check_stack (\<lambda>_. run_hooks cn (\<lambda>p. p_After p b1)) (bc_ctx ?bc) = (Inr u, c3)" "hash_ctx env c3 = (Inr hh, c4)"
    and b: "b = b1\<lparr>blk_Header := (blk_Header b1)\<lparr>bh_Timestamp := ts, bh_ContextHash := hh\<rparr>\<rparr>"
    using assms(7) root by (auto simp: Finalize_def Let_def b1_def split: sum.splits prod.splits)
  note hk = after_hooks [OF assms(1) b]
  have bf: "TransactionTypes b = map ad_t as" "Transactions b = map ad_tx as" "TransactionSignatures b = map ad_sigs as" "TransactionResults b = map ad_res as"
    "bh_PrevHash (blk_Header b) = bh_PrevHash h" "bh_LevelRootHash (blk_Header b) = root" "bh_Generator (blk_Header b) = G" "bh_ContextHash (blk_Header b) = hh"
    using bcb(1) start(3) by (simp_all add: b b1_def)
  note sg = created_signers [OF bf(1-3) rec]
  have sl: "slices_ok env b" using assms(3-5) bf by (simp add: slices_ok_def)
  have "map (tx_hash_at env (chainID (cn_store cn)) b) [0..<length as] = map (added_hash env cn) as"
    using sg(1) by (auto intro!: nth_equalityI)
  then have valid: "validateTransactionSignatures env cn b = Inr (map (the_signers env (chainID (cn_store cn)) b) [0..<length as])"
    using validate_signed [OF sl, of cn] sg(2) root bf bcb(2) by auto
  have exec: "exec_txs env cn b (map (the_signers env (chainID (cn_store cn)) b) [0..<length as]) 0 (Transactions b) = replay env cn G 0 as"
    by (rule exec_txs_replay) (use bf sg(2) in \<open>auto simp: the_signers_def\<close>)
  let ?last = "cbind check_stack (\<lambda>_. run_hooks cn (\<lambda>p. p_After p b))"
  have "obs ?last" using hk(2) by (intro obs_intros)
  note od = obsD [OF this eq, unfolded fin(1) [unfolded hk(1)]]
  obtain r ctx where rc: "?last c = (r, ctx)" by (rule prod.exhaust)
  have ctx: "?last c = (Inr (), ctx)" "ceq ctx c3" using od rc by simp_all
  have "executeBlockOnContext env cn b (NewContext (cn_loader env cn)) = (Inr (), ctx)"
    unfolding executeBlockOnContext_def using valid start(1) exec rep ctx(1) by (simp add: cbind_def clift_def)
  moreover have "fst (hash_ctx env ctx) = Inr (bh_ContextHash (blk_Header b))" using hash_ceq [OF ctx(2), of env] fin(2) bf(8) by simp
  moreover have "ctx_StackSize ctx \<le> 1"
    using run_hooks_clean ctx(1) by (auto simp: cbind_def split: prod.splits sum.splits)
  ultimately show ?thesis by blast
qed

section \<open>A created block\<close>

definition chain2 :: "(unit, unit) chain" where
  "chain2 = chain0\<lparr>cn_store := NewStore [toAccountKey addr0 \<mapsto> [1, 0]] None 1 ''test'' 1\<rparr>"

lemma chain2_tame: "chain_tame (env0 4) chain2"
proof -
  have ret: "tame (cret ())" by (simp add: tame_def obs_intros keeps_intros ctx_simps)
  have "fst (ctx_SetProcessData pid k v ctx) \<noteq> Inl Panic" if "ctx_wf ctx" for pid k v ctx
    unfolding ctx_SetProcessData_def on_top_def by (rule on_stack_wf [OF that])
  then have "tame (ctx_SetProcessData pid k v)" for pid k v by (simp add: tame_def obs_intros keeps_intros)
  then show ?thesis using ret by (simp add: chain_tame_def env0_def chain2_def chain0_def process0_def)
qed

lemma chain2_names: "names_ok codec0 (cn_store chain2)"
  by (auto simp: names_ok_def chain2_def NewStore_def key_defs tag_defs)

theorem created_block_executes_witness:
  "\<exists>bc b bc' ctx. creator_Init chain2 (NewBlockCreator (NewContext (cn_loader (env0 4) chain2)) addr0 []) = (Inr (), bc)
     \<and> Finalize (env0 4) chain2 7 (AddTxs (env0 4) chain2 addr0 [((), [[9]]), ((), [[1]])] bc) = (Inr b, bc') \<and> length (Transactions b) = 1
     \<and> executeBlockOnContext (env0 4) chain2 b (NewContext (cn_loader (env0 4) chain2)) = (Inr (), ctx)"
proof -
  let ?c = "NewContext (cn_loader (env0 4) chain2)"
  let ?bc = "NewBlockCreator ?c addr0 [] :: unit creator"
  have hk: "run_hooks chain2 p_Before c = (Inr (), c)" if "ctx_StackSize c \<le> 1" for c
    using that by (simp add: run_hooks_def hooks_def chain2_def chain0_def process0_def clean_def cbind_def cret_def check_stack_def)
  have hk2: "run_hooks chain2 (\<lambda>p. p_After p b) c = (Inr (), c)" if "ctx_StackSize c \<le> 1" for b c
    using that by (simp add: run_hooks_def hooks_def chain2_def chain0_def process0_def clean_def cbind_def cret_def check_stack_def)
  have init: "creator_Init chain2 ?bc = (Inr (), ?bc)"
    by (simp add: creator_Init_def NewBlockCreator_def NewContext_def hk ctx_StackSize_def)
  have has: "ld_HasAccount (cn_loader (env0 4) chain2) addr0 = Inr True"
    by (simp add: store_loader_def store_HasAccount_def chain2_def NewStore_def live_account_def txn_Get_def missing_false_def)
  have run: "\<exists>c. run_tx (env0 4) p 1 addr0 () sg 0 (\<lambda>_. cret ()) ?c = (Inr (Some 0), c) \<and> ctx_StackSize c = 1 \<and> \<not> isLatestHash c \<and> Events (hd (ctx_stack c)) = []" for p sg
    using has by (simp add: run_tx_def cbind_def ctx_Snapshot_def ctry_def env0_def cret_def ctx_SetProcessData_def on_top_def on_stack_def commit_tx_def
        ctx_HasAccount_def on_stack_res_def ctd_HasAccount.simps cc_HasAccount_def ctx_Commit_def NewContext_def NewContextData_def newContextCache_def
        ctd_SetProcessData_def set_isTop_def dirty_def Let_def commit_merge_def ctx_StackSize_def)
  then obtain c where c: "run_tx (env0 4) (process0 1) 1 addr0 () [NewPublicHash (sha codec0) [1]] 0 (\<lambda>_. cret ()) ?c = (Inr (Some 0), c)"
    "ctx_StackSize c = 1" "\<not> isLatestHash c" "Events (hd (ctx_stack c)) = []" by blast
  have add: "AddTxs (env0 4) chain2 addr0 [((), [[9]]), ((), [[1]])] ?bc =
      ?bc\<lparr>bc_ctx := c, bc_b := append_tx 0x0101 () [[1]] 0 (bc_b ?bc), bc_txHashes := bc_txHashes ?bc @ [HashTransactionByType (env0 4) 1 0x0101 ()]\<rparr>"
  proof -
    have e: "ce_TypeOf (env0 4) () = Inr 0x0101" "recover_signers (env0 4) h [[9]] = Inl ErrInvalidSignature"
      "recover_signers (env0 4) h [[1]] = Inr [NewPublicHash (sha codec0) [1]]" for h
      by (simp_all add: env0_def)
    have p: "pid_of 0x0101 = 1" "Process chain2 1 = Inr (process0 1)" "chainID (cn_store chain2) = 1"
      by (simp_all add: pid_of_def Process_def chain2_def chain0_def NewStore_def)
    show ?thesis using c(1) by (simp add: AddTx_def UnsafeAddTx_def e p NewBlockCreator_def Let_def del: recover_signers.simps)
  qed
  have sched: "schedule (ce_sched (env0 4))" by (auto simp: schedule_def env0_def)
  obtain root where root: "BuildLevelRoot (ce_sha (env0 4)) (ce_sched (env0 4)) (bc_txHashes ?bc @ [HashTransactionByType (env0 4) 1 0x0101 ()]) = Inr root"
    using BuildLevelRoot_level_root [OF sched] by (simp add: NewBlockCreator_def)
  obtain hh c4 where hash: "hash_ctx (env0 4) c = (Inr hh, c4)"
    using c by (cases "ctx_stack c") (auto simp: ctx_Hash_def ctd_Hash_def ctd_buffer_def ctx_StackSize_def label_def map_Hash_def entries_def
        sm_Encode_def sm_EachAll_def slist_def env0_def prims0_def item0_def no_orders_def Hashes_def map_filter_simps)
  obtain b bc' where fin: "Finalize (env0 4) chain2 7 (AddTxs (env0 4) chain2 addr0 [((), [[9]]), ((), [[1]])] ?bc) = (Inr b, bc')" "length (Transactions b) = 1"
    using root hash hk2 [of c] c(2) unfolding add by (simp add: Finalize_def cbind_def check_stack_def append_tx_def NewBlockCreator_def Let_def)
  have "0 < ce_NumCPU (env0 4)" "ce_NumCPU (env0 4) \<le> 16" "names_ok (ce_codec (env0 4)) (cn_store chain2)"
    using chain2_names by (simp_all add: env0_def)
  from created_block_executes [OF chain2_tame this(3,1,2) sched init fin(1)] show ?thesis using init fin by blast
qed

section \<open>A wrong sequence\<close>

lemma exec_txs_append:
  "exec_txs env cn b S i xs ctx = (Inr True, c) \<Longrightarrow> exec_txs env cn b S i (xs @ ys) ctx = exec_txs env cn b S (i + length xs) ys c"
proof (induction xs arbitrary: i ctx)
  case (Cons x xs)
  let ?pid = "pid_of (TransactionTypes b ! i)"
  obtain p r c1 where s: "Process cn ?pid = Inr p" "run_tx env p ?pid (bh_Generator (blk_Header b)) x (S ! i) i (check_result b i) ctx = (Inr (Some r), c1)"
    "exec_txs env cn b S (i + 1) xs c1 = (Inr True, c)"
    using Cons.prems by (auto simp: cbind_def clift_def cret_def Let_def split: sum.splits prod.splits option.splits)
  show ?case using Cons.IH [OF s(3)] s by (simp add: cbind_def clift_def Let_def)
qed (simp add: cret_def)

text \<open>
  C33. A transaction with a wrong sequence makes its block succeed. If the transactions before it execute, and it is
  an account transaction that validates but whose sequence is not the next one of its account, then executing the
  block returns no error: its snapshot is reverted, the transactions after it and the closing hooks are not run, and
  the state is the one before it.
\<close>

theorem wrong_seq_succeeds:
  assumes "validateTransactionSignatures env cn b = Inr S" "run_hooks cn p_Before ctx = (Inr (), c0)"
    "Transactions b = txs @ tx # rest" "exec_txs env cn b S 0 txs c0 = (Inr True, c1)" "ctx_wf c1" "ceq c1 c1"
    "Process cn pid = Inr p" "pid = pid_of (TransactionTypes b ! length txs)" "tame (ce_Validate env tx p pid (S ! length txs))"
    "ce_Validate env tx p pid (S ! length txs) (snd (ctx_Snapshot c1)) = (Inr (), c2)"
    "ce_Account env tx = Some (From, Seq)" "fst (ctx_Seq From c2) = Inr seq" "Seq \<noteq> seq + 1"
  shows "\<exists>c. executeBlockOnContext env cn b ctx = (Inr (), c) \<and> ctx_stack c = ctx_stack c1"
proof -
  let ?sn = "length (ctx_stack c1) + 1"
  have i2: "inside c1 c2" using inside_step [OF inside_Snapshot(2) [OF assms(5,6)]] assms(9,10) by (metis tame_def snd_conv)
  define c3 where "c3 = snd (ctx_Seq From c2)"
  have i3: "inside c1 c3" unfolding c3_def by (rule inside_step [OF i2]) (rule obs_intros keeps_intros)+
  have q: "ctx_Seq From c2 = (Inr seq, c3)" using assms(12) by (simp add: c3_def prod_eq_iff)
  define c where "c = snd (ctx_Revert ?sn c3)"
  have rv: "ctx_Revert ?sn c3 = (Inr (), c)" "ctx_stack c = ctx_stack c1"
    using inside_Revert [OF i3] by (simp_all add: c_def prod_eq_iff ceq_def)
  have sn: "ctx_Snapshot c1 = (Inr ?sn, snd (ctx_Snapshot c1))" using inside_Snapshot(1) [OF assms(5,6)] by (simp add: prod_eq_iff)
  have "run_tx env p pid (bh_Generator (blk_Header b)) tx (S ! length txs) (length txs) check c1 = (Inr None, c)" for check
    unfolding run_tx_def by (subst cbind_def, subst sn) (simp add: ctry_def assms(10,11) cbind_def q assms(13) rv(1) [simplified] cret_def)
  then have "exec_txs env cn b S (length txs) (tx # rest) c1 = (Inr False, c)"
    using assms(7,8) by (simp add: cbind_def clift_def Let_def cret_def)
  then have "exec_txs env cn b S 0 (Transactions b) c0 = (Inr False, c)" using exec_txs_append [OF assms(4)] assms(3) by simp
  then show ?thesis using assms(1,2) rv(2) by (auto simp: executeBlockOnContext_def cbind_def clift_def cret_def)
qed

definition env1 :: "unit chain_env" where
  "env1 = (env0 4)\<lparr>ce_Account := (\<lambda>_. Some (addr0, 5))\<rparr>"

theorem wrong_seq_succeeds_witness:
  "\<exists>b ctx. length (Transactions b) = 2 \<and> executeBlockOnContext env1 chain2 b (NewContext (cn_loader env1 chain2)) = (Inr (), ctx)
     \<and> ctx_stack ctx = ctx_stack (NewContext (cn_loader env1 chain2))"
proof -
  let ?c = "NewContext (cn_loader env1 chain2)"
  have sl: "slices_ok env1 b" if "b = (block_of [[[1]], [[1]]])\<lparr>blk_Header := h\<rparr>" for b h
    using that by (auto simp: slices_ok_def env1_def env0_def block_of_def schedule_def)
  have sched: "schedule (ce_sched env1)" by (auto simp: schedule_def env1_def env0_def)
  have at: "tx_hash_at env1 C ((block_of [[[1]], [[1]]])\<lparr>blk_Header := h\<rparr>) = tx_hash_at env1 C (block_of [[[1]], [[1]]])" for C h
    by (rule ext) (simp add: tx_hash_at_def)
  obtain root where root: "BuildLevelRoot (ce_sha env1) (ce_sched env1) (bh_PrevHash header0 # map (tx_hash_at env1 1 (block_of [[[1]], [[1]]])) [0..<2]) = Inr root"
    using BuildLevelRoot_level_root [OF sched] by simp
  define b where "b = (block_of [[[1]], [[1]]])\<lparr>blk_Header := header0\<lparr>bh_LevelRootHash := root\<rparr>\<rparr>"
  have len: "length (Transactions b) = 2" "Transactions b = [] @ () # [()]" "TransactionTypes b ! 0 = 0x0101" by (simp_all add: b_def block_of_def)
  have sig: "\<forall>k < length (Transactions b). \<exists>s. signers_at env1 (chainID (cn_store chain2)) b k = Inr s"
    by (auto simp: signers_at_def b_def block_of_def env1_def env0_def less_Suc_eq)
  have "chainID (cn_store chain2) = 1" by (simp add: chain2_def NewStore_def)
  then obtain S where valid: "validateTransactionSignatures env1 chain2 b = Inr S"
    using validate_signed [OF sl [OF b_def], of chain2] sig root unfolding len(1) by (simp add: b_def at)
  have hk: "run_hooks chain2 p_Before ?c = (Inr (), ?c)"
    by (simp add: run_hooks_def hooks_def chain2_def chain0_def process0_def clean_def cbind_def cret_def check_stack_def NewContext_def ctx_StackSize_def)
  have wf: "ctx_wf ?c" "ceq ?c ?c" using ceq_new [OF store_loader_ok [OF chain2_names]] by (simp_all add: env1_def env0_def)
  have pr: "pid_of 0x0101 = 1" "Process chain2 1 = Inr (process0 1)" by (simp_all add: pid_of_def Process_def chain2_def chain0_def)
  have va: "ce_Validate env1 = (\<lambda>_ _ _ _. cret ())" by (simp add: env1_def env0_def)
  have seq: "fst (ctx_Seq addr0 (snd (ctx_Snapshot ?c))) = Inr 0"
    by (simp add: ctx_Seq_def on_stack_def ctx_Snapshot_def NewContext_def NewContextData_def Let_def set_isTop_def dirty_def ctd_Seq.simps cc_Seq_def
        newContextCache_def store_loader_def store_Seq_def chain2_def NewStore_def txn_Get_def key_defs tag_defs)
  have tv: "tame (ce_Validate env1 () (process0 1) 1 sg)" for sg unfolding va by (simp add: tame_def obs_intros keeps_intros ctx_simps)
  have vd: "ce_Validate env1 () (process0 1) 1 sg ctx = (Inr (), ctx)" for sg ctx by (simp add: va cret_def)
  have acc: "ce_Account env1 () = Some (addr0, 5)" by (simp add: env1_def)
  have pre: "exec_txs env1 chain2 b S 0 [] ?c = (Inr True, ?c)" by (simp add: cret_def)
  have "\<exists>c. executeBlockOnContext env1 chain2 b ?c = (Inr (), c) \<and> ctx_stack c = ctx_stack ?c"
    by (rule wrong_seq_succeeds [OF valid hk len(2) pre wf pr(2) _ tv vd acc seq]) (simp_all add: pr(1) len(3))
  then show ?thesis using len(1) by blast
qed

end
