(* ===== verification/Rank_Table.thy ===== *)
theory Rank_Table
  imports Ordered_Maps
begin

text \<open>
  The ranks of the formulators (\<open>pof/rank.go\<close>) and the table that orders them (\<open>pof/rank_table.go\<close>). A rank of a table
  is one object that the list and the map both point to; a change of it is written to both.
\<close>

section \<open>Ranks\<close>

record rank =
  rk_Address :: address
  rk_PublicHash :: public_hash
  phase :: u32
  hashSpace :: hash256
  score :: u64

text \<open>\<open>uint64(phase)<<32 + uint64(util.BytesToUint32(hashSpace[:4]))\<close>\<close>

definition rank_score :: "u32 \<Rightarrow> hash256 \<Rightarrow> u64" where
  "rank_score ph hs = push_bit 32 (ucast ph) + ucast (word_of_nat (le_to_nat (take 4 hs)) :: u32)"

definition rank_update :: "rank \<Rightarrow> rank" where
  "rank_update r = r\<lparr>score := rank_score (phase r) (hashSpace r)\<rparr>"

definition NewRank :: "address \<Rightarrow> public_hash \<Rightarrow> u32 \<Rightarrow> hash256 \<Rightarrow> rank" where
  "NewRank Address PublicHash ph hs =
     rank_update \<lparr>rk_Address = Address, rk_PublicHash = PublicHash, phase = ph, hashSpace = hs, score = 0\<rparr>"

definition rank_Clone :: "rank \<Rightarrow> rank" where
  "rank_Clone r = NewRank (rk_Address r) (rk_PublicHash r) (phase r) (hashSpace r)"

definition rank_Less :: "rank \<Rightarrow> rank \<Rightarrow> bool" where
  "rank_Less r b \<longleftrightarrow> score r < score b \<or> (score r = score b \<and> rk_Address r < rk_Address b)"

definition rank_Equal :: "rank \<Rightarrow> rank \<Rightarrow> bool" where
  "rank_Equal r b \<longleftrightarrow> score r = score b \<and> rk_Address r = rk_Address b"

definition rank_IsZero :: "rank \<Rightarrow> bool" where
  "rank_IsZero r \<longleftrightarrow> score r = 0 \<and> rk_Address r = replicate AddressSize 0"

definition rank_Set :: "u32 \<Rightarrow> hash256 \<Rightarrow> rank \<Rightarrow> rank" where
  "rank_Set ph hs r = rank_update (r\<lparr>phase := ph, hashSpace := hs\<rparr>)"

definition rank_SetPhase :: "u32 \<Rightarrow> rank \<Rightarrow> rank" where
  "rank_SetPhase ph r = rank_update (r\<lparr>phase := ph\<rparr>)"

definition rank_SetHashSpace :: "hash256 \<Rightarrow> rank \<Rightarrow> rank" where
  "rank_SetHashSpace hs r = rank_update (r\<lparr>hashSpace := hs\<rparr>)"

definition rank_Key :: "rank \<Rightarrow> bytes" where
  "rank_Key r = rk_Address r @ [44] @ Uint64ToBytes (score r)"

definition rank_String :: "(bytes \<Rightarrow> string) \<Rightarrow> rank \<Rightarrow> string" where
  "rank_String enc r = addr_String enc (rk_Address r) @ '','' @ hex_encode (Uint64ToBytes (score r))"

text \<open>The encoding of a rank leaves out the score, and decoding does not compute it. \<open>ch\<close> is the codec of hashes.\<close>

definition enc_Rank :: "prims \<Rightarrow> hash256 item_codec \<Rightarrow> rank \<Rightarrow> bytes res" where
  "enc_Rank P ch r = concat_res id [it_enc (pr_Address P) (rk_Address r), it_enc (pr_PublicHash P) (rk_PublicHash r),
     it_enc (pr_u32 P) (phase r), it_enc ch (hashSpace r)]"

definition dec_Rank :: "prims \<Rightarrow> hash256 item_codec \<Rightarrow> rank decoder" where
  "dec_Rank P ch bs =
     bind_res (it_dec (pr_Address P) bs) (\<lambda>(Address, bs).
     bind_res (it_dec (pr_PublicHash P) bs) (\<lambda>(PublicHash, bs).
     bind_res (it_dec (pr_u32 P) bs) (\<lambda>(ph, bs).
     bind_res (it_dec ch bs) (\<lambda>(hs, bs).
     Inr (\<lparr>rk_Address = Address, rk_PublicHash = PublicHash, phase = ph, hashSpace = hs, score = 0\<rparr>, bs)))))"

section \<open>The table\<close>

record rank_table =
  rt_height :: u32
  candidates :: "rank list"
  rankMap :: "address \<rightharpoonup> rank"

definition NewRankTable :: rank_table where
  "NewRankTable = \<lparr>rt_height = 0, candidates = [], rankMap = Map.empty\<rparr>"

definition rt_Candidates :: "rank_table \<Rightarrow> rank list" where
  "rt_Candidates rt = map rank_Clone (candidates rt)"

definition CandidateCount :: "rank_table \<Rightarrow> nat" where "CandidateCount rt = length (candidates rt)"

definition TopRank :: "nat \<Rightarrow> rank_table \<Rightarrow> rank res" where
  "TopRank TimeoutCount rt =
     (if length (candidates rt) \<le> TimeoutCount then Inl ErrInsufficientCandidateCount
      else Inr (rank_Clone (candidates rt ! TimeoutCount)))"

text \<open>A map of connected formulators, as the list of its entries.\<close>

type_synonym formulator_map = "(address \<times> bool) list"

definition in_map :: "formulator_map \<Rightarrow> address \<Rightarrow> bool" where
  "in_map FormulatorMap addr \<longleftrightarrow> map_of FormulatorMap addr = Some True"

fun top_in_map :: "formulator_map \<Rightarrow> nat \<Rightarrow> rank list \<Rightarrow> (rank \<times> nat) res" where
  "top_in_map fm i [] = Inl ErrInsufficientCandidateCount"
| "top_in_map fm i (r # rs) = (if in_map fm (rk_Address r) then Inr (r, i) else top_in_map fm (i + 1) rs)"

definition TopRankInMap :: "formulator_map \<Rightarrow> rank_table \<Rightarrow> (rank \<times> nat) res" where
  "TopRankInMap fm rt = (if fm = [] then Inl ErrInsufficientCandidateCount else top_in_map fm 0 (candidates rt))"

fun ranks_loop :: "formulator_map \<Rightarrow> nat \<Rightarrow> rank list \<Rightarrow> rank list \<Rightarrow> rank list" where
  "ranks_loop fm Limit [] acc = acc"
| "ranks_loop fm Limit (r # rs) acc =
     (if in_map fm (rk_Address r)
      then (if Limit \<le> length (acc @ [r]) then acc @ [r] else ranks_loop fm Limit rs (acc @ [r]))
      else ranks_loop fm Limit rs acc)"

definition RanksInMap :: "formulator_map \<Rightarrow> int \<Rightarrow> rank_table \<Rightarrow> rank list res" where
  "RanksInMap fm Limit rt =
     (if fm = [] then Inl ErrInsufficientCandidateCount
      else Inr (ranks_loop fm (nat (if Limit < 1 then 1 else Limit)) (candidates rt) []))"

definition rt_IsFormulator :: "address \<Rightarrow> public_hash \<Rightarrow> rank_table \<Rightarrow> bool" where
  "rt_IsFormulator Formulator Publichash rt \<longleftrightarrow>
     (case rankMap rt Formulator of None \<Rightarrow> False | Some r \<Rightarrow> rk_PublicHash r = Publichash)"

definition smallestPhase :: "rank_table \<Rightarrow> u32" where
  "smallestPhase rt = (if candidates rt = [] then 0 else phase (candidates rt ! 0))"

definition largestPhase :: "rank_table \<Rightarrow> u32" where
  "largestPhase rt = (if candidates rt = [] then 0 else phase (candidates rt ! (length (candidates rt) - 1)))"

definition InsertRankToList :: "rank list \<Rightarrow> rank \<Rightarrow> rank list" where
  "InsertRankToList ranks s =
     (let idx = sort_Search (length ranks) (\<lambda>i. rank_Less s (ranks ! i));
          ranks = ranks @ [s]
      in (copy_at (idx + 1) (drop idx ranks) ranks)[idx := s])"

definition addRank :: "rank \<Rightarrow> rank_table \<Rightarrow> rank_table res" where
  "addRank s rt =
     (if candidates rt \<noteq> [] \<and> phase s < phase (candidates rt ! 0) then Inl ErrInvalidPhase
      else if rankMap rt (rk_Address s) \<noteq> None then Inl ErrExistAddress_pof
      else Inr (rt\<lparr>candidates := InsertRankToList (candidates rt) s, rankMap := (rankMap rt)(rk_Address s \<mapsto> s)\<rparr>))"

definition removeRank :: "address \<Rightarrow> rank_table \<Rightarrow> rank_table" where
  "removeRank addr rt =
     (if rankMap rt addr \<noteq> None
      then rt\<lparr>rankMap := (rankMap rt)(addr := None), candidates := filter (\<lambda>s. rk_Address s \<noteq> addr) (candidates rt)\<rparr>
      else rt)"

text \<open>The changed first rank \<open>m\<close> is moved behind the ranks that come before it.\<close>

definition move_top :: "rank \<Rightarrow> rank_table \<Rightarrow> rank_table" where
  "move_top m rt =
     (let cs = candidates rt;
          idx = sort_Search (length cs - 1) (\<lambda>i. rank_Less m (cs ! (i + 1)))
      in rt\<lparr>candidates := (go_copy cs (slice 1 (idx + 1) cs))[idx := m], rankMap := (rankMap rt)(rk_Address m \<mapsto> m)\<rparr>)"

fun forward_loop :: "nat \<Rightarrow> rank_table \<Rightarrow> rank_table" where
  "forward_loop 0 rt = rt"
| "forward_loop (Suc n) rt =
     (let m = candidates rt ! 0 in forward_loop n (move_top (rank_SetPhase (phase m + 2) m) rt))"

definition forwardCandidates :: "nat \<Rightarrow> rank_table \<Rightarrow> rank_table res" where
  "forwardCandidates TimeoutCount rt =
     (if length (candidates rt) \<le> TimeoutCount then Inl ErrExceedCandidateCount
      else Inr (forward_loop TimeoutCount rt))"

definition forwardTop :: "hash256 \<Rightarrow> rank_table \<Rightarrow> rank_table res" where
  "forwardTop LastTableAppendHash rt =
     (case candidates rt of
        [] \<Rightarrow> Inl Panic
      | tp # _ \<Rightarrow>
          let rt = move_top (rank_Set (phase tp + 1) LastTableAppendHash tp) rt
          in Inr (rt\<lparr>rt_height := rt_height rt + 1\<rparr>))"

text \<open>Encoding of a table: the map and the scores are built again when it is read.\<close>

definition enc_RankTable :: "prims \<Rightarrow> hash256 item_codec \<Rightarrow> rank_table \<Rightarrow> bytes res" where
  "enc_RankTable P ch rt =
     concat_res id (it_enc (pr_u32 P) (rt_height rt) # it_enc (pr_Len P) (length (candidates rt)) # map (enc_Rank P ch) (candidates rt))"

fun dec_ranks :: "prims \<Rightarrow> hash256 item_codec \<Rightarrow> nat \<Rightarrow> rank_table \<Rightarrow> rank_table decoder" where
  "dec_ranks P ch 0 item bs = Inr (item, bs)"
| "dec_ranks P ch (Suc n) item bs =
     bind_res (dec_Rank P ch bs) (\<lambda>(s, bs).
       let s = rank_update s
       in dec_ranks P ch n (item\<lparr>candidates := candidates item @ [s], rankMap := (rankMap item)(rk_Address s \<mapsto> s)\<rparr>) bs)"

definition dec_RankTable :: "prims \<Rightarrow> hash256 item_codec \<Rightarrow> rank_table decoder" where
  "dec_RankTable P ch bs =
     bind_res (it_dec (pr_u32 P) bs) (\<lambda>(v, bs).
     bind_res (it_dec (pr_Len P) bs) (\<lambda>(Len, bs).
     dec_ranks P ch Len (NewRankTable\<lparr>rt_height := v\<rparr>) bs))"

end
