(* ===== verification/Rank_Laws.thy ===== *)
theory Rank_Laws
  imports Rank_Table "HOL-Library.Multiset"
begin

text \<open>
  The rank table is an ordered list of distinct formulators, whatever operations are applied to it, and every
  formulator comes to its top.
\<close>

section \<open>Order\<close>

lemma rank_Less_trans: "rank_Less a b \<Longrightarrow> rank_Less b c \<Longrightarrow> rank_Less a c"
  by (auto simp: rank_Less_def)

lemma rank_Less_irrefl [simp]: "\<not> rank_Less a a"
  by (simp add: rank_Less_def)

lemma rank_Less_linear: "rk_Address a \<noteq> rk_Address b \<Longrightarrow> \<not> rank_Less a b \<Longrightarrow> rank_Less b a"
  by (auto simp: rank_Less_def)

text \<open>Insertion into an ordered list, as a specification.\<close>

definition insert_rank :: "rank \<Rightarrow> rank list \<Rightarrow> rank list" where
  "insert_rank m rs = takeWhile (\<lambda>r. \<not> rank_Less m r) rs @ m # dropWhile (\<lambda>r. \<not> rank_Less m r) rs"

lemma search_rank:
  assumes "sorted_wrt rank_Less xs"
  shows "sort_Search (length xs) (\<lambda>i. rank_Less m (xs ! i)) = length (takeWhile (\<lambda>r. \<not> rank_Less m r) xs)"
    (is "?k = length ?t")
proof -
  have up: "upward (length xs) (\<lambda>i. rank_Less m (xs ! i))" unfolding upward_def
    using sorted_wrt_nth_less [OF assms] rank_Less_trans by (metis le_neq_implies_less)
  note s = sort_Search_spec [OF up]
  have "\<not> ?k < length ?t"
  proof
    assume lt: "?k < length ?t"
    then have "?k < length xs" using length_takeWhile_le [of "\<lambda>r. \<not> rank_Less m r" xs] by linarith
    then show False using s(3) [of ?k] nth_mem [OF lt] takeWhile_nth [OF lt] by (auto dest: set_takeWhileD)
  qed
  moreover have "\<not> length ?t < ?k"
  proof
    assume lt: "length ?t < ?k"
    then have "length ?t < length xs" using s(1) by linarith
    then show False using s(2) [OF lt] nth_length_takeWhile by blast
  qed
  ultimately show ?thesis by linarith
qed

lemma insert_at:
  "length t = idx \<Longrightarrow> (copy_at (idx + 1) (drop idx ((t @ d) @ [s])) ((t @ d) @ [s]))[idx := s] = t @ s # d"
  by (cases d) (simp_all add: copy_at_def go_copy_def list_update_append)

lemma InsertRankToList_eq: "sorted_wrt rank_Less xs \<Longrightarrow> InsertRankToList xs s = insert_rank s xs"
  using insert_at [OF search_rank [symmetric], of xs s "dropWhile (\<lambda>r. \<not> rank_Less s r) xs" s]
  by (simp only: InsertRankToList_def insert_rank_def Let_def takeWhile_dropWhile_id)

lemma move_at:
  "length t = idx \<Longrightarrow> (go_copy (tp # t @ d) (slice 1 (idx + 1) (tp # t @ d)))[idx := m] = t @ m # d"
proof -
  assume idx: "length t = idx"
  have "drop idx (tp # t @ d) = (if t = [] then tp else last t) # d"
    using idx by (cases t rule: rev_cases) auto
  then show ?thesis using idx by (simp add: go_copy_def slice_def list_update_append)
qed

lemma move_top_eq:
  assumes "candidates rt = tp # xs" "sorted_wrt rank_Less xs"
  shows "candidates (move_top m rt) = insert_rank m xs" "rankMap (move_top m rt) = (rankMap rt)(rk_Address m \<mapsto> m)"
    "rt_height (move_top m rt) = rt_height rt"
  using move_at [OF search_rank [OF assms(2), symmetric], of tp m "dropWhile (\<lambda>r. \<not> rank_Less m r) xs" m]
  by (simp_all add: move_top_def Let_def assms(1) insert_rank_def)

lemma insert_rank_sorted:
  assumes "sorted_wrt rank_Less xs" "rk_Address m \<notin> rk_Address ` set xs"
  shows "sorted_wrt rank_Less (insert_rank m xs)"
proof -
  let ?P = "\<lambda>r. \<not> rank_Less m r"
  define t d where "t = takeWhile ?P xs" and "d = dropWhile ?P xs"
  have s: "sorted_wrt rank_Less t" "sorted_wrt rank_Less d" "\<forall>x \<in> set t. \<forall>y \<in> set d. rank_Less x y"
    using assms(1) takeWhile_dropWhile_id [of ?P xs] unfolding t_def d_def by (metis sorted_wrt_append)+
  have below: "\<forall>r \<in> set t. rank_Less r m"
    unfolding t_def using set_takeWhileD [of _ ?P xs] assms(2) by (metis imageI rank_Less_linear)
  have above: "\<forall>r \<in> set d. rank_Less m r"
  proof (cases d)
    case (Cons y ys)
    then have "rank_Less m y" using hd_dropWhile [of ?P xs] by (simp add: d_def)
    then show ?thesis using s(2) Cons rank_Less_trans by auto
  qed simp
  show ?thesis using s below above by (auto simp: insert_rank_def sorted_wrt_append simp flip: t_def d_def)
qed

lemma mset_insert_rank: "mset (insert_rank m xs) = add_mset m (mset xs)"
  by (simp add: insert_rank_def) (metis mset_append takeWhile_dropWhile_id)

lemma set_insert_rank [simp]: "set (insert_rank m xs) = insert m (set xs)" "length (insert_rank m xs) = Suc (length xs)"
  using mset_insert_rank [of m xs] by (metis set_mset_add_mset_insert set_mset_mset, metis size_add_mset size_mset)

section \<open>The invariant\<close>

text \<open>
  The candidates are in strictly increasing order, have different addresses and up-to-date scores, and the map holds
  exactly them.
\<close>

definition rank_map :: "rank list \<Rightarrow> address \<rightharpoonup> rank" where
  "rank_map rs = map_of (map (\<lambda>r. (rk_Address r, r)) rs)"

definition rt_wf :: "rank_table \<Rightarrow> bool" where
  "rt_wf rt \<longleftrightarrow> sorted_wrt rank_Less (candidates rt) \<and> distinct (map rk_Address (candidates rt))
     \<and> rankMap rt = rank_map (candidates rt) \<and> (\<forall>r \<in> set (candidates rt). rank_update r = r)"

lemma rank_map_Some: "distinct (map rk_Address rs) \<Longrightarrow> rank_map rs a = Some r \<longleftrightarrow> r \<in> set rs \<and> rk_Address r = a"
  by (auto simp: rank_map_def comp_def)

lemma rank_map_None: "rank_map rs a = None \<longleftrightarrow> a \<notin> rk_Address ` set rs"
  by (auto simp: rank_map_def map_of_eq_None_iff image_image)

lemma rank_map_ext:
  assumes "distinct (map rk_Address rs)" "\<And>a r. m a = Some r \<longleftrightarrow> r \<in> set rs \<and> rk_Address r = a"
  shows "m = rank_map rs"
proof
  fix a show "m a = rank_map rs a"
    using assms(2) rank_map_Some [OF assms(1)] by (metis option.exhaust)
qed

lemma rank_setters [simp]:
  "rk_Address (rank_update r) = rk_Address r" "rk_Address (rank_SetPhase p r) = rk_Address r"
  "rk_Address (rank_Set p h r) = rk_Address r" "rk_Address (NewRank a ph p h) = a" "rk_PublicHash (NewRank a ph p h) = ph"
  "phase (rank_SetPhase p r) = p" "phase (rank_Set p h r) = p" "phase (NewRank a ph p h) = p" "hashSpace (NewRank a ph p h) = h"
  "rank_update (rank_SetPhase p r) = rank_SetPhase p r" "rank_update (rank_Set p h r) = rank_Set p h r"
  "rank_update (NewRank a ph p h) = NewRank a ph p h"
  by (simp_all add: rank_update_def rank_SetPhase_def rank_Set_def NewRank_def)

lemma rank_Clone_id: "rank_update r = r \<Longrightarrow> rank_Clone r = r"
  by (simp add: rank_Clone_def NewRank_def rank_update_def) (metis (mono_tags, lifting) rank.surjective rank.update_convs(5) old.unit.exhaust)

lemma distinct_insert_rank: "distinct (map rk_Address (insert_rank m xs)) \<longleftrightarrow> rk_Address m \<notin> rk_Address ` set xs \<and> distinct (map rk_Address xs)"
proof -
  have "mset (map rk_Address (insert_rank m xs)) = mset (rk_Address m # map rk_Address xs)" by (simp add: mset_insert_rank)
  then have "distinct (map rk_Address (insert_rank m xs)) = distinct (rk_Address m # map rk_Address xs)" by (rule mset_eq_imp_distinct_iff)
  then show ?thesis by simp
qed

lemma addRank_wf:
  assumes "rt_wf rt" "addRank s rt = Inr rt'" "rank_update s = s"
  shows "rt_wf rt'" "candidates rt' = insert_rank s (candidates rt)" "rt_height rt' = rt_height rt"
proof -
  have rt': "rt' = rt\<lparr>candidates := insert_rank s (candidates rt), rankMap := (rankMap rt)(rk_Address s \<mapsto> s)\<rparr>"
    and new: "rk_Address s \<notin> rk_Address ` set (candidates rt)"
    using assms by (auto simp: addRank_def rt_wf_def InsertRankToList_eq rank_map_None split: if_splits)
  have d: "distinct (map rk_Address (insert_rank s (candidates rt)))" using assms(1) new by (simp add: distinct_insert_rank rt_wf_def)
  have "(rankMap rt)(rk_Address s \<mapsto> s) = rank_map (insert_rank s (candidates rt))"
    by (rule rank_map_ext [OF d]) (use assms(1) new in \<open>auto simp: rt_wf_def rank_map_Some image_iff\<close>)
  then show "rt_wf rt'" using assms(1,3) d new by (auto simp: rt' rt_wf_def insert_rank_sorted)
qed (use assms in \<open>auto simp: addRank_def rt_wf_def InsertRankToList_eq split: if_splits\<close>)

lemma removeRank_wf:
  assumes "rt_wf rt"
  shows "rt_wf (removeRank addr rt)" "candidates (removeRank addr rt) = filter (\<lambda>s. rk_Address s \<noteq> addr) (candidates rt)"
    "rt_height (removeRank addr rt) = rt_height rt"
proof -
  let ?cs = "filter (\<lambda>s. rk_Address s \<noteq> addr) (candidates rt)"
  have same: "rankMap rt addr = None \<Longrightarrow> ?cs = candidates rt"
    using assms by (auto simp: rt_wf_def rank_map_None intro: filter_True)
  then show c: "candidates (removeRank addr rt) = ?cs" by (simp add: removeRank_def)
  have d: "distinct (map rk_Address ?cs)" using assms by (simp add: rt_wf_def distinct_map_filter)
  have "(rankMap rt)(addr := None) = rank_map ?cs"
    by (rule rank_map_ext [OF d]) (use assms in \<open>auto simp: rt_wf_def rank_map_Some\<close>)
  then have "rankMap (removeRank addr rt) = rank_map ?cs"
    using assms same by (auto simp: removeRank_def rt_wf_def)
  then show "rt_wf (removeRank addr rt)" using assms d c by (auto simp: rt_wf_def sorted_wrt_filter)
qed (simp add: removeRank_def)

lemma move_top_wf:
  assumes "rt_wf rt" "candidates rt = tp # xs" "rk_Address m = rk_Address tp" "rank_update m = m"
  shows "rt_wf (move_top m rt)" "candidates (move_top m rt) = insert_rank m xs"
proof -
  have xs: "sorted_wrt rank_Less xs" "rk_Address m \<notin> rk_Address ` set xs" "distinct (map rk_Address xs)"
    using assms by (auto simp: rt_wf_def)
  show c: "candidates (move_top m rt) = insert_rank m xs" by (rule move_top_eq(1) [OF assms(2) xs(1)])
  have d: "distinct (map rk_Address (insert_rank m xs))" using xs by (simp add: distinct_insert_rank)
  have "(rankMap rt)(rk_Address m \<mapsto> m) = rank_map (insert_rank m xs)"
    by (rule rank_map_ext [OF d]) (use assms xs in \<open>auto simp: rt_wf_def rank_map_Some image_iff\<close>)
  then show "rt_wf (move_top m rt)"
    using assms xs d c insert_rank_sorted by (auto simp: rt_wf_def move_top_eq(2) [OF assms(2) xs(1)])
qed

lemma forward_loop_wf:
  "rt_wf rt \<Longrightarrow> n < length (candidates rt) \<Longrightarrow> rt_wf (forward_loop n rt) \<and> length (candidates (forward_loop n rt)) = length (candidates rt)
     \<and> rk_Address ` set (candidates (forward_loop n rt)) = rk_Address ` set (candidates rt)"
proof (induction n arbitrary: rt)
  case (Suc n)
  then obtain tp xs where cs: "candidates rt = tp # xs" by (cases "candidates rt") auto
  let ?m = "rank_SetPhase (phase tp + 2) tp"
  have "rt_wf (move_top ?m rt)" "candidates (move_top ?m rt) = insert_rank ?m xs"
    using move_top_wf [OF Suc.prems(1) cs, of ?m] by simp_all
  then show ?case using Suc.IH [of "move_top ?m rt"] Suc.prems(2) cs by (simp add: Let_def)
qed simp

lemma forwardTop_wf:
  assumes "rt_wf rt" "forwardTop h rt = Inr rt'"
  shows "rt_wf rt'" "length (candidates rt') = length (candidates rt)" "rk_Address ` set (candidates rt') = rk_Address ` set (candidates rt)"
proof -
  obtain tp xs where cs: "candidates rt = tp # xs" using assms(2) by (cases "candidates rt") (auto simp: forwardTop_def)
  let ?m = "rank_Set (phase tp + 1) h tp"
  have m: "rt_wf (move_top ?m rt)" "candidates (move_top ?m rt) = insert_rank ?m xs"
    using move_top_wf [OF assms(1) cs, of ?m] by simp_all
  have rt': "rt' = (move_top ?m rt)\<lparr>rt_height := rt_height (move_top ?m rt) + 1\<rparr>" using assms(2) cs by (auto simp: forwardTop_def Let_def)
  show "rt_wf rt'" using m(1) by (simp add: rt' rt_wf_def)
  show "length (candidates rt') = length (candidates rt)" "rk_Address ` set (candidates rt') = rk_Address ` set (candidates rt)"
    using m(2) cs by (simp_all add: rt')
qed

section \<open>Every formulator leads\<close>

lemma unat_rank_score: "unat (rank_score p h) = unat p * 2 ^ 32 + unat (word_of_nat (le_to_nat (take 4 h)) :: u32)"
proof -
  define x :: u32 where "x = word_of_nat (le_to_nat (take 4 h))"
  have b: "unat p < 2 ^ 32" "unat x < 2 ^ 32" using unat_lt_widths(2) by simp_all
  have "unat (ucast p :: u64) = unat p" "unat (ucast x :: u64) = unat x"
    using b by (simp_all add: unsigned_ucast_eq take_bit_eq_mod)
  moreover have "unat (push_bit 32 (ucast p :: u64)) = unat p * 2 ^ 32"
    using b calculation(1) by (simp add: push_bit_eq_mult unat_word_ariths)
  ultimately have "unat (push_bit 32 (ucast p :: u64) + ucast x) = unat p * 2 ^ 32 + unat x"
    using b by (simp add: unat_word_ariths)
  then show ?thesis by (simp add: rank_score_def x_def)
qed

lemma rank_Less_phase:
  assumes "rank_Less a b" "rank_update a = a" "rank_update b = b"
  shows "phase a \<le> phase b"
proof -
  have s: "score r = rank_score (phase r) (hashSpace r)" if "rank_update r = r" for r
    using that by (metis (no_types, lifting) rank.select_convs(5) rank.surjective rank.update_convs(5) rank_update_def)
  have "unat (score a) \<le> unat (score b)" using assms(1) by (auto simp: rank_Less_def word_less_nat_alt)
  then have "unat (phase a) * 2 ^ 32 + unat (word_of_nat (le_to_nat (take 4 (hashSpace a))) :: u32)
      \<le> unat (phase b) * 2 ^ 32 + unat (word_of_nat (le_to_nat (take 4 (hashSpace b))) :: u32)"
    unfolding s [OF assms(2)] s [OF assms(3)] unat_rank_score .
  then have "unat (phase a) \<le> unat (phase b)"
    using unat_lt_widths(2) [of "word_of_nat (le_to_nat (take 4 (hashSpace b)))"] by simp
  then show ?thesis by (simp add: word_le_nat_alt)
qed

text \<open>
  A turn of the table: the first formulator made its blocks (\<open>forwardTop\<close>), or timed out and is skipped, which is
  what each round of the loop of \<open>forwardCandidates\<close> does.
\<close>

datatype turn = Made hash256 | TimedOut

fun take_turn :: "turn \<Rightarrow> rank_table \<Rightarrow> rank_table res" where
  "take_turn (Made h) rt = forwardTop h rt"
| "take_turn TimedOut rt = forwardCandidates 1 rt"

fun take_turns :: "turn list \<Rightarrow> rank_table \<Rightarrow> rank_table res" where
  "take_turns [] rt = Inr rt"
| "take_turns (t # ts) rt = bind_res (take_turn t rt) (take_turns ts)"

lemma forwardCandidates_turns:
  "rt_wf rt \<Longrightarrow> n < length (candidates rt) \<Longrightarrow> take_turns (replicate n TimedOut) rt = forwardCandidates n rt"
proof (induction n arbitrary: rt)
  case (Suc n)
  have "forwardCandidates 1 rt = Inr (forward_loop 1 rt)" using Suc.prems(2) by (simp add: forwardCandidates_def)
  moreover have "forward_loop (Suc n) rt = forward_loop n (forward_loop 1 rt)" by (simp add: Let_def)
  moreover note Suc.IH [of "forward_loop 1 rt"] forward_loop_wf [OF Suc.prems(1), of 1] Suc.prems(2)
  ultimately show ?case by (simp add: forwardCandidates_def del: forward_loop.simps)
qed (simp add: forwardCandidates_def)

text \<open>The number of turns a formulator waits at most: how far the others are below the phase behind its own.\<close>

definition waits :: "rank \<Rightarrow> rank list \<Rightarrow> nat" where
  "waits c rs = (\<Sum>r \<leftarrow> rs. if rk_Address r = rk_Address c then 0 else unat (phase c) + 1 - unat (phase r))"

lemma waits_mset: "mset xs = mset ys \<Longrightarrow> waits c xs = waits c ys"
  unfolding waits_def sum_mset_sum_list [symmetric] mset_map by simp

lemma turn_step:
  assumes "rt_wf rt" "candidates rt = tp # xs" "xs \<noteq> []"
  shows "\<exists>rt' m. take_turn t rt = Inr rt' \<and> rt_wf rt' \<and> candidates rt' = insert_rank m xs
     \<and> rk_Address m = rk_Address tp \<and> (phase m = phase tp + 1 \<or> phase m = phase tp + 2)"
proof (cases t)
  case (Made h)
  let ?m = "rank_Set (phase tp + 1) h tp"
  have "take_turn t rt = Inr ((move_top ?m rt)\<lparr>rt_height := rt_height (move_top ?m rt) + 1\<rparr>)"
    using assms(2) by (simp add: Made forwardTop_def Let_def)
  moreover note move_top_wf [OF assms(1,2), of ?m]
  ultimately show ?thesis using forwardTop_wf(1) [OF assms(1), of h] Made
    by (intro exI [of _ "(move_top ?m rt)\<lparr>rt_height := rt_height (move_top ?m rt) + 1\<rparr>"] exI [of _ ?m]) simp
next
  case TimedOut
  let ?m = "rank_SetPhase (phase tp + 2) tp"
  have "take_turn t rt = Inr (move_top ?m rt)" using assms(2,3) by (simp add: TimedOut forwardCandidates_def Let_def)
  then show ?thesis using move_top_wf [OF assms(1,2), of ?m] by (intro exI [of _ "move_top ?m rt"] exI [of _ ?m]) simp
qed

lemma wait_less:
  assumes "rt_wf rt" "candidates rt = tp # xs" "c \<in> set xs" "unat (phase c) + 2 < 2 ^ 32"
    "rk_Address m = rk_Address tp" "phase m = phase tp + 1 \<or> phase m = phase tp + 2"
  shows "waits c (insert_rank m xs) < waits c (tp # xs)"
proof -
  have ne: "rk_Address tp \<noteq> rk_Address c" using assms(1-3) by (auto simp: rt_wf_def)
  have "phase tp \<le> phase c" using assms(1-3) rank_Less_phase [of tp c] by (auto simp: rt_wf_def)
  then have le: "unat (phase tp) \<le> unat (phase c)" by (simp add: word_le_nat_alt)
  have "unat (phase tp) < unat (phase m)"
    using assms(6) le assms(4) by (auto simp: unat_word_ariths)
  then have "unat (phase c) + 1 - unat (phase m) < unat (phase c) + 1 - unat (phase tp)" using le by linarith
  moreover have "waits c (insert_rank m xs) = waits c (m # xs)" by (rule waits_mset) (simp add: mset_insert_rank)
  ultimately show ?thesis using ne assms(5) by (simp add: waits_def)
qed

text \<open>
  C10. No formulator starves. A candidate of the rank table is the first one after at most as many turns as
  the phases of the others are, in sum, below the one after its own, whoever makes blocks and whoever times out in
  between; none of these turns fails. (Phases are 32-bit numbers; the candidate's is not among the last two.)
\<close>

theorem no_starvation:
  assumes "rt_wf rt" "c \<in> set (candidates rt)" "unat (phase c) + 2 < 2 ^ 32" "waits c (candidates rt) \<le> length ts"
  shows "\<exists>k \<le> waits c (candidates rt). \<exists>rt'. take_turns (take k ts) rt = Inr rt' \<and> TopRank 0 rt' = Inr c"
  using assms
proof (induction ts arbitrary: rt)
  case Nil
  obtain tp xs where cs: "candidates rt = tp # xs" using Nil.prems(2) by (cases "candidates rt") auto
  have "c = tp"
  proof (rule ccontr)
    assume "c \<noteq> tp"
    then have "waits c (insert_rank (rank_SetPhase (phase tp + 1) tp) xs) < waits c (tp # xs)"
      using Nil.prems cs by (intro wait_less [OF _ cs]) auto
    then show False using Nil.prems(4) cs by simp
  qed
  then show ?case using Nil.prems(1) cs by (intro exI [of _ 0]) (auto simp: TopRank_def rt_wf_def rank_Clone_id)
next
  case (Cons t ts)
  obtain tp xs where cs: "candidates rt = tp # xs" using Cons.prems(2) by (cases "candidates rt") auto
  show ?case
  proof (cases "c = tp")
    case True
    then show ?thesis using Cons.prems(1) cs by (intro exI [of _ 0]) (auto simp: TopRank_def rt_wf_def rank_Clone_id)
  next
    case False
    then have c: "c \<in> set xs" using Cons.prems(2) cs by simp
    then obtain rt1 m where s: "take_turn t rt = Inr rt1" "rt_wf rt1" "candidates rt1 = insert_rank m xs" "rk_Address m = rk_Address tp"
      "phase m = phase tp + 1 \<or> phase m = phase tp + 2"
      using turn_step [OF Cons.prems(1) cs, of t] by (metis list.set_cases list.distinct(1))
    note less = wait_less [OF Cons.prems(1) cs c Cons.prems(3) s(4,5)]
    have "waits c (candidates rt1) \<le> length ts" using less Cons.prems(4) by (simp add: s(3) cs)
    then obtain k rt' where k: "k \<le> waits c (candidates rt1)" "take_turns (take k ts) rt1 = Inr rt'" "TopRank 0 rt' = Inr c"
      using Cons.IH [OF s(2) _ Cons.prems(3)] c s(3) by auto
    then show ?thesis using less s(1,3) cs by (intro exI [of _ "Suc k"]) auto
  qed
qed

definition rank0 :: "byte \<Rightarrow> u32 \<Rightarrow> rank" where "rank0 b p = NewRank [b] [b] p (replicate 32 b)"

definition table0 :: rank_table where
  "table0 = \<lparr>rt_height = 0, candidates = [rank0 1 0, rank0 2 1], rankMap = rank_map [rank0 1 0, rank0 2 1]\<rparr>"

lemma table0_wf: "rt_wf table0"
proof -
  have "unat (rank_score 0 h) < unat (rank_score 1 h')" for h h'
    unfolding unat_rank_score using unat_lt_widths(2) [of "word_of_nat (le_to_nat (take 4 h))"] by simp
  then have "rank_Less (rank0 1 0) (rank0 2 1)"
    by (simp add: rank_Less_def rank0_def NewRank_def rank_update_def word_less_nat_alt)
  then show ?thesis by (simp add: rt_wf_def table0_def rank0_def)
qed

theorem no_starvation_witness:
  "\<exists>k \<le> 2. \<exists>rt'. take_turns (take k [Made (replicate 32 0), TimedOut]) table0 = Inr rt' \<and> TopRank 0 rt' = Inr (rank0 2 1)"
proof -
  have "waits (rank0 2 1) (candidates table0) = 2" "rank0 2 1 \<in> set (candidates table0)" "phase (rank0 2 1) = 1"
    by (simp_all add: waits_def table0_def rank0_def)
  then show ?thesis using no_starvation [OF table0_wf, of "rank0 2 1" "[Made (replicate 32 0), TimedOut]"] by simp
qed

end
