(* ===== verification/Pof.thy ===== *)
theory Pof
  imports Chain_Laws Rank_Laws
begin

text \<open>
  The proof-of-formulation consensus (\<open>pof/consensus.go\<close>, \<open>consensus_method.go\<close>): it checks the signatures of a block
  against the rank table and the observer keys, moves the table on for every saved block, and keeps its state in the
  data of process 0. The encoders are those of the chain; \<open>pe_hash\<close> is the codec of hashes and \<open>pe_BlockSign\<close> the
  encoding of a \<open>BlockSign\<close>.
\<close>

section \<open>State\<close>

record pof =
  maxBlocksPerFormulator :: u32
  blocksBySameFormulator :: u32
  observerKeyMap :: "(public_hash \<times> bool) list"
  pof_rt :: rank_table
  maxPhaseDiff :: "(u32 \<Rightarrow> u32) option"

record 'tx pof_env =
  pe_chain :: "'tx chain_env"
  pe_hash :: "hash256 item_codec"
  pe_BlockSign :: "hash256 \<Rightarrow> signature \<Rightarrow> bytes"

abbreviation pe_prims :: "'tx pof_env \<Rightarrow> prims" where "pe_prims E \<equiv> ce_prims (pe_chain E)"

text \<open>The observer keys are an ordered map (\<open>PublicHashBoolMap\<close>), here as the list of its entries.\<close>

abbreviation key_om :: "'tx pof_env \<Rightarrow> ((public_hash \<times> bool) list, public_hash, bool) ordered_map" where
  "key_om E \<equiv> PublicHashBoolMap (pe_prims E) slist"

definition NewConsensus :: "u32 \<Rightarrow> public_hash list \<Rightarrow> pof" where
  "NewConsensus MaxBlocksPerFormulator ObserverKeys =
     \<lparr>maxBlocksPerFormulator = MaxBlocksPerFormulator, blocksBySameFormulator = 0,
      observerKeyMap = fold (\<lambda>pubhash m. slist_put (pubhash, True) m) ObserverKeys [], pof_rt = NewRankTable, maxPhaseDiff = None\<rparr>"

definition SetMaxPhaseDiff :: "(u32 \<Rightarrow> u32) \<Rightarrow> pof \<Rightarrow> pof" where "SetMaxPhaseDiff fn cs = cs\<lparr>maxPhaseDiff := Some fn\<rparr>"

text \<open>\<open>encoding.Hash\<close> of a header and of the block sign that the observers sign.\<close>

abbreviation pe_sha :: "'tx pof_env \<Rightarrow> bytes \<Rightarrow> bytes" where "pe_sha E \<equiv> ce_sha (pe_chain E)"

abbreviation hash_Header :: "'tx pof_env \<Rightarrow> header \<Rightarrow> hash256" where "hash_Header E bh \<equiv> header_Hash (pe_chain E) bh"

definition hash_BlockSign :: "'tx pof_env \<Rightarrow> hash256 \<Rightarrow> signature \<Rightarrow> hash256" where
  "hash_BlockSign E HeaderHash GeneratorSignature = Hash (pe_sha E) (pe_BlockSign E HeaderHash GeneratorSignature)"

section \<open>Consensus data\<close>

definition DecodeConsensusData :: "'tx pof_env \<Rightarrow> bytes \<Rightarrow> u32 res" where
  "DecodeConsensusData E ConsensusData = bind_res (it_dec (pr_u32 (pe_prims E)) ConsensusData) (\<lambda>(TimeoutCount, _). Inr TimeoutCount)"

definition encodeConsensusData :: "'tx pof_env \<Rightarrow> u32 \<Rightarrow> bytes res" where
  "encodeConsensusData E TimeoutCount = it_enc (pr_u32 (pe_prims E)) TimeoutCount"

definition buildSaveData :: "'tx pof_env \<Rightarrow> pof \<Rightarrow> bytes res" where
  "buildSaveData E cs = concat_res id [it_enc (pr_u32 (pe_prims E)) (maxBlocksPerFormulator cs), om_Encode (key_om E) (observerKeyMap cs),
     it_enc (pr_u32 (pe_prims E)) (blocksBySameFormulator cs), enc_RankTable (pe_prims E) (pe_hash E) (pof_rt cs)]"

section \<open>Signatures of a block\<close>

definition KeyMap_of :: "(public_hash \<times> bool) list \<Rightarrow> key_map" where
  "KeyMap_of items = map_of (map (\<lambda>(pubhash, value). (pubhash, True)) items)"

definition ValidateSignature :: "'tx pof_env \<Rightarrow> header \<Rightarrow> signature list \<Rightarrow> pof \<Rightarrow> unit res" where
  "ValidateSignature E bh sigs cs =
     bind_res (DecodeConsensusData E (bh_ConsensusData bh)) (\<lambda>TimeoutCount.
     bind_res (TopRank (unat TimeoutCount) (pof_rt cs)) (\<lambda>Top.
     if rk_Address Top \<noteq> bh_Generator bh then Inl ErrInvalidTopAddress
     else if sigs = [] then Inl Panic
     else
       bind_res (ce_Recover (pe_chain E) (hash_Header E bh) (sigs ! 0)) (\<lambda>pubkey.
       if rk_PublicHash Top \<noteq> NewPublicHash (pe_sha E) pubkey then Inl ErrInvalidTopSignature
       else if length sigs \<noteq> length (observerKeyMap cs) div 2 + 2 then Inl ErrInvalidSignatureCount
       else ValidateSignaturesMajority (pe_sha E) (ce_Recover (pe_chain E))
              (hash_BlockSign E (hash_Header E bh) (sigs ! 0)) (tl sigs) (KeyMap_of (observerKeyMap cs)))))"

section \<open>Formulators of a block\<close>

text \<open>Ranks that are further ahead than allowed are put back to the largest allowed phase.\<close>

fun clamp_ranks :: "u32 \<Rightarrow> rank list \<Rightarrow> rank_table \<Rightarrow> unit res \<times> rank_table" where
  "clamp_ranks maxPhase [] rt = (Inr (), rt)"
| "clamp_ranks maxPhase (r # rs) rt =
     (if maxPhase < phase r then
        let rt = removeRank (rk_Address r) rt in
        case addRank (NewRank (rk_Address r) (rk_PublicHash r) maxPhase (hashSpace r)) rt of
          Inl e \<Rightarrow> (Inl e, rt)
        | Inr rt \<Rightarrow> clamp_ranks maxPhase rs rt
      else clamp_ranks maxPhase rs rt)"

text \<open>
  The account of one formulator that the block touched. \<open>FormulatorAccount\<close> is the only account type that is a
  formulator.
\<close>

definition update_account :: "'tx pof_env \<Rightarrow> u32 \<Rightarrow> u32 \<Rightarrow> address \<Rightarrow> account \<Rightarrow> rank_table \<Rightarrow> unit res \<times> rank_table" where
  "update_account E TargetHeight ph addr a rt =
     (case a of
        FormulatorAccount acc \<Rightarrow>
          let new = NewRank addr (fa_GenHash acc) ph (DoubleHash (pe_sha E) addr);
              add = (\<lambda>rt. case addRank new rt of Inl e \<Rightarrow> (Inl e, rt) | Inr rt' \<Rightarrow> (Inr (), rt'))
          in (case Height (fa_Address acc) of
                Inl e \<Rightarrow> (Inl e, rt)
              | Inr h \<Rightarrow>
                  if h = TargetHeight then (if \<not> fa_IsRevoked acc then add rt else (Inr (), rt))
                  else case rankMap rt addr of
                      Some r \<Rightarrow>
                        if fa_IsRevoked acc then (Inr (), removeRank addr rt)
                        else if rk_PublicHash r \<noteq> fa_GenHash acc then add (removeRank addr rt)
                        else (Inr (), rt)
                    | None \<Rightarrow> if \<not> fa_IsRevoked acc then add rt else (Inr (), rt))
      | _ \<Rightarrow> (Inr (), rt))"

fun update_accounts :: "'tx pof_env \<Rightarrow> u32 \<Rightarrow> u32 \<Rightarrow> (address \<times> account) list \<Rightarrow> rank_table \<Rightarrow> unit res \<times> rank_table" where
  "update_accounts E TargetHeight ph [] rt = (Inr (), rt)"
| "update_accounts E TargetHeight ph ((addr, a) # as) rt =
     (case update_account E TargetHeight ph addr a rt of
        (Inl e, rt) \<Rightarrow> (Inl e, rt)
      | (Inr _, rt) \<Rightarrow> update_accounts E TargetHeight ph as rt)"

fun remove_deleted :: "(address \<times> account) list \<Rightarrow> rank_table \<Rightarrow> rank_table" where
  "remove_deleted [] rt = rt"
| "remove_deleted ((addr, a) # as) rt =
     (case a of FormulatorAccount acc \<Rightarrow> remove_deleted as (removeRank (fa_Address acc) rt) | _ \<Rightarrow> remove_deleted as rt)"

text \<open>The phase of a new rank, and the table after the phase limit.\<close>

definition new_phase :: "u32 \<Rightarrow> pof \<Rightarrow> u32 \<times> unit res \<times> rank_table" where
  "new_phase TargetHeight cs =
     (let rt = pof_rt cs in
      case maxPhaseDiff cs of
        None \<Rightarrow> (smallestPhase rt + 2, Inr (), rt)
      | Some fn \<Rightarrow>
          let diff = fn TargetHeight; ph = largestPhase rt + 1 in
          if diff = 0 then (ph, Inr (), rt)
          else
            let maxPhase = smallestPhase rt + diff; ph = (if maxPhase < ph then maxPhase else ph)
            in if maxPhase < largestPhase rt then (ph, clamp_ranks maxPhase (rt_Candidates rt) rt) else (ph, Inr (), rt))"

definition updateFormulatorList :: "'tx pof_env \<Rightarrow> ctx \<Rightarrow> pof \<Rightarrow> unit res \<times> pof" where
  "updateFormulatorList E ctx cs =
     (case ctx_stack ctx of
        [] \<Rightarrow> (Inl Panic, cs)
      | tp # _ \<Rightarrow>
          (case new_phase (genTargetHeight ctx) cs of
             (_, Inl e, rt) \<Rightarrow> (Inl e, cs\<lparr>pof_rt := rt\<rparr>)
           | (ph, Inr _, rt) \<Rightarrow>
               let ord = ce_orders (pe_chain E) tp in
               (case update_accounts E (genTargetHeight ctx) ph (entries (AccountMap tp) (o_Account ord)) rt of
                  (Inl e, rt) \<Rightarrow> (Inl e, cs\<lparr>pof_rt := rt\<rparr>)
                | (Inr _, rt) \<Rightarrow>
                    let rt = remove_deleted (entries (DeletedAccountMap tp) (o_DeletedAccount ord)) rt
                    in (if CandidateCount rt = 0 then Inl ErrInsufficientCandidateCount else Inr (), cs\<lparr>pof_rt := rt\<rparr>))))"

section \<open>Hooks of the chain\<close>

definition tagState :: bytes where "tagState = [1]"

text \<open>The common end of \<open>InitGenesis\<close> and \<open>OnSaveData\<close>: take in the changed accounts and write the state.\<close>

definition save_state :: "'tx pof_env \<Rightarrow> ctx \<times> pof \<Rightarrow> unit res \<times> ctx \<times> pof" where
  "save_state E s =
     (case s of (ctx, cs) \<Rightarrow>
      case updateFormulatorList E ctx cs of
        (Inl e, cs) \<Rightarrow> (Inl e, ctx, cs)
      | (Inr _, cs) \<Rightarrow>
          (case buildSaveData E cs of
             Inl e \<Rightarrow> (Inl e, ctx, cs)
           | Inr data \<Rightarrow> (case ctx_SetProcessData 0 tagState data ctx of (r, ctx) \<Rightarrow> (r, ctx, cs))))"

definition pof_InitGenesis :: "'tx pof_env \<Rightarrow> ctx \<times> pof \<Rightarrow> unit res \<times> ctx \<times> pof" where
  "pof_InitGenesis E s = save_state E s"

text \<open>The move of the table for a saved block.\<close>

definition advance :: "'tx pof_env \<Rightarrow> 'tx block \<Rightarrow> pof \<Rightarrow> unit res \<times> pof" where
  "advance E b cs =
     (let HeaderHash = hash_Header E (blk_Header b) in
      case DecodeConsensusData E (bh_ConsensusData (blk_Header b)) of
        Inl e \<Rightarrow> (Inl e, cs)
      | Inr TimeoutCount \<Rightarrow>
          (case (if 0 < TimeoutCount
                 then bind_res (forwardCandidates (unat TimeoutCount) (pof_rt cs)) (\<lambda>rt. Inr (cs\<lparr>pof_rt := rt, blocksBySameFormulator := 0\<rparr>))
                 else Inr cs) of
             Inl e \<Rightarrow> (Inl e, cs)
           | Inr cs \<Rightarrow>
               let cs = cs\<lparr>blocksBySameFormulator := blocksBySameFormulator cs + 1\<rparr> in
               if maxBlocksPerFormulator cs \<le> blocksBySameFormulator cs
               then (case forwardTop HeaderHash (pof_rt cs) of
                       Inl e \<Rightarrow> (Inl e, cs)
                     | Inr rt \<Rightarrow> (Inr (), cs\<lparr>pof_rt := rt, blocksBySameFormulator := 0\<rparr>))
               else (Inr (), cs)))"

definition pof_OnSaveData :: "'tx pof_env \<Rightarrow> 'tx block \<Rightarrow> ctx \<times> pof \<Rightarrow> unit res \<times> ctx \<times> pof" where
  "pof_OnSaveData E b s =
     (case s of (ctx, cs) \<Rightarrow>
      case advance E b cs of
        (Inl e, cs) \<Rightarrow> (Inl e, ctx, cs)
      | (Inr _, cs) \<Rightarrow> save_state E (ctx, cs))"

definition pof_OnLoadChain :: "'tx pof_env \<Rightarrow> ctx \<Rightarrow> pof \<Rightarrow> unit res \<times> pof" where
  "pof_OnLoadChain E ctx cs =
     (case fst (ctx_ProcessData 0 tagState ctx) of
        Inl e \<Rightarrow> (Inl e, cs)
      | Inr data \<Rightarrow>
          (case bind_res (it_dec (pr_u32 (pe_prims E)) data) (\<lambda>(v, bs).
                  if maxBlocksPerFormulator cs \<noteq> v then Inl ErrInvalidMaxBlocksPerFormulator
                  else
                    bind_res (om_Decode (key_om E) bs) (\<lambda>(ObserverKeyMap, bs).
                    if om_Len (key_om E) ObserverKeyMap \<noteq> om_Len (key_om E) (observerKeyMap cs) then Inl ErrInvalidObserverKey
                    else if \<not> list_all (\<lambda>(pubhash, value). om_Has (key_om E) pubhash (observerKeyMap cs)) ObserverKeyMap then Inl ErrInvalidObserverKey
                    else it_dec (pr_u32 (pe_prims E)) bs)) of
             Inl e \<Rightarrow> (Inl e, cs)
           | Inr (v, bs) \<Rightarrow>
               let cs = cs\<lparr>blocksBySameFormulator := v\<rparr> in
               (case dec_RankTable (pe_prims E) (pe_hash E) bs of
                  Inl e \<Rightarrow> (Inl e, cs)
                | Inr (rt, _) \<Rightarrow> (Inr (), cs\<lparr>pof_rt := rt\<rparr>))))"

text \<open>The consensus as the chain uses it. \<open>Init\<close> only registers a query of the API server.\<close>

definition pof_consensus :: "'tx pof_env \<Rightarrow> ('tx, pof) consensus" where
  "pof_consensus E =
     \<lparr>cs_Init = Pair (Inr ()), cs_InitGenesis = pof_InitGenesis E, cs_OnLoadChain = pof_OnLoadChain E,
      cs_ValidateSignature = ValidateSignature E, cs_OnSaveData = pof_OnSaveData E\<rparr>"

end
