(* ===== verification/Pof_Laws.thy ===== *)
theory Pof_Laws
  imports Pof
begin

text \<open>
  Laws of the consensus: the invariant of its state, that a restarted node reads back the state that was saved, and
  that a fork names an observer who signed twice.
\<close>

section \<open>The invariant\<close>

lemma clamp_ranks_wf: "rt_wf rt \<Longrightarrow> rt_wf (snd (clamp_ranks maxPhase rs rt))"
proof (induction rs arbitrary: rt)
  case (Cons r rs)
  let ?rt = "removeRank (rk_Address r) rt"
  have wf: "rt_wf ?rt" by (rule removeRank_wf(1) [OF Cons.prems])
  show ?case
  proof (cases "addRank (NewRank (rk_Address r) (rk_PublicHash r) maxPhase (hashSpace r)) ?rt")
    case (Inr rt')
    have "rt_wf rt'" by (rule addRank_wf(1) [OF wf Inr]) simp
    then show ?thesis using Cons Inr by (simp add: Let_def)
  qed (use Cons wf in \<open>simp add: Let_def\<close>)
qed simp

lemma addRank_new: "rt_wf rt \<Longrightarrow> addRank (NewRank a g ph h) rt = Inr rt' \<Longrightarrow> rt_wf rt'"
  using addRank_wf(1) [of rt "NewRank a g ph h" rt'] by simp

lemma update_account_wf: "rt_wf rt \<Longrightarrow> rt_wf (snd (update_account E TH ph addr a rt))"
  by (auto simp: update_account_def Let_def intro: addRank_new addRank_new [OF removeRank_wf(1)] removeRank_wf(1)
      split: account.splits sum.splits option.splits)

lemma update_accounts_wf: "rt_wf rt \<Longrightarrow> rt_wf (snd (update_accounts E TH ph as rt))"
proof (induction as arbitrary: rt)
  case (Cons x as)
  obtain addr a where x: "x = (addr, a)" by (rule prod.exhaust)
  show ?case using Cons.IH update_account_wf [OF Cons.prems, of E TH ph addr a] Cons.prems
    by (auto simp: x split: prod.splits sum.splits)
qed simp

lemma remove_deleted_wf: "rt_wf rt \<Longrightarrow> rt_wf (remove_deleted as rt)"
  by (induction as arbitrary: rt) (auto simp: removeRank_wf(1) split: account.splits)

lemma new_phase_wf: "rt_wf (pof_rt cs) \<Longrightarrow> rt_wf (snd (snd (new_phase h cs)))"
  using clamp_ranks_wf by (auto simp: new_phase_def Let_def split: option.splits)

definition same_config :: "pof \<Rightarrow> pof \<Rightarrow> bool" where
  "same_config cs cs' \<longleftrightarrow> maxBlocksPerFormulator cs' = maxBlocksPerFormulator cs \<and> observerKeyMap cs' = observerKeyMap cs \<and> maxPhaseDiff cs' = maxPhaseDiff cs"

lemma updateFormulatorList_wf:
  assumes "updateFormulatorList E ctx cs = (r, cs')"
  shows "same_config cs cs'" "blocksBySameFormulator cs' = blocksBySameFormulator cs" "rt_wf (pof_rt cs) \<Longrightarrow> rt_wf (pof_rt cs')"
    "r = Inr () \<Longrightarrow> candidates (pof_rt cs') \<noteq> []"
proof -
  show "same_config cs cs'" "blocksBySameFormulator cs' = blocksBySameFormulator cs"
    using assms by (auto simp: updateFormulatorList_def same_config_def Let_def split: list.splits prod.splits sum.splits)
  show "candidates (pof_rt cs') \<noteq> []" if "r = Inr ()"
    using assms that by (auto simp: updateFormulatorList_def CandidateCount_def Let_def split: list.splits prod.splits sum.splits if_splits)
  show "rt_wf (pof_rt cs')" if wf: "rt_wf (pof_rt cs)"
  proof (cases "ctx_stack ctx")
    case (Cons tp ps)
    obtain ph r1 rt1 where n: "new_phase (genTargetHeight ctx) cs = (ph, r1, rt1)" by (rule prod_cases3)
    have 1: "rt_wf rt1" using new_phase_wf [OF wf, of "genTargetHeight ctx"] n by simp
    obtain r2 rt2 where u: "update_accounts E (genTargetHeight ctx) ph (entries (AccountMap tp) (o_Account (ce_orders (pe_chain E) tp))) rt1 = (r2, rt2)"
      by (rule prod.exhaust)
    have 2: "rt_wf rt2" using update_accounts_wf [OF 1, of E "genTargetHeight ctx" ph] u by (metis snd_conv)
    show ?thesis using assms Cons n u 1 2 remove_deleted_wf [OF 2]
      by (auto simp: updateFormulatorList_def Let_def split: sum.splits)
  qed (use assms wf in \<open>simp add: updateFormulatorList_def\<close>)
qed

lemma advance_wf:
  assumes "advance E b cs = (r, cs')"
  shows "same_config cs cs'" "rt_wf (pof_rt cs) \<Longrightarrow> rt_wf (pof_rt cs')"
    "r = Inr () \<Longrightarrow> 0 < maxBlocksPerFormulator cs \<Longrightarrow> blocksBySameFormulator cs' < maxBlocksPerFormulator cs'"
proof -
  show "same_config cs cs'"
    using assms by (auto simp: advance_def same_config_def Let_def res_simps split: sum.splits if_splits)
  show "blocksBySameFormulator cs' < maxBlocksPerFormulator cs'" if "r = Inr ()" "0 < maxBlocksPerFormulator cs"
    using assms that by (auto simp: advance_def Let_def res_simps split: sum.splits if_splits)
  show "rt_wf (pof_rt cs')" if wf: "rt_wf (pof_rt cs)"
  proof -
    have f: "rt_wf rt" if "forwardCandidates n (pof_rt cs) = Inr rt" for n rt
      using that forward_loop_wf [OF wf] by (auto simp: forwardCandidates_def split: if_splits)
    show ?thesis using assms wf f forwardTop_wf(1)
      by (fastforce simp: advance_def Let_def res_simps split: sum.splits if_splits)
  qed
qed

definition pof_inv :: "pof \<Rightarrow> bool" where
  "pof_inv cs \<longleftrightarrow> rt_wf (pof_rt cs) \<and> candidates (pof_rt cs) \<noteq> [] \<and> blocksBySameFormulator cs < maxBlocksPerFormulator cs"

lemma save_state_done:
  assumes "save_state E (ctx, cs) = (r, ctx', cs')"
  shows "same_config cs cs'" "blocksBySameFormulator cs' = blocksBySameFormulator cs" "rt_wf (pof_rt cs) \<Longrightarrow> rt_wf (pof_rt cs')"
    "r = Inr () \<Longrightarrow> candidates (pof_rt cs') \<noteq> [] \<and> (\<exists>data. buildSaveData E cs' = Inr data \<and> ctx_SetProcessData 0 tagState data ctx = (Inr (), ctx'))"
proof -
  obtain r1 cs1 where u: "updateFormulatorList E ctx cs = (r1, cs1)" by (rule prod.exhaust)
  note l = updateFormulatorList_wf [OF u]
  have "cs' = cs1" using assms u by (auto simp: save_state_def split: sum.splits prod.splits)
  then show "same_config cs cs'" "blocksBySameFormulator cs' = blocksBySameFormulator cs" "rt_wf (pof_rt cs) \<Longrightarrow> rt_wf (pof_rt cs')"
    using l by simp_all
  show "candidates (pof_rt cs') \<noteq> [] \<and> (\<exists>data. buildSaveData E cs' = Inr data \<and> ctx_SetProcessData 0 tagState data ctx = (Inr (), ctx'))" if "r = Inr ()"
    using assms u l(4) that \<open>cs' = cs1\<close> by (auto simp: save_state_def split: sum.splits prod.splits)
qed

lemma OnSaveData_done:
  assumes "pof_OnSaveData E b (ctx, cs) = (r, ctx', cs')"
  shows "same_config cs cs'" "rt_wf (pof_rt cs) \<Longrightarrow> rt_wf (pof_rt cs')"
    "r = Inr () \<Longrightarrow> 0 < maxBlocksPerFormulator cs \<Longrightarrow> rt_wf (pof_rt cs) \<Longrightarrow> pof_inv cs'"
    "r = Inr () \<Longrightarrow> \<exists>data. buildSaveData E cs' = Inr data \<and> ctx_SetProcessData 0 tagState data ctx = (Inr (), ctx')"
proof -
  obtain r1 cs1 where a: "advance E b cs = (r1, cs1)" by (rule prod.exhaust)
  note l = advance_wf [OF a]
  have c: "(\<exists>e. r1 = Inl e \<and> r = Inl e \<and> cs' = cs1) \<or> (r1 = Inr () \<and> save_state E (ctx, cs1) = (r, ctx', cs'))"
    using assms a by (auto simp: pof_OnSaveData_def split: sum.splits)
  then show "same_config cs cs'" "rt_wf (pof_rt cs) \<Longrightarrow> rt_wf (pof_rt cs')"
    using l save_state_done(1,3) [of E ctx cs1 r ctx' cs'] by (auto simp: same_config_def)
  show "pof_inv cs'" if "r = Inr ()" "0 < maxBlocksPerFormulator cs" "rt_wf (pof_rt cs)"
    using c that l save_state_done [of E ctx cs1 r ctx' cs'] by (auto simp: pof_inv_def same_config_def)
  show "\<exists>data. buildSaveData E cs' = Inr data \<and> ctx_SetProcessData 0 tagState data ctx = (Inr (), ctx')" if "r = Inr ()"
    using c that save_state_done(4) [of E ctx cs1 r ctx' cs'] by auto
qed

section \<open>Restart\<close>

lemma concat_res_Cons: "concat_res id (x # xs) = Inr bs \<longleftrightarrow> (\<exists>a b. x = Inr a \<and> concat_res id xs = Inr b \<and> bs = a @ b)"
  by (auto simp: res_simps)

text \<open>The codecs that the consensus uses read back what they write.\<close>

definition codecs_ok :: "'tx pof_env \<Rightarrow> bool" where
  "codecs_ok E \<longleftrightarrow> item_ok (pr_u32 (pe_prims E)) \<and> item_ok (pr_Len (pe_prims E)) \<and> item_ok (pr_Address (pe_prims E))
     \<and> item_ok (pr_PublicHash (pe_prims E)) \<and> item_ok (pr_bool (pe_prims E)) \<and> item_ok (pe_hash E)"

lemma item_read: "item_ok c \<Longrightarrow> it_enc c x = Inr bs \<Longrightarrow> it_dec c (bs @ r) = Inr (x, r)"
  by (simp add: item_ok_def)

lemma dec_enc_Rank:
  assumes "codecs_ok E" "enc_Rank (pe_prims E) (pe_hash E) r = Inr bs"
  shows "dec_Rank (pe_prims E) (pe_hash E) (bs @ rest) = Inr (r\<lparr>score := 0\<rparr>, rest)"
  using assms by (auto simp: enc_Rank_def dec_Rank_def concat_res_Cons codecs_ok_def item_read simp del: concat_res.simps(2))

lemma dec_enc_ranks:
  assumes "codecs_ok E"
  shows "concat_res id (map (enc_Rank (pe_prims E) (pe_hash E)) rs) = Inr bs \<Longrightarrow> \<forall>r \<in> set rs. rank_update r = r \<Longrightarrow>
     dec_ranks (pe_prims E) (pe_hash E) (length rs) item (bs @ rest) =
       Inr (item\<lparr>candidates := candidates item @ rs, rankMap := rankMap item ++ map_of (rev (map (\<lambda>r. (rk_Address r, r)) rs))\<rparr>, rest)"
proof (induction rs arbitrary: item bs)
  case (Cons r rs)
  then obtain a b where ab: "enc_Rank (pe_prims E) (pe_hash E) r = Inr a" "concat_res id (map (enc_Rank (pe_prims E) (pe_hash E)) rs) = Inr b" "bs = a @ b"
    by (simp only: list.map concat_res_Cons) blast
  have "rank_update (r\<lparr>score := 0\<rparr>) = r" using Cons.prems(2) by (simp add: rank_update_def)
  then show ?case using Cons.IH [OF ab(2)] Cons.prems(2) dec_enc_Rank [OF assms ab(1)] by (simp add: ab(3) Let_def)
qed simp

lemma dec_enc_RankTable:
  assumes "codecs_ok E" "rt_wf rt" "enc_RankTable (pe_prims E) (pe_hash E) rt = Inr bs"
  shows "dec_RankTable (pe_prims E) (pe_hash E) (bs @ rest) = Inr (rt, rest)"
proof -
  obtain a l c where e: "it_enc (pr_u32 (pe_prims E)) (rt_height rt) = Inr a" "it_enc (pr_Len (pe_prims E)) (length (candidates rt)) = Inr l"
    "concat_res id (map (enc_Rank (pe_prims E) (pe_hash E)) (candidates rt)) = Inr c" "bs = a @ l @ c"
    using assms(3) by (simp only: enc_RankTable_def concat_res_Cons) fastforce
  have "map_of (rev (map (\<lambda>r. (rk_Address r, r)) (candidates rt))) = rank_map (candidates rt)"
    unfolding rank_map_def using assms(2) by (intro map_of_inject_set [THEN iffD2]) (auto simp: rt_wf_def comp_def distinct_map rev_map [symmetric])
  then have "dec_ranks (pe_prims E) (pe_hash E) (length (candidates rt)) (NewRankTable\<lparr>rt_height := rt_height rt\<rparr>) (c @ rest) = Inr (rt, rest)"
    using dec_enc_ranks [OF assms(1) e(3), of "NewRankTable\<lparr>rt_height := rt_height rt\<rparr>" rest] assms(2)
    by (simp add: rt_wf_def NewRankTable_def)
  moreover have "item_ok (pr_u32 (pe_prims E))" "item_ok (pr_Len (pe_prims E))" using assms(1) by (simp_all add: codecs_ok_def)
  ultimately show ?thesis using e by (simp add: dec_RankTable_def item_read)
qed

lemma dec_enc_keys:
  assumes "codecs_ok E" "sorted_wrt (<) (map fst ks)" "om_Encode (key_om E) ks = Inr bs"
  shows "om_Decode (key_om E) (bs @ rest) = Inr (ks, rest)"
  using slist_decode [OF assms(2), of "pr_Len (pe_prims E)" "pr_PublicHash (pe_prims E)" "pr_bool (pe_prims E)"] assms(1,3)
  by (simp add: PublicHashBoolMap_def codecs_ok_def)

text \<open>
  C11. A restarted node continues with the same turn. Whenever a block is saved, a node that starts with the same
  configuration (the block limit and the observer keys) on a context that shows the saved process data reads back the
  rank table, with its order, map and scores, and the number of blocks of the current formulator.
\<close>

theorem consensus_restart:
  assumes "codecs_ok E" "ctx_wf ctx" "rt_wf (pof_rt cs)" "sorted_wrt (<) (map fst (observerKeyMap cs))"
    "pof_OnSaveData E b (ctx, cs) = (Inr (), ctx', cs')"
    "ctx_wf ctx2" "a_data (absc ctx2) (PKey 0 tagState) = a_data (absc ctx') (PKey 0 tagState)"
    "maxBlocksPerFormulator cs2 = maxBlocksPerFormulator cs" "observerKeyMap cs2 = observerKeyMap cs"
  shows "pof_OnLoadChain E ctx2 cs2 = (Inr (), cs2\<lparr>blocksBySameFormulator := blocksBySameFormulator cs', pof_rt := pof_rt cs'\<rparr>)"
proof -
  note d = OnSaveData_done [OF assms(5)]
  obtain data where data: "buildSaveData E cs' = Inr data" "ctx_SetProcessData 0 tagState data ctx = (Inr (), ctx')" using d(4) by auto
  have cfg: "maxBlocksPerFormulator cs' = maxBlocksPerFormulator cs" "observerKeyMap cs' = observerKeyMap cs" using d(1) by (simp_all add: same_config_def)
  have "absc ctx' = set_data (PKey 0 tagState) data (absc ctx)"
    using writesD [OF ctx_SetProcessData_writes [OF assms(2), of 0 tagState data]] data(2) by simp
  then have read: "fst (ctx_ProcessData 0 tagState ctx2) = Inr data"
    using pureD(1) [OF ctx_reads(6) [OF assms(6), of 0 tagState]] assms(7) by simp
  obtain m k n t where e: "it_enc (pr_u32 (pe_prims E)) (maxBlocksPerFormulator cs) = Inr m" "om_Encode (key_om E) (observerKeyMap cs) = Inr k"
    "it_enc (pr_u32 (pe_prims E)) (blocksBySameFormulator cs') = Inr n" "enc_RankTable (pe_prims E) (pe_hash E) (pof_rt cs') = Inr t" "data = m @ k @ n @ t"
    using data(1) by (simp only: buildSaveData_def concat_res_Cons cfg) fastforce
  have u: "item_ok (pr_u32 (pe_prims E))" using assms(1) by (simp add: codecs_ok_def)
  have has: "list_all (\<lambda>(pubhash, value). om_Has (key_om E) pubhash (observerKeyMap cs)) (observerKeyMap cs)"
    by (force simp: list_all_iff PublicHashBoolMap_def ordered_map_def slist_def)
  show ?thesis
    using read has assms(8,9) item_read [OF u e(1)] item_read [OF u e(3)] dec_enc_keys [OF assms(1,4) e(2)]
      dec_enc_RankTable [OF assms(1) d(2) [OF assms(3)] e(4), of "[]"]
    by (simp add: pof_OnLoadChain_def e(5) Let_def)
qed

section \<open>Accepted blocks\<close>

text \<open>A chain with this consensus, whose services leave the state of the consensus alone.\<close>

definition pof_chain :: "'tx pof_env \<Rightarrow> ('tx, pof) chain \<Rightarrow> bool" where
  "pof_chain E cn \<longleftrightarrow> cn_consensus cn = pof_consensus E \<and> (\<forall>sv \<in> set (services cn). \<forall>b evs ctx s. sv_OnBlockConnected sv b evs ctx s = s)"

lemma fold_services: "\<forall>sv \<in> set svs. \<forall>b evs ctx s. sv_OnBlockConnected sv b evs ctx s = s \<Longrightarrow> fold (\<lambda>sv. sv_OnBlockConnected sv b evs ctx) svs s = s"
  by (induction svs) auto

lemma connect_pof:
  assumes "connectBlockWithContext env now b ctx cn = (r, ctx', cn')" "pof_chain E cn"
  shows "pof_chain E cn'" "cn_state cn' = cn_state cn \<or> (\<exists>c c' r'. pof_OnSaveData E b (c, cn_state cn) = (r', c', cn_state cn'))"
proof -
  have "cs_OnSaveData (cn_consensus cn) = pof_OnSaveData E" using assms(2) by (simp add: pof_chain_def pof_consensus_def)
  then show "cn_state cn' = cn_state cn \<or> (\<exists>c c' r'. pof_OnSaveData E b (c, cn_state cn) = (r', c', cn_state cn'))"
    using assms fold_services [of "services cn"] unfolding connectBlockWithContext_def
    by (auto simp: Let_def pof_chain_def split: prod.splits sum.splits if_splits)
  show "pof_chain E cn'"
    using assms unfolding connectBlockWithContext_def by (auto simp: Let_def pof_chain_def split: prod.splits sum.splits if_splits)
qed

lemma ConnectBlock_pof:
  assumes "ConnectBlock env now b cn = (r, cn')" "pof_chain E cn"
  shows "pof_chain E cn'" "same_config (cn_state cn) (cn_state cn')" "rt_wf (pof_rt (cn_state cn)) \<Longrightarrow> rt_wf (pof_rt (cn_state cn'))"
    "r = Inr () \<Longrightarrow> ValidateSignature E (blk_Header b) (Signatures b) (cn_state cn) = Inr ()"
proof -
  have v: "cs_ValidateSignature (cn_consensus cn) = ValidateSignature E" using assms(2) by (simp add: pof_chain_def pof_consensus_def)
  have c: "(r \<noteq> Inr () \<and> cn' = cn) \<or> (ValidateSignature E (blk_Header b) (Signatures b) (cn_state cn) = Inr () \<and>
      (\<exists>ctx ctx'. connectBlockWithContext env now b ctx cn = (r, ctx', cn')))"
    using assms(1) unfolding ConnectBlock_def v
    by (cases "ValidateSignature E (blk_Header b) (Signatures b) (cn_state cn)") (auto split: if_splits sum.splits prod.splits)
  then show "r = Inr () \<Longrightarrow> ValidateSignature E (blk_Header b) (Signatures b) (cn_state cn) = Inr ()" by blast
  show "pof_chain E cn'" using c assms(2) connect_pof(1) by blast
  have st: "cn_state cn' = cn_state cn \<or> (\<exists>c c' r'. pof_OnSaveData E b (c, cn_state cn) = (r', c', cn_state cn'))"
    using c connect_pof(2) [OF _ assms(2)] by blast
  then show "same_config (cn_state cn) (cn_state cn')"
    by (elim disjE exE) (simp add: same_config_def, rule OnSaveData_done(1))
  show "rt_wf (pof_rt (cn_state cn'))" if "rt_wf (pof_rt (cn_state cn))"
    using st by (elim disjE exE) (simp add: that, rule OnSaveData_done(2) [OF _ that])
qed

text \<open>The signatures of a block are accepted in some state with the given observer keys.\<close>

definition accepted_by :: "'tx pof_env \<Rightarrow> (public_hash \<times> bool) list \<Rightarrow> 'tx block \<Rightarrow> bool" where
  "accepted_by E keys b \<longleftrightarrow> (\<exists>cs. observerKeyMap cs = keys \<and> rt_wf (pof_rt cs) \<and> ValidateSignature E (blk_Header b) (Signatures b) cs = Inr ())"

lemma run_pof:
  assumes "pof_chain E cn" "rt_wf (pof_rt (cn_state cn))"
  shows "\<forall>b \<in> set (fst (ConnectBlocks env bs cn)). accepted_by E (observerKeyMap (cn_state cn)) b"
    "rt_wf (pof_rt (cn_state (snd (ConnectBlocks env bs cn))))"
    "same_config (cn_state cn) (cn_state (snd (ConnectBlocks env bs cn)))"
proof -
  have "(\<forall>b \<in> set (fst (ConnectBlocks env bs cn)). accepted_by E (observerKeyMap (cn_state cn)) b) \<and>
    rt_wf (pof_rt (cn_state (snd (ConnectBlocks env bs cn)))) \<and> same_config (cn_state cn) (cn_state (snd (ConnectBlocks env bs cn)))"
    using assms
  proof (induction bs arbitrary: cn)
    case (Cons nb bs)
    obtain now b where nb: "nb = (now, b)" by (rule prod.exhaust)
    obtain r cn' where r: "ConnectBlock env now b cn = (r, cn')" by (rule prod.exhaust)
    note s = ConnectBlock_pof [OF r Cons.prems(1)]
    note IH = Cons.IH [OF s(1) s(3) [OF Cons.prems(2)]]
    have k: "observerKeyMap (cn_state cn') = observerKeyMap (cn_state cn)" using s(2) by (simp add: same_config_def)
    have "r = Inr () \<Longrightarrow> accepted_by E (observerKeyMap (cn_state cn)) b" using s(4) Cons.prems(2) by (auto simp: accepted_by_def)
    then show ?case using IH r s(2) k nb by (auto simp: same_config_def split: sum.splits prod.splits)
  qed (simp add: same_config_def)
  then show "\<forall>b \<in> set (fst (ConnectBlocks env bs cn)). accepted_by E (observerKeyMap (cn_state cn)) b"
    "rt_wf (pof_rt (cn_state (snd (ConnectBlocks env bs cn))))" "same_config (cn_state cn) (cn_state (snd (ConnectBlocks env bs cn)))" by simp_all
qed

text \<open>The observer \<open>p\<close> signed the block: one of its observer signatures is by the key \<open>p\<close>.\<close>

definition observer_signed :: "'tx pof_env \<Rightarrow> public_hash \<Rightarrow> 'tx block \<Rightarrow> bool" where
  "observer_signed E p b \<longleftrightarrow> (\<exists>sig \<in> set (tl (Signatures b)).
     signer_of (pe_sha E) (ce_Recover (pe_chain E)) (hash_BlockSign E (hash_Header E (blk_Header b)) (hd (Signatures b))) sig = Inr p)"

lemma accepted_majority_signed:
  assumes "accepted_by E keys b"
  shows "majority_of (KeyMap_of keys) {p. observer_signed E p b}"
proof -
  obtain cs where cs: "observerKeyMap cs = keys" "ValidateSignature E (blk_Header b) (Signatures b) cs = Inr ()"
    using assms by (auto simp: accepted_by_def)
  let ?h = "hash_BlockSign E (hash_Header E (blk_Header b)) (hd (Signatures b))"
  have "Signatures b \<noteq> []" and v: "ValidateSignaturesMajority (pe_sha E) (ce_Recover (pe_chain E)) ?h (tl (Signatures b)) (KeyMap_of keys) = Inr ()"
    using cs by (auto simp: ValidateSignature_def res_simps hd_conv_nth split: if_splits)
  have "finite (dom (KeyMap_of keys))" by (simp add: KeyMap_of_def finite_dom_map_of)
  note accepted_majority [OF v this]
  moreover have "signer_set (signer_of (pe_sha E) (ce_Recover (pe_chain E)) ?h) (tl (Signatures b)) = {p. observer_signed E p b}"
    by (simp add: signer_set_def observer_signed_def)
  ultimately show ?thesis by simp
qed

lemma linked_height:
  "linked env cs status bs \<Longrightarrow> i < length bs \<Longrightarrow> bh_Height (blk_Header (bs ! i)) = fst status + 1 + of_nat i"
proof (induction bs arbitrary: status i)
  case (Cons b bs)
  then have b: "bh_Height (blk_Header b) = fst status + 1" "linked env cs (status_of env b) bs" by (auto simp: follows_def split: prod.splits)
  show ?case
  proof (cases i)
    case (Suc j)
    then show ?thesis using Cons.IH [OF b(2), of j] Cons.prems(2) b(1) by (simp add: status_of_def)
  qed (use b in simp)
qed simp

text \<open>
  C3. A fork names a culprit. Two nodes start with the same observer keys from the same status, and whatever blocks
  they are offered, each builds its chain of accepted blocks. If the two chains differ at some position, then the two
  blocks there have the same height and some observer signed both of them: as long as no observer signs two different
  blocks of one height, the nodes agree.
\<close>

theorem fork_accountable:
  fixes cn cn' :: "('tx, pof) chain"
  assumes "pof_chain E cn" "pof_chain E cn'" "rt_wf (pof_rt (cn_state cn))" "rt_wf (pof_rt (cn_state cn'))"
    "observerKeyMap (cn_state cn') = observerKeyMap (cn_state cn)" "cached (cn_store cn)" "cached (cn_store cn')"
    "cn_LastStatus env cn = Inr status" "cn_LastStatus env cn' = Inr status"
    "unat (fst status) + length bs < 2 ^ 32 - 1" "unat (fst status) + length bs' < 2 ^ 32 - 1"
    "A = fst (ConnectBlocks env bs cn)" "B = fst (ConnectBlocks env bs' cn')"
    "i < length A" "i < length B" "blk_Header (A ! i) \<noteq> blk_Header (B ! i)"
  shows "bh_Height (blk_Header (A ! i)) = bh_Height (blk_Header (B ! i))
     \<and> (\<exists>p. has_key (KeyMap_of (observerKeyMap (cn_state cn))) p \<and> observer_signed E p (A ! i) \<and> observer_signed E p (B ! i))"
proof
  have "linked env (cn_consensus cn) status A" "linked env (cn_consensus cn') status B"
    using run_linked [OF assms(6,8,10)] run_linked [OF assms(7,9,11)] assms(12,13) by simp_all
  then show "bh_Height (blk_Header (A ! i)) = bh_Height (blk_Header (B ! i))" using linked_height assms(14,15) by metis
  let ?K = "KeyMap_of (observerKeyMap (cn_state cn))"
  have "accepted_by E (observerKeyMap (cn_state cn)) (A ! i)" "accepted_by E (observerKeyMap (cn_state cn)) (B ! i)"
    using run_pof(1) [OF assms(1,3), of env bs] run_pof(1) [OF assms(2,4), of env bs'] nth_mem [OF assms(14)] nth_mem [OF assms(15)]
    unfolding assms(5,12,13) by blast+
  then have m: "majority_of ?K {p. observer_signed E p (A ! i)}" "majority_of ?K {p. observer_signed E p (B ! i)}"
    by (simp_all add: accepted_majority_signed)
  then obtain p where "observer_signed E p (A ! i)" "observer_signed E p (B ! i)" using majorities.meet [OF m] by auto
  moreover have "has_key ?K p" using m(1) calculation(1) unfolding majority_of_def by blast
  ultimately show "\<exists>p. has_key ?K p \<and> observer_signed E p (A ! i) \<and> observer_signed E p (B ! i)" by blast
qed

end
