(* ===== verification/Pof_Net.thy ===== *)
theory Pof_Net
  imports Pof_Laws
begin

text \<open>
  A small network on which the laws of the consensus are evaluated: one formulator and one observer; the hash function
  is constant, and the key of a signature is the signature.
\<close>

section \<open>The network\<close>

definition word_item :: "u32 item_codec" where
  "word_item = \<lparr>it_enc = (\<lambda>v. Inr (Uint32ToBytes v)), it_dec = (\<lambda>bs. bind_res (BytesToUint32 bs) (\<lambda>v. Inr (v, drop 4 bs))), it_json = (\<lambda>_. Inr [])\<rparr>"

definition bytes_item :: "bytes item_codec" where
  "bytes_item = \<lparr>it_enc = (\<lambda>v. Inr (plain_bytes v)), it_dec = dec_bytes, it_json = (\<lambda>_. Inr [])\<rparr>"

definition bool_item :: "bool item_codec" where
  "bool_item = \<lparr>it_enc = (\<lambda>v. Inr [if v then 1 else 0]), it_dec = (\<lambda>bs. case bs of [] \<Rightarrow> Inl Panic | b # bs \<Rightarrow> Inr (b = 1, bs)), it_json = (\<lambda>_. Inr [])\<rparr>"

definition env3 :: "unit pof_env" where
  "env3 = \<lparr>pe_chain = (env0 1)\<lparr>ce_prims := prims0\<lparr>pr_u32 := word_item, pr_Address := bytes_item, pr_PublicHash := bytes_item, pr_bool := bool_item\<rparr>\<rparr>,
     pe_hash = bytes_item, pe_BlockSign = (\<lambda>h sig. h @ sig)\<rparr>"

definition key3 :: "signature \<Rightarrow> public_hash" where "key3 = NewPublicHash (sha codec0)"

definition rank3 :: rank where "rank3 = NewRank addr0 (key3 [1]) 0 (replicate 32 0)"

definition pof3 :: pof where
  "pof3 = (NewConsensus 10 [key3 [2]])\<lparr>pof_rt := \<lparr>rt_height = 0, candidates = [rank3], rankMap = [addr0 \<mapsto> rank3]\<rparr>\<rparr>"

lemma items_ok: "item_ok word_item" "item_ok bytes_item" "item_ok bool_item"
  by (simp_all add: item_ok_def word_item_def bytes_item_def bool_item_def BytesToUint32_ToBytes dec_plain_bytes)

lemma env3_ok: "codecs_ok env3"
  by (simp add: codecs_ok_def env3_def env0_def prims0_def items_ok item0_ok)

lemma pof3_wf: "rt_wf (pof_rt pof3)" "observerKeyMap pof3 = [(key3 [2], True)]" "maxBlocksPerFormulator pof3 = 10" "blocksBySameFormulator pof3 = 0"
  "maxPhaseDiff pof3 = None"
  by (simp_all add: pof3_def rt_wf_def rank_map_def rank3_def NewConsensus_def)

definition chain3 :: "(unit, pof) chain" where
  "chain3 = \<lparr>cn_isInit = True, cn_store = set_cache 0 (replicate 32 1) None (NewStore Map.empty None 1 ''test'' 1), cn_consensus = pof_consensus env3,
     cn_app = process0 255, processes = [], processIDMap = Map.empty, processIndexMap = Map.empty, services = [], serviceMap = Map.empty,
     cn_isClose = False, cn_state = pof3\<rparr>"

definition fork_block :: "u64 \<Rightarrow> unit block" where
  "fork_block ts = \<lparr>blk_Header = \<lparr>bh_ChainID = 1, bh_Version = 1, bh_Height = 1, bh_PrevHash = replicate 32 1, bh_LevelRootHash = replicate 32 9,
     bh_ContextHash = replicate 32 9, bh_Timestamp = ts, bh_Generator = addr0, bh_ConsensusData = Uint32ToBytes 0\<rparr>, TransactionTypes = [], Transactions = [],
     TransactionSignatures = [], TransactionResults = [], Signatures = [[1], [2]]\<rparr>"

lemma hash3: "Hash (sha codec0) x = replicate 32 9" "DoubleHash (sha codec0) x = replicate 32 9"
  by (simp_all add: Hash_def DoubleHash_def codec0_def go_copy_def EmptyHash_def Hash256Size_def)

lemma env3_simps: "ce_codec (pe_chain env3) = codec0" "ce_wire (pe_chain env3) = wire0" "pe_sha env3 = sha codec0"
  "ce_sched (pe_chain env3) n = [0..<n]" "ce_Recover (pe_chain env3) h sig = (if sig = [9] then Inl ErrInvalidSignature else Inr sig)"
  "ce_NumCPU (pe_chain env3) = 1" "ce_orders (pe_chain env3) tp = no_orders"
  "pr_u32 (pe_prims env3) = word_item" "pr_Address (pe_prims env3) = bytes_item" "pr_PublicHash (pe_prims env3) = bytes_item" "pr_bool (pe_prims env3) = bool_item"
  "pe_hash env3 = bytes_item" "pr_Len (pe_prims env3) = item0"
  by (simp_all add: env3_def env0_def prims0_def)

lemma decode3: "DecodeConsensusData env3 (Uint32ToBytes 0) = Inr 0"
  by (simp add: DecodeConsensusData_def env3_simps word_item_def BytesToUint32_ToBytes [of _ "[]", simplified])

lemma signature3: "ValidateSignature env3 (blk_Header (fork_block ts)) [[1], [2]] pof3 = Inr ()"
  by (simp add: ValidateSignature_def fork_block_def decode3 TopRank_def pof3_def rank3_def env3_simps NewConsensus_def key3_def KeyMap_of_def
      ValidateSignaturesMajority_iff signer_set_def signer_of_def has_key_def majority_def rank_Clone_def)

lemma addr3: "addr0 \<noteq> NewAddress 0 0 0"
proof
  assume *: "addr0 = NewAddress 0 0 0"
  have "NewAddress 0 0 0 = rev (nat_to_le (Suc 3) 0) @ be16 0 @ Codec.be64 0" by (simp add: NewAddress_def Codec.be32_def nat_to_be_def)
  then have "(0 :: byte) \<in> set (NewAddress 0 0 0)" by (simp only: set_append set_rev nat_to_le.simps) simp
  then show False by (simp flip: *, simp add: addr0_def)
qed

lemma header3: "\<not> ts \<le> 0 \<Longrightarrow> validateHeader (pe_chain env3) chain3 (blk_Header (fork_block ts)) = Inr ()"
  by (simp add: validateHeader_def chain3_def LastStatus_cached set_cache_def NewStore_def fork_block_def addr3)

lemma status3: "cached (cn_store chain3)" "cn_LastStatus (pe_chain env3) chain3 = Inr (0, replicate 32 1, 0)" "pof_chain env3 chain3" "cn_state chain3 = pof3"
  by (simp_all add: chain3_def LastStatus_cached set_cache_def NewStore_def pof_chain_def)

lemma root3: "validateTransactionSignatures (pe_chain env3) chain3 (fork_block ts) = Inr []"
proof -
  have s: "schedule (ce_sched (pe_chain env3))" by (auto simp: schedule_def env3_simps)
  have sl: "slices_ok (pe_chain env3) (fork_block ts)" using s by (simp add: slices_ok_def env3_simps fork_block_def)
  have "level_root (sha codec0) hs = replicate 32 9" for hs by (simp add: level_root_def level_node_def hash3)
  then show ?thesis using validate_signed [OF sl, of chain3] BuildLevelRoot_level_root [OF s]
    by (simp add: fork_block_def env3_simps)
qed

lemma hooks3: "ctx_StackSize c \<le> 1 \<Longrightarrow> run_hooks chain3 p_Before c = (Inr (), c)" "ctx_StackSize c \<le> 1 \<Longrightarrow> run_hooks chain3 (\<lambda>p. p_After p b) c = (Inr (), c)"
  "ctx_StackSize c \<le> 1 \<Longrightarrow> run_hooks chain3 (\<lambda>p. p_OnSave p b) c = (Inr (), c)"
  by (simp_all add: run_hooks_def hooks_def chain3_def process0_def clean_def cbind_def cret_def check_stack_def)

lemma execute3:
  assumes "ctx_StackSize c = 1"
  shows "executeBlockOnContext (pe_chain env3) chain3 (fork_block ts) c = (Inr (), c)"
proof -
  have "Transactions (fork_block ts) = []" by (simp add: fork_block_def)
  then show ?thesis using assms by (simp add: executeBlockOnContext_def root3 cbind_def clift_def hooks3 cret_def check_stack_def)
qed

lemma update3:
  assumes "maxPhaseDiff cs = None" "ctx_stack c = [NewContextData None]"
  shows "updateFormulatorList env3 c cs = (if candidates (pof_rt cs) = [] then Inl ErrInsufficientCandidateCount else Inr (), cs)"
  using assms by (simp add: updateFormulatorList_def new_phase_def env3_simps entries_def no_orders_def CandidateCount_def Let_def map_filter_simps)

lemma build3: "\<exists>data. buildSaveData env3 (pof3\<lparr>blocksBySameFormulator := n\<rparr>) = Inr data \<and> data \<noteq> []"
  by (simp add: buildSaveData_def env3_simps pof3_def NewConsensus_def word_item_def PublicHashBoolMap_def ordered_map_def slist_def enc_RankTable_def
      sm_Encode_def sm_EachAll_def enc_Rank_def bytes_item_def bool_item_def item0_def enc_item_def)

lemma save3:
  assumes "ctx_stack c = [NewContextData None]"
  shows "\<exists>c'. pof_OnSaveData env3 (fork_block ts) (c, pof3) = (Inr (), c', pof3\<lparr>blocksBySameFormulator := 1\<rparr>)
     \<and> ctx_StackSize c' = 1 \<and> AccountMap (hd (ctx_stack c')) = Map.empty \<and> Events (hd (ctx_stack c')) = []"
proof -
  have "advance env3 (fork_block ts) pof3 = (Inr (), pof3\<lparr>blocksBySameFormulator := 1\<rparr>)"
    by (simp add: advance_def fork_block_def decode3 pof3_wf Let_def word_le_nat_alt)
  moreover obtain data where "buildSaveData env3 (pof3\<lparr>blocksBySameFormulator := 1\<rparr>) = Inr data" using build3 by blast
  moreover have "candidates (pof_rt pof3) \<noteq> []" by (simp add: pof3_def)
  ultimately show ?thesis using assms
    by (simp add: pof_OnSaveData_def save_state_def update3 pof3_wf ctx_SetProcessData_def on_top_def NewContextData_def ctx_StackSize_def dirty_def
        ctd_SetProcessData_def Let_def on_stack_def)
qed

lemma context3:
  "\<exists>c. hash_ctx (pe_chain env3) (NewContext L) = (Inr (replicate 32 9), c) \<and> ctx_stack c = [NewContextData None]"
  by (simp add: NewContext_def NewContextData_def ctx_Hash_def ctd_Hash_def ctd_buffer_def label_def map_Hash_def entries_def
      sm_Encode_def sm_EachAll_def slist_def env3_simps item0_def no_orders_def Hashes_def map_filter_simps hash3)

lemma store3:
  assumes "Events ctd = []"
  shows "\<exists>st. StoreBlock codec0 wire0 no_orders now (fork_block ts) ctd (cn_store chain3) = (Inr (), st)"
proof -
  obtain data where "EncodeBlock wire0 (fork_block ts) = Inr data" by (simp add: EncodeBlock_def fork_block_def)
  then show ?thesis using assms
    by (simp add: StoreBlock_def chain3_def set_cache_def NewStore_def db_Update_def applyContextDataOld_def no_orders_def apply_events_def Let_def)
qed

lemma connect3:
  assumes "\<not> ts \<le> 0"
  shows "\<exists>cn. ConnectBlock (pe_chain env3) now (fork_block ts) chain3 = (Inr (), cn)"
proof -
  define L where "L = cn_loader (pe_chain env3) chain3"
  obtain c where c: "hash_ctx (pe_chain env3) (NewContext L) = (Inr (replicate 32 9), c)" "ctx_stack c = [NewContextData None]" using context3 by blast
  obtain c' where c': "pof_OnSaveData env3 (fork_block ts) (c, pof3) = (Inr (), c', pof3\<lparr>blocksBySameFormulator := 1\<rparr>)" "ctx_StackSize c' = 1"
    "Events (hd (ctx_stack c')) = []" using save3 [OF c(2)] by blast
  obtain st where st: "StoreBlock codec0 wire0 no_orders now (fork_block ts) (hd (ctx_stack c')) (cn_store chain3) = (Inr (), st)"
    using store3 [OF c'(3)] by blast
  have cn: "cn_consensus chain3 = pof_consensus env3" "cn_state chain3 = pof3" "\<not> cn_isClose chain3" by (simp_all add: chain3_def)
  have b: "bh_ContextHash (blk_Header (fork_block ts)) = replicate 32 9" "Signatures (fork_block ts) = [[1], [2]]" by (simp_all add: fork_block_def)
  have size: "ctx_StackSize c = 1" "ctx_StackSize (NewContext L) = 1" "ctx_stack c' \<noteq> []"
    using c(2) c'(2) by (auto simp: ctx_StackSize_def NewContext_def)
  have "\<exists>cn. connectBlockWithContext (pe_chain env3) now (fork_block ts) (NewContext L) chain3 = (Inr (), c', cn)"
    using st by (simp add: connectBlockWithContext_def c(1) [simplified env3_simps] b cbind_def check_stack_def size hooks3 cn pof_consensus_def c' env3_simps Let_def)
  then show ?thesis
    using header3 [OF assms] by (auto simp: ConnectBlock_def cn pof_consensus_def b signature3 L_def [symmetric] execute3 [OF size(2)])
qed

theorem fork_accountable_witness:
  "\<exists>p. observer_signed env3 p (fork_block 1) \<and> observer_signed env3 p (fork_block 2)"
proof -
  have w: "\<not> (1 :: u64) \<le> 0" "\<not> (2 :: u64) \<le> 0" by simp_all
  let ?A = "fst (ConnectBlocks (pe_chain env3) [(0, fork_block 1)] chain3)" and ?B = "fst (ConnectBlocks (pe_chain env3) [(0, fork_block 2)] chain3)"
  have run: "?A = [fork_block 1]" "?B = [fork_block 2]"
    using connect3 [OF w(1), of 0] connect3 [OF w(2), of 0] by auto
  have ne: "blk_Header (?A ! 0) \<noteq> blk_Header (?B ! 0)" unfolding run by (simp add: fork_block_def)
  have "0 < length ?A" "0 < length ?B" unfolding run by simp_all
  note this ne
  from fork_accountable [OF status3(3,3) _ _ refl status3(1,1,2,2) _ _ refl refl this] run show ?thesis
    by (auto simp: status3(4) pof3_wf)
qed

theorem consensus_restart_witness:
  "\<exists>c. pof_OnLoadChain env3 c (NewConsensus 10 [key3 [2]]) = (Inr (), pof3\<lparr>blocksBySameFormulator := 1\<rparr>)"
proof -
  fix L :: loader
  have wf: "ctx_wf (NewContext L)" by (simp add: ctx_wf_def NewContext_def NewContextData_def)
  obtain c' where c': "pof_OnSaveData env3 (fork_block 1) (NewContext L, pof3) = (Inr (), c', pof3\<lparr>blocksBySameFormulator := 1\<rparr>)"
    using save3 [of "NewContext L" 1] by (auto simp: NewContext_def)
  then obtain data where "ctx_SetProcessData 0 tagState data (NewContext L) = (Inr (), c')" using OnSaveData_done(4) [OF c'] by auto
  then have "ctx_wf c'" using writesD(3) [OF ctx_SetProcessData_writes [OF wf, of 0 tagState data]] by simp
  have "sorted_wrt (<) (map fst (observerKeyMap pof3))" by (simp add: pof3_wf)
  from consensus_restart [OF env3_ok wf pof3_wf(1) this c' \<open>ctx_wf c'\<close> refl, of "NewConsensus 10 [key3 [2]]"]
  show ?thesis by (auto simp: pof3_def NewConsensus_def)
qed

end
