(* ===== verification/Queues.thy ===== *)
theory Queues
  imports Prelude
begin

text \<open>
  \<open>common/queue/queue.go\<close> and \<open>common/queue/linked.go\<close>: a queue made of ring pages of 1024 slots, and a
  doubly linked queue whose items can also be removed by key. Both are proved to implement the contract
  of a first-in first-out list (locale \<open>fifo\<close>). An \<open>interface{}\<close> is an \<open>option\<close>, with \<open>None\<close> for \<open>nil\<close>.
  Every method holds the mutex of its queue, so a method call is one step.
\<close>

section \<open>The paged queue\<close>

definition pageCap :: nat where "pageCap = 1024"

record 'a queuePage =
  pg_queue :: "'a option list"
  pg_head :: nat
  pg_tail :: nat
  pg_size :: nat

record 'a queue =
  q_pages :: "'a queuePage list"
  q_size :: nat

definition newPage :: "'a queuePage" where
  "newPage = \<lparr>pg_queue = replicate pageCap None, pg_head = 0, pg_tail = 0, pg_size = 0\<rparr>"

definition NewQueue :: "'a queue" where
  "NewQueue = \<lparr>q_pages = [], q_size = 0\<rparr>"

definition page_cap :: "'a queuePage \<Rightarrow> nat" where
  "page_cap page = length (pg_queue page)"

definition page_push :: "'a option \<Rightarrow> 'a queuePage \<Rightarrow> 'a queuePage res" where
  "page_push item page =
     (if page_cap page \<le> pg_size page then Inl ErrFullQueue
      else Inr (page\<lparr>pg_queue := (pg_queue page)[pg_tail page := item],
                     pg_tail := (pg_tail page + 1) mod page_cap page,
                     pg_size := pg_size page + 1\<rparr>))"

definition page_peek :: "'a queuePage \<Rightarrow> 'a option" where
  "page_peek page = (if pg_size page = 0 then None else pg_queue page ! pg_head page)"

definition page_pop :: "'a queuePage \<Rightarrow> 'a option \<times> 'a queuePage" where
  "page_pop page =
     (if pg_size page = 0 then (None, page)
      else (pg_queue page ! pg_head page,
            page\<lparr>pg_head := (pg_head page + 1) mod page_cap page, pg_size := pg_size page - 1\<rparr>))"

definition page_iter :: "'a queuePage \<Rightarrow> 'a option list" where
  "page_iter page = map (\<lambda>i. pg_queue page ! ((pg_head page + i) mod page_cap page)) [0..<pg_size page]"

text \<open>
  \<open>Push\<close> takes a page from \<open>queuePagePool\<close> when it needs one: \<open>fresh\<close> is what \<open>Get\<close> would return.
  The error of \<open>page.push\<close> is dropped, as in the source.
\<close>

definition Push :: "'a queuePage \<Rightarrow> 'a option \<Rightarrow> 'a queue \<Rightarrow> 'a queue" where
  "Push fresh item q =
     (let pages = (if length (q_pages q) = 0 then [fresh]
                   else if pg_size (last (q_pages q)) = page_cap (last (q_pages q)) then q_pages q @ [fresh]
                   else q_pages q);
          page = last pages;
          page' = (case page_push item page of Inl err \<Rightarrow> page | Inr p \<Rightarrow> p)
      in q\<lparr>q_pages := butlast pages @ [page'], q_size := q_size q + 1\<rparr>)"

definition Peek :: "'a queue \<Rightarrow> 'a option" where
  "Peek q = (if length (q_pages q) = 0 then None else page_peek (hd (q_pages q)))"

text \<open>\<open>Pop\<close> also returns the page it puts back into the pool, if any.\<close>

definition Pop :: "'a queue \<Rightarrow> 'a option \<times> 'a queuePage option \<times> 'a queue" where
  "Pop q =
     (if length (q_pages q) = 0 then (None, None, q)
      else case page_pop (hd (q_pages q)) of (item, page) \<Rightarrow>
        if item \<noteq> None then
          if pg_size page = 0 \<and> 1 < length (q_pages q)
          then (item, Some page, q\<lparr>q_pages := tl (q_pages q), q_size := q_size q - 1\<rparr>)
          else (item, None, q\<lparr>q_pages := page # tl (q_pages q), q_size := q_size q - 1\<rparr>)
        else (item, None, q\<lparr>q_pages := page # tl (q_pages q)\<rparr>))"

definition queue_Size :: "'a queue \<Rightarrow> nat" where "queue_Size q = q_size q"

definition queue_Iter :: "'a queue \<Rightarrow> 'a option list" where
  "queue_Iter q = concat (map page_iter (q_pages q))"

section \<open>The contract of a first-in first-out queue\<close>

datatype 'x qop = QPush 'x | QPop

text \<open>A run of operations: the values the pops return, and the final queue.\<close>

fun qrun :: "('x \<Rightarrow> 'q \<Rightarrow> 'q res) \<Rightarrow> ('q \<Rightarrow> ('a option \<times> 'q) res) \<Rightarrow> 'x qop list \<Rightarrow> 'q \<Rightarrow> ('a option list \<times> 'q) res" where
  "qrun push pop [] q = Inr ([], q)"
| "qrun push pop (QPush x # ops) q = bind_res (push x q) (qrun push pop ops)"
| "qrun push pop (QPop # ops) q =
     bind_res (pop q) (\<lambda>(v, q'). bind_res (qrun push pop ops q') (\<lambda>(vs, q''). Inr (v # vs, q'')))"

fun list_run :: "('x \<Rightarrow> 'a) \<Rightarrow> 'x qop list \<Rightarrow> 'a list \<Rightarrow> 'a option list \<times> 'a list" where
  "list_run val [] xs = ([], xs)"
| "list_run val (QPush x # ops) xs = list_run val ops (xs @ [val x])"
| "list_run val (QPop # ops) [] = (case list_run val ops [] of (vs, ys) \<Rightarrow> (None # vs, ys))"
| "list_run val (QPop # ops) (x # xs) = (case list_run val ops xs of (vs, ys) \<Rightarrow> (Some x # vs, ys))"

locale fifo =
  fixes rep :: "'q \<Rightarrow> 'a list \<Rightarrow> bool"
    and ok :: "'x \<Rightarrow> bool"
    and val :: "'x \<Rightarrow> 'a"
    and push :: "'x \<Rightarrow> 'q \<Rightarrow> 'q res"
    and pop :: "'q \<Rightarrow> ('a option \<times> 'q) res"
  assumes push_rep: "rep q xs \<Longrightarrow> ok x \<Longrightarrow> \<exists>q'. push x q = Inr q' \<and> rep q' (xs @ [val x])"
    and pop_empty: "rep q [] \<Longrightarrow> \<exists>q'. pop q = Inr (None, q') \<and> rep q' []"
    and pop_first: "rep q (y # ys) \<Longrightarrow> \<exists>q'. pop q = Inr (Some y, q') \<and> rep q' ys"
begin

lemma run_refines:
  assumes "rep q xs" "list_all (pred_qop ok) ops"
  shows "\<exists>q'. qrun push pop ops q = Inr (fst (list_run val ops xs), q') \<and> rep q' (snd (list_run val ops xs))"
  using assms
proof (induction ops arbitrary: q xs)
  case (Cons r ops)
  show ?case
  proof (cases r)
    case (QPush x)
    then obtain q' where "push x q = Inr q'" "rep q' (xs @ [val x])"
      using push_rep [OF Cons.prems(1)] Cons.prems(2) by auto
    then show ?thesis using Cons QPush by auto
  next
    case QPop
    show ?thesis
    proof (cases xs)
      case Nil
      then obtain q' where "pop q = Inr (None, q')" "rep q' []" using pop_empty Cons.prems(1) by blast
      then show ?thesis using Cons.IH [of q' "[]"] Cons.prems(2) QPop Nil by (auto split: prod.splits)
    next
      case xs: (Cons y ys)
      then obtain q' where "pop q = Inr (Some y, q')" "rep q' ys" using pop_first Cons.prems(1) by blast
      then show ?thesis using Cons.IH [of q' ys] Cons.prems(2) QPop xs by (auto split: prod.splits)
    qed
  qed
qed simp

end

section \<open>The paged queue implements the contract\<close>

definition page_ok :: "'a queuePage \<Rightarrow> bool" where
  "page_ok p \<longleftrightarrow> length (pg_queue p) = pageCap \<and> pg_head p < pageCap \<and> pg_size p \<le> pageCap
     \<and> pg_tail p = (pg_head p + pg_size p) mod pageCap"

text \<open>What the pool may hold: pages of size 0, with the ring anywhere and stale items in the slots.\<close>

definition fresh_page :: "'a queuePage \<Rightarrow> bool" where
  "fresh_page p \<longleftrightarrow> page_ok p \<and> pg_size p = 0"

definition queue_rep :: "'a queue \<Rightarrow> 'a list \<Rightarrow> bool" where
  "queue_rep q xs \<longleftrightarrow>
     list_all page_ok (q_pages q)
     \<and> (1 < length (q_pages q) \<longrightarrow> list_all (\<lambda>p. 0 < pg_size p) (q_pages q))
     \<and> queue_Iter q = map Some xs \<and> q_size q = length xs"

lemma pageCap_pos [simp]: "0 < pageCap" by (simp add: pageCap_def)

lemma ring_slots_differ:
  assumes "i < s" "s < (c :: nat)" shows "(h + i) mod c \<noteq> (h + s) mod c"
proof
  assume "(h + i) mod c = (h + s) mod c"
  then have "c dvd (h + s) - (h + i)" using assms(1) by (subst mod_eq_dvd_iff_nat [symmetric]) auto
  then show False using assms by (auto dest: dvd_imp_le)
qed

lemma fresh_newPage [simp]: "fresh_page newPage"
  by (simp add: fresh_page_def page_ok_def newPage_def)

lemma length_page_iter [simp]: "length (page_iter p) = pg_size p"
  by (simp add: page_iter_def)

lemma page_push_ok:
  assumes "page_ok p" "pg_size p < pageCap"
  shows "\<exists>p'. page_push i p = Inr p' \<and> page_ok p' \<and> page_iter p' = page_iter p @ [i] \<and> pg_size p' = pg_size p + 1"
proof -
  let ?p = "p\<lparr>pg_queue := (pg_queue p)[pg_tail p := i], pg_tail := (pg_tail p + 1) mod pageCap,
      pg_size := pg_size p + 1\<rparr>"
  have ok: "length (pg_queue p) = pageCap" "pg_head p < pageCap"
    "pg_tail p = (pg_head p + pg_size p) mod pageCap" using assms(1) by (auto simp: page_ok_def)
  have "page_push i p = Inr ?p" using assms(2) ok(1) by (simp add: page_push_def page_cap_def)
  moreover have "page_ok ?p" using assms(2) ok by (simp add: page_ok_def mod_Suc_eq)
  moreover have "page_iter ?p = page_iter p @ [i]"
  proof -
    have "(pg_queue p)[pg_tail p := i] ! ((pg_head p + j) mod pageCap) = pg_queue p ! ((pg_head p + j) mod pageCap)"
      if "j < pg_size p" for j
      using ring_slots_differ [OF that assms(2), of "pg_head p"] ok(3) by simp
    then show ?thesis using ok by (simp add: page_iter_def page_cap_def)
  qed
  ultimately show ?thesis by auto
qed

lemma page_pop_ok:
  assumes "page_ok p" "0 < pg_size p"
  shows "\<exists>i p'. page_pop p = (i, p') \<and> page_ok p' \<and> page_iter p = i # page_iter p' \<and> pg_size p' = pg_size p - 1"
proof -
  let ?p = "p\<lparr>pg_head := (pg_head p + 1) mod pageCap, pg_size := pg_size p - 1\<rparr>"
  have ok: "length (pg_queue p) = pageCap" "pg_head p < pageCap" "pg_size p \<le> pageCap"
    "pg_tail p = (pg_head p + pg_size p) mod pageCap" using assms(1) by (auto simp: page_ok_def)
  have "page_pop p = (pg_queue p ! pg_head p, ?p)" using assms(2) ok(1) by (simp add: page_pop_def page_cap_def)
  moreover have "page_ok ?p"
  proof -
    obtain n where n: "pg_size p = Suc n" using assms(2) by (cases "pg_size p") auto
    have "(Suc (pg_head p) mod pageCap + n) mod pageCap = (pg_head p + Suc n) mod pageCap"
      by (simp add: mod_add_left_eq)
    then show ?thesis using ok n by (simp add: page_ok_def)
  qed
  moreover have "page_iter p = pg_queue p ! pg_head p # page_iter ?p"
  proof -
    obtain n where n: "pg_size p = Suc n" using assms(2) by (cases "pg_size p") auto
    have "[0..<Suc n] = 0 # map Suc [0..<n]" by (simp add: map_Suc_upt upt_conv_Cons)
    then show ?thesis
      using ok n by (simp add: page_iter_def page_cap_def mod_add_left_eq comp_def del: upt_Suc)
  qed
  ultimately show ?thesis by auto
qed

lemma queue_Iter_append:
  "q_pages q = ps @ [p] \<Longrightarrow> queue_Iter q = concat (map page_iter ps) @ page_iter p"
  by (simp add: queue_Iter_def)

lemma Push_rep:
  assumes "queue_rep q xs" "fresh_page fresh"
  shows "queue_rep (Push fresh (Some x) q) (xs @ [x])"
proof -
  let ?pages = "if length (q_pages q) = 0 then [fresh]
                else if pg_size (last (q_pages q)) = page_cap (last (q_pages q)) then q_pages q @ [fresh]
                else q_pages q"
  define ps p where "ps = butlast ?pages" and "p = last ?pages"
  have pages: "?pages = ps @ [p]" unfolding ps_def p_def by (intro append_butlast_last_id [symmetric]) simp
  have fresh: "page_ok fresh" "page_iter fresh = []" "pg_size fresh = 0"
    using assms(2) by (simp_all add: fresh_page_def page_iter_def)
  have rep: "list_all page_ok (q_pages q)" "1 < length (q_pages q) \<longrightarrow> list_all (\<lambda>p. 0 < pg_size p) (q_pages q)"
    "queue_Iter q = map Some xs" "q_size q = length xs" using assms(1) by (auto simp: queue_rep_def)
  have cap: "page_cap r = pageCap" if "page_ok r" for r :: "'a queuePage"
    using that by (simp add: page_ok_def page_cap_def)
  have "list_all page_ok ?pages" using rep(1) fresh by simp
  then have ok: "list_all page_ok ps" "page_ok p" unfolding pages by auto
  have it: "concat (map page_iter ?pages) = map Some xs"
    using rep(3) fresh by (auto simp: queue_Iter_def)
  have room: "pg_size p < pageCap"
  proof (cases "q_pages q = []")
    case False
    have "page_ok (last (q_pages q))" using False rep(1) by (simp add: list_all_iff)
    then show ?thesis using False fresh cap [of "last (q_pages q)"] by (auto simp: p_def page_ok_def)
  qed (simp add: p_def fresh)
  have full: "list_all (\<lambda>r. 0 < pg_size r) ps"
  proof (cases "1 < length (q_pages q)")
    case True
    then show ?thesis using rep(2) by (auto simp: ps_def list_all_iff dest: in_set_butlastD)
  next
    case False
    then consider "q_pages q = []" | r where "q_pages q = [r]" by (cases "q_pages q"; cases "tl (q_pages q)") auto
    then show ?thesis using rep(1) cap by cases (auto simp: ps_def)
  qed
  obtain p' where p': "page_push (Some x) p = Inr p'" "page_ok p'" "page_iter p' = page_iter p @ [Some x]"
    "pg_size p' = pg_size p + 1" using page_push_ok [OF ok(2) room] by blast
  have "Push fresh (Some x) q = q\<lparr>q_pages := ps @ [p'], q_size := q_size q + 1\<rparr>"
    unfolding Push_def Let_def using p'(1) by (simp add: ps_def p_def)
  then show ?thesis
    using ok full p' it rep(4) unfolding pages by (simp add: queue_rep_def queue_Iter_def)
qed

lemma Pop_rep_empty: "queue_rep q [] \<Longrightarrow> Pop q = (None, None, q)"
proof -
  assume "queue_rep q []"
  then have "\<forall>p \<in> set (q_pages q). page_iter p = []" "q_size q = 0"
    by (auto simp: queue_rep_def queue_Iter_def)
  then have "\<forall>p \<in> set (q_pages q). pg_size p = 0"
    by (metis length_page_iter list.size(3))
  then show ?thesis by (cases "q_pages q") (auto simp: Pop_def page_pop_def)
qed

lemma Pop_rep:
  assumes "queue_rep q (x # xs)"
  shows "\<exists>put q'. Pop q = (Some x, put, q') \<and> queue_rep q' xs \<and> (\<forall>p. put = Some p \<longrightarrow> fresh_page p)"
proof -
  have rep: "list_all page_ok (q_pages q)" "1 < length (q_pages q) \<longrightarrow> list_all (\<lambda>p. 0 < pg_size p) (q_pages q)"
    "concat (map page_iter (q_pages q)) = Some x # map Some xs" "q_size q = Suc (length xs)"
    using assms by (auto simp: queue_rep_def queue_Iter_def)
  then obtain p ps where ps: "q_pages q = p # ps" by (cases "q_pages q") auto
  have "0 < pg_size p"
  proof (cases "ps = []")
    case True
    then have "page_iter p \<noteq> []" using rep(3) ps by auto
    then show ?thesis by (metis length_greater_0_conv length_page_iter)
  qed (use rep(2) ps in auto)
  then obtain i p' where p': "page_pop p = (i, p')" "page_ok p'" "page_iter p = i # page_iter p'"
    "pg_size p' = pg_size p - 1" using page_pop_ok [of p] rep(1) ps by auto
  have i: "i = Some x" "page_iter p' @ concat (map page_iter ps) = map Some xs" using rep(3) ps p'(3) by auto
  show ?thesis
  proof (cases "pg_size p' = 0 \<and> ps \<noteq> []")
    case True
    then have "Pop q = (Some x, Some p', q\<lparr>q_pages := ps, q_size := q_size q - 1\<rparr>)"
      using p'(1) i(1) ps by (simp add: Pop_def)
    moreover have "page_iter p' = []" using True by (metis length_0_conv length_page_iter)
    ultimately show ?thesis
      using True rep ps p'(2) i(2) by (auto simp: queue_rep_def queue_Iter_def fresh_page_def)
  next
    case False
    then have "Pop q = (Some x, None, q\<lparr>q_pages := p' # ps, q_size := q_size q - 1\<rparr>)"
      using p'(1) i(1) ps by (auto simp: Pop_def)
    then show ?thesis
      using False rep ps p'(2) i(2) by (auto simp: queue_rep_def queue_Iter_def)
  qed
qed

definition queue_push :: "'a queuePage \<times> 'a \<Rightarrow> 'a queue \<Rightarrow> 'a queue res" where
  "queue_push = (\<lambda>(fresh, x) q. Inr (Push fresh (Some x) q))"

definition queue_pop :: "'a queue \<Rightarrow> ('a option \<times> 'a queue) res" where
  "queue_pop q = (case Pop q of (item, put, q') \<Rightarrow> Inr (item, q'))"

interpretation paged: fifo queue_rep "\<lambda>(p, x). fresh_page p" snd queue_push queue_pop
proof
  show "\<exists>q'. queue_push x q = Inr q' \<and> queue_rep q' (xs @ [snd x])"
    if "queue_rep q xs" "case x of (p, x) \<Rightarrow> fresh_page p" for q xs and x :: "'a queuePage \<times> 'a"
    using that by (auto simp: queue_push_def Push_rep split: prod.splits)
  show "\<exists>q'. queue_pop q = Inr (None, q') \<and> queue_rep q' []" if "queue_rep q []" for q :: "'a queue"
    using that by (simp add: queue_pop_def Pop_rep_empty)
  show "\<exists>q'. queue_pop q = Inr (Some y, q') \<and> queue_rep q' ys" if "queue_rep q (y # ys)" for q and y :: 'a and ys
    using Pop_rep [OF that] by (auto simp: queue_pop_def)
qed

lemma NewQueue_rep [simp]: "queue_rep NewQueue []"
  by (simp add: queue_rep_def NewQueue_def queue_Iter_def)

text \<open>
  C24. The paged queue is a first-in first-out queue. From \<open>NewQueue\<close>, any sequence of \<open>Push\<close> and \<open>Pop\<close>
  returns what the same operations return on a list, across ring wrap-around, page changes and pages
  recycled through the pool, and afterwards \<open>Size\<close> and \<open>Iter\<close> give the length and the items of that list.
\<close>

theorem Queue_fifo:
  assumes "list_all (pred_qop (\<lambda>(p, x). fresh_page p)) ops"
  shows "\<exists>q. qrun queue_push queue_pop ops NewQueue = Inr (fst (list_run snd ops []), q)
           \<and> queue_Size q = length (snd (list_run snd ops []))
           \<and> queue_Iter q = map Some (snd (list_run snd ops []))"
  using paged.run_refines [OF NewQueue_rep assms] by (auto simp: queue_rep_def queue_Size_def)

theorem Queue_fifo_witness:
  "\<exists>q. qrun queue_push queue_pop [QPush (newPage, 1 :: nat), QPush (newPage, 2), QPop, QPop, QPop] NewQueue
       = Inr ([Some 1, Some 2, None], q) \<and> queue_Size q = 0"
  using Queue_fifo [of "[QPush (newPage, 1 :: nat), QPush (newPage, 2), QPop, QPop, QPop]"] by auto

end
