(* ===== verification/Linked_Queue.thy ===== *)
theory Linked_Queue
  imports Queues
begin

text \<open>
  \<open>common/queue/linked.go\<close>: the doubly linked queue of the transaction pool. The nodes live in an explicit
  store, since \<open>Push\<close>, \<open>Pop\<close> and \<open>Remove\<close> change the links of their neighbours in place: an address is a
  number, \<open>lq_next\<close> the next unused one, and \<open>nil\<close> is \<open>None\<close>. Using a \<open>nil\<close> pointer panics.
\<close>

record 'a linkedItem =
  li_Prev :: "nat option"
  li_Key :: hash256
  li_Item :: "'a option"
  li_Next :: "nat option"

record 'a linkedQueue =
  lq_Head :: "nat option"
  lq_Tail :: "nat option"
  lq_keyMap :: "hash256 \<rightharpoonup> nat"
  lq_heap :: "nat \<Rightarrow> 'a linkedItem"
  lq_next :: nat

definition NewLinkedQueue :: "'a linkedQueue" where
  "NewLinkedQueue = \<lparr>lq_Head = None, lq_Tail = None, lq_keyMap = Map.empty,
     lq_heap = (\<lambda>_. \<lparr>li_Prev = None, li_Key = [], li_Item = None, li_Next = None\<rparr>), lq_next = 0\<rparr>"

abbreviation set_Prev :: "nat \<Rightarrow> nat option \<Rightarrow> (nat \<Rightarrow> 'a linkedItem) \<Rightarrow> nat \<Rightarrow> 'a linkedItem" where
  "set_Prev a p h \<equiv> h(a := (h a)\<lparr>li_Prev := p\<rparr>)"

abbreviation set_Next :: "nat \<Rightarrow> nat option \<Rightarrow> (nat \<Rightarrow> 'a linkedItem) \<Rightarrow> nat \<Rightarrow> 'a linkedItem" where
  "set_Next a n h \<equiv> h(a := (h a)\<lparr>li_Next := n\<rparr>)"

definition LPush :: "hash256 \<Rightarrow> 'a option \<Rightarrow> 'a linkedQueue \<Rightarrow> 'a linkedQueue res" where
  "LPush Key item q =
     (let nd = lq_next q;
          h = (lq_heap q)(nd := \<lparr>li_Prev = None, li_Key = Key, li_Item = item, li_Next = None\<rparr>);
          q = q\<lparr>lq_next := nd + 1\<rparr>
      in if lq_Head q = None
         then Inr (q\<lparr>lq_Head := Some nd, lq_Tail := Some nd, lq_heap := h, lq_keyMap := (lq_keyMap q)(Key \<mapsto> nd)\<rparr>)
         else case lq_Tail q of
             None \<Rightarrow> Inl Panic
           | Some t \<Rightarrow>
               Inr (q\<lparr>lq_heap := set_Next t (Some nd) (set_Prev nd (lq_Tail q) h), lq_Tail := Some nd,
                      lq_keyMap := (lq_keyMap q)(Key \<mapsto> nd)\<rparr>))"

definition LPop :: "'a linkedQueue \<Rightarrow> ('a option \<times> 'a linkedQueue) res" where
  "LPop q =
     (case lq_Head q of
        None \<Rightarrow> Inr (None, q)
      | Some nd \<Rightarrow>
          bind_res
            (if Some nd = lq_Tail q then Inr (q\<lparr>lq_Head := None, lq_Tail := None\<rparr>)
             else case li_Next (lq_heap q nd) of
                 None \<Rightarrow> Inl Panic
               | Some b \<Rightarrow> Inr (q\<lparr>lq_Head := Some b, lq_heap := set_Prev b None (lq_heap q)\<rparr>))
            (\<lambda>q. let h = set_Next nd None (set_Prev nd None (lq_heap q))
                 in Inr (li_Item (h nd), q\<lparr>lq_heap := h, lq_keyMap := (lq_keyMap q)(li_Key (h nd) := None)\<rparr>)))"

definition LRemove :: "hash256 \<Rightarrow> 'a linkedQueue \<Rightarrow> 'a option \<times> 'a linkedQueue" where
  "LRemove Key q =
     (if lq_Head q = None then (None, q)
      else case lq_keyMap q Key of
          None \<Rightarrow> (None, q)
        | Some nd \<Rightarrow>
            let h = lq_heap q;
                h = (case li_Next (h nd) of None \<Rightarrow> h | Some b \<Rightarrow> set_Prev b (li_Prev (h nd)) h);
                h = (case li_Prev (h nd) of None \<Rightarrow> h | Some a \<Rightarrow> set_Next a (li_Next (h nd)) h);
                q = (if Some nd = lq_Head q then q\<lparr>lq_Head := li_Next (h nd)\<rparr> else q);
                q = (if Some nd = lq_Tail q then q\<lparr>lq_Tail := li_Prev (h nd)\<rparr> else q);
                h = set_Next nd None (set_Prev nd None h)
            in (li_Item (h nd), q\<lparr>lq_heap := h\<rparr>))"

section \<open>The list a queue stands for\<close>

text \<open>\<open>seg h p as n\<close>: the nodes \<open>as\<close> are linked in order, with \<open>p\<close> before the first and \<open>n\<close> after the last.\<close>

primrec seg :: "(nat \<Rightarrow> 'a linkedItem) \<Rightarrow> nat option \<Rightarrow> nat list \<Rightarrow> nat option \<Rightarrow> bool" where
  "seg h p [] n \<longleftrightarrow> True"
| "seg h p (a # as) n \<longleftrightarrow>
     li_Prev (h a) = p \<and> li_Next (h a) = (case as of [] \<Rightarrow> n | b # _ \<Rightarrow> Some b) \<and> seg h (Some a) as n"

definition first_ptr :: "nat list \<Rightarrow> nat option \<Rightarrow> nat option" where
  "first_ptr as n = (case as of [] \<Rightarrow> n | b # _ \<Rightarrow> Some b)"

definition last_ptr :: "nat list \<Rightarrow> nat option \<Rightarrow> nat option" where
  "last_ptr as p = (if as = [] then p else Some (last as))"

lemma ptr_simps [simp]:
  "first_ptr [] n = n" "first_ptr (a # as) n = Some a" "last_ptr [] p = p" "last_ptr (as @ [a]) p = Some a"
  "last_ptr [a] p = Some a" "last_ptr (as @ b # bs) p = Some (last (b # bs))"
  by (simp_all add: first_ptr_def last_ptr_def)

lemma seg_append: "seg h p (as @ bs) n \<longleftrightarrow> seg h p as (first_ptr bs n) \<and> seg h (last_ptr as p) bs n"
proof (induction as arbitrary: p)
  case (Cons a as)
  then show ?case by (cases as; cases bs) (auto simp: last_ptr_def)
qed simp

lemma seg_other [simp]: "a \<notin> set as \<Longrightarrow> seg (h(a := v)) p as n \<longleftrightarrow> seg h p as n"
  by (induction as arbitrary: p) auto

lemma seg_set_Next: "b \<notin> set as \<Longrightarrow> seg h p (as @ [b]) n \<Longrightarrow> seg (set_Next b n' h) p (as @ [b]) n'"
  by (simp add: seg_append)

lemma seg_set_Prev: "b \<notin> set bs \<Longrightarrow> seg h p (b # bs) n \<Longrightarrow> seg (set_Prev b p' h) p' (b # bs) n"
  by simp

text \<open>
  The invariant: the nodes from \<open>Head\<close> to \<open>Tail\<close> are linked both ways, and a node in \<open>keyMap\<close> that is
  not in the queue has no links.
\<close>

definition lq_inv :: "'a linkedQueue \<Rightarrow> nat list \<Rightarrow> bool" where
  "lq_inv q as \<longleftrightarrow>
     seg (lq_heap q) None as None \<and> distinct as
     \<and> lq_Head q = first_ptr as None \<and> lq_Tail q = last_ptr as None
     \<and> (\<forall>a \<in> set as. a < lq_next q)
     \<and> (\<forall>k a. lq_keyMap q k = Some a \<longrightarrow> a < lq_next q \<and> li_Key (lq_heap q a) = k
          \<and> (a \<notin> set as \<longrightarrow> li_Prev (lq_heap q a) = None \<and> li_Next (lq_heap q a) = None))"

definition lq_entry :: "'a linkedQueue \<Rightarrow> nat \<Rightarrow> hash256 \<times> 'a option" where
  "lq_entry q a = (li_Key (lq_heap q a), li_Item (lq_heap q a))"

text \<open>The keys of the queued nodes are distinct and \<open>keyMap\<close> finds each of them.\<close>

definition lq_keyed :: "'a linkedQueue \<Rightarrow> nat list \<Rightarrow> bool" where
  "lq_keyed q as \<longleftrightarrow> (\<forall>a \<in> set as. lq_keyMap q (li_Key (lq_heap q a)) = Some a)"

lemma LPush_inv:
  assumes "lq_inv q as"
  shows "\<exists>q'. LPush k i q = Inr q' \<and> lq_inv q' (as @ [lq_next q])
     \<and> map (lq_entry q') (as @ [lq_next q]) = map (lq_entry q) as @ [(k, i)]
     \<and> lq_keyMap q' = (lq_keyMap q)(k \<mapsto> lq_next q)
     \<and> (\<forall>a < lq_next q. li_Key (lq_heap q' a) = li_Key (lq_heap q a))"
proof (cases as rule: rev_cases)
  case Nil
  then show ?thesis
    using assms by (auto simp: LPush_def lq_inv_def lq_entry_def Let_def intro: less_SucI)
next
  case (snoc bs t)
  let ?nd = "lq_next q" let ?item = "\<lparr>li_Prev = None, li_Key = k, li_Item = i, li_Next = None\<rparr>"
  let ?h0 = "(lq_heap q)(?nd := ?item)"
  let ?h = "set_Next t (Some ?nd) (set_Prev ?nd (Some t) ?h0)"
  let ?q = "q\<lparr>lq_next := ?nd + 1, lq_heap := ?h, lq_Tail := Some ?nd, lq_keyMap := (lq_keyMap q)(k \<mapsto> ?nd)\<rparr>"
  have inv: "seg (lq_heap q) None (bs @ [t]) None" "distinct as" "lq_Head q = first_ptr as None"
    "lq_Tail q = Some t" "\<forall>a \<in> set as. a < ?nd"
    using assms snoc by (simp_all add: lq_inv_def)
  have lt: "t < ?nd" "t \<notin> set bs" "?nd \<notin> set bs" using inv(2,5) snoc by auto
  have head: "lq_Head q = first_ptr (as @ [?nd]) None" "lq_Head q \<noteq> None"
    using inv(3) snoc by (cases bs; simp)+
  have push: "LPush k i q = Inr ?q"
    using head(2) inv(4) lt(1) by (auto simp: LPush_def Let_def)
  have "seg ?h None as (Some ?nd)"
    unfolding snoc by (rule seg_set_Next) (use lt inv(1) in \<open>auto simp: seg_append\<close>)
  then have "seg ?h None (as @ [?nd]) None"
    using lt unfolding seg_append [of _ _ as] by (simp add: snoc)
  moreover have "a < ?nd + 1 \<and> li_Key (?h a) = k' \<and> (a \<notin> set (as @ [?nd]) \<longrightarrow> li_Prev (?h a) = None \<and> li_Next (?h a) = None)"
    if "((lq_keyMap q)(k \<mapsto> ?nd)) k' = Some a" for k' a
    using that assms lt snoc by (auto simp: lq_inv_def intro: less_SucI split: if_splits)
  ultimately have "lq_inv ?q (as @ [?nd])"
    using inv head by (auto simp: lq_inv_def)
  moreover have "map (lq_entry ?q) (as @ [?nd]) = map (lq_entry q) as @ [(k, i)]"
    using inv(5) lt by (auto simp: lq_entry_def)
  ultimately show ?thesis using push lt by auto
qed

lemma LPop_inv:
  assumes "lq_inv q (a # as)"
  shows "\<exists>q'. LPop q = Inr (li_Item (lq_heap q a), q') \<and> lq_inv q' as
     \<and> map (lq_entry q') as = map (lq_entry q) as
     \<and> lq_keyMap q' = (lq_keyMap q)(li_Key (lq_heap q a) := None)
     \<and> (\<forall>b. li_Key (lq_heap q' b) = li_Key (lq_heap q b))"
proof (cases as)
  case Nil
  then show ?thesis
    using assms by (auto simp: LPop_def lq_inv_def Let_def split: if_splits)
next
  case (Cons b bs)
  let ?h = "set_Next a None (set_Prev a None (set_Prev b None (lq_heap q)))"
  let ?q = "q\<lparr>lq_Head := Some b, lq_heap := ?h, lq_keyMap := (lq_keyMap q)(li_Key (lq_heap q a) := None)\<rparr>"
  have ne: "a \<noteq> b" "a \<notin> set bs" "b \<notin> set bs" "lq_Head q = Some a"
    "lq_Tail q = Some (last (b # bs))" "li_Next (lq_heap q a) = Some b"
    using assms Cons by (auto simp: lq_inv_def last_ptr_def)
  then have tail: "Some a \<noteq> lq_Tail q" by auto
  have pop: "LPop q = Inr (li_Item (lq_heap q a), ?q)"
    using ne tail by (auto simp: LPop_def Let_def)
  have "seg (lq_heap q) (Some a) (b # bs) None" using assms Cons by (simp add: lq_inv_def)
  then have "seg ?h None (b # bs) None" using ne by simp
  moreover have "a' < lq_next q \<and> li_Key (?h a') = k'
      \<and> (a' \<notin> set as \<longrightarrow> li_Prev (?h a') = None \<and> li_Next (?h a') = None)"
    if "((lq_keyMap q)(li_Key (lq_heap q a) := None)) k' = Some a'" for k' a'
    using that assms ne Cons by (auto simp: lq_inv_def split: if_splits)
  ultimately have "lq_inv ?q as"
    using assms ne Cons by (auto simp: lq_inv_def last_ptr_def)
  then show ?thesis using pop ne Cons by (auto simp: lq_entry_def)
qed

lemma LPop_empty: "lq_inv q [] \<Longrightarrow> LPop q = Inr (None, q)"
  by (simp add: LPop_def lq_inv_def)

lemma LRemove_inv:
  assumes "lq_inv q (xs @ a # ys)" "lq_keyMap q k = Some a"
  shows "\<exists>q'. LRemove k q = (li_Item (lq_heap q a), q') \<and> lq_inv q' (xs @ ys)
     \<and> map (lq_entry q') (xs @ ys) = map (lq_entry q) (xs @ ys)
     \<and> lq_keyMap q' = lq_keyMap q \<and> (\<forall>b. li_Key (lq_heap q' b) = li_Key (lq_heap q b))
     \<and> li_Item (lq_heap q' a) = li_Item (lq_heap q a)"
proof -
  let ?p = "last_ptr xs None" and ?n = "first_ptr ys None"
  define h1 where "h1 = (case ?n of None \<Rightarrow> lq_heap q | Some b \<Rightarrow> set_Prev b ?p (lq_heap q))"
  define h2 where "h2 = (case ?p of None \<Rightarrow> h1 | Some c \<Rightarrow> set_Next c ?n h1)"
  define h3 where "h3 = set_Next a None (set_Prev a None h2)"
  have dist: "distinct (xs @ a # ys)" and links: "seg (lq_heap q) None (xs @ a # ys) None"
    and ends: "lq_Head q = first_ptr (xs @ a # ys) None" "lq_Tail q = last_ptr (xs @ a # ys) None"
    using assms(1) by (simp_all add: lq_inv_def)
  have here: "li_Prev (lq_heap q a) = ?p" "li_Next (lq_heap q a) = ?n"
    "seg (lq_heap q) None xs (Some a)" "seg (lq_heap q) (Some a) ys None"
    using links by (auto simp: seg_append first_ptr_def)
  have h1a: "h1 a = lq_heap q a" using dist by (auto simp: h1_def first_ptr_def split: list.splits)
  have h2a: "h2 a = lq_heap q a" using dist h1a by (auto simp: h2_def last_ptr_def split: option.splits)
  define q' where "q' = q\<lparr>lq_Head := (if xs = [] then ?n else lq_Head q),
      lq_Tail := (if ys = [] then ?p else lq_Tail q), lq_heap := h3\<rparr>"
  have ha: "Some a = lq_Head q \<longleftrightarrow> xs = []" using ends(1) dist by (cases xs) auto
  have ta: "Some a = lq_Tail q \<longleftrightarrow> ys = []" using ends(2) dist by (cases ys rule: rev_cases) auto
  have e1: "(case li_Next (lq_heap q a) of None \<Rightarrow> lq_heap q
      | Some b \<Rightarrow> set_Prev b (li_Prev (lq_heap q a)) (lq_heap q)) = h1"
    unfolding h1_def here ..
  have e2: "(case li_Prev (h1 a) of None \<Rightarrow> h1 | Some c \<Rightarrow> set_Next c (li_Next (h1 a)) h1) = h2"
    unfolding h2_def h1a here ..
  have "lq_Head q \<noteq> None" using ends(1) by (cases xs) auto
  then have "LRemove k q = (li_Item (h3 a), q')"
    unfolding LRemove_def Let_def assms(2) option.case e1 e2
    using here(1,2) h2a ha ta by (auto simp: q'_def h3_def)
  moreover have "li_Item (h3 a) = li_Item (lq_heap q a)" by (simp add: h3_def h2a)
  moreover have data: "li_Key (h3 b) = li_Key (lq_heap q b)" "li_Item (h3 b) = li_Item (lq_heap q b)" for b
    by (auto simp: h3_def h2_def h1_def split: option.splits)
  moreover have "lq_inv q' (xs @ ys)"
  proof -
    have s1: "seg h1 ?p ys None" "seg h1 None xs (Some a)"
      using here(3,4) dist by (cases ys; auto simp: h1_def)+
    have s2: "seg h2 None xs ?n" "seg h2 ?p ys None"
      using s1 dist by (cases xs rule: rev_cases; auto simp: h2_def seg_append)+
    have "seg h3 None (xs @ ys) None"
      using s2 dist by (simp add: h3_def seg_append)
    moreover have "lq_Head q' = first_ptr (xs @ ys) None" "lq_Tail q' = last_ptr (xs @ ys) None"
      using ends by (cases xs; cases ys; auto simp: q'_def last_ptr_def)+
    moreover have "li_Prev (h3 b) = None \<and> li_Next (h3 b) = None"
      if "lq_keyMap q k' = Some b" "b \<notin> set (xs @ ys)" for k' b
    proof (cases "b = a")
      case False
      then have "h3 b = lq_heap q b"
        using that(2) by (auto simp: h3_def h2_def h1_def first_ptr_def last_ptr_def split: list.splits)
      then show ?thesis using assms(1) that False by (auto simp: lq_inv_def)
    qed (simp add: h3_def)
    ultimately show ?thesis
      using assms(1) dist data by (auto simp: lq_inv_def q'_def)
  qed
  ultimately show ?thesis by (auto simp: lq_entry_def q'_def)
qed

lemma NewLinkedQueue_inv: "lq_inv NewLinkedQueue []"
  by (simp add: lq_inv_def NewLinkedQueue_def)

section \<open>First in, first out\<close>

definition linked_rep :: "'a linkedQueue \<Rightarrow> 'a list \<Rightarrow> bool" where
  "linked_rep q xs \<longleftrightarrow> (\<exists>as. lq_inv q as \<and> map snd (map (lq_entry q) as) = map Some xs)"

definition linked_push :: "hash256 \<times> 'a \<Rightarrow> 'a linkedQueue \<Rightarrow> 'a linkedQueue res" where
  "linked_push kv q = LPush (fst kv) (Some (snd kv)) q"

interpretation linked: fifo linked_rep "\<lambda>_. True" snd linked_push LPop
proof
  show "\<exists>q'. linked_push x q = Inr q' \<and> linked_rep q' (xs @ [snd x])" if rep: "linked_rep q xs"
    for q and xs :: "'a list" and x
  proof -
    obtain as where as: "lq_inv q as" "map snd (map (lq_entry q) as) = map Some xs"
      using rep unfolding linked_rep_def by blast
    obtain q' where q': "LPush (fst x) (Some (snd x)) q = Inr q'" "lq_inv q' (as @ [lq_next q])"
      "map (lq_entry q') (as @ [lq_next q]) = map (lq_entry q) as @ [(fst x, Some (snd x))]"
      using LPush_inv [OF as(1)] by blast
    have "map snd (map (lq_entry q') (as @ [lq_next q])) = map Some (xs @ [snd x])"
      unfolding q'(3) using as(2) by simp
    then show ?thesis using q'(1,2) unfolding linked_push_def linked_rep_def by blast
  qed
  show "\<exists>q'. LPop q = Inr (None, q') \<and> linked_rep q' []" if "linked_rep q []" for q :: "'a linkedQueue"
    using that LPop_empty by (auto simp: linked_rep_def)
  show "\<exists>q'. LPop q = Inr (Some y, q') \<and> linked_rep q' ys" if rep: "linked_rep q (y # ys)" for q and y :: 'a and ys
  proof -
    obtain a as where as: "lq_inv q (a # as)" "snd (lq_entry q a) = Some y" "map snd (map (lq_entry q) as) = map Some ys"
      using rep by (auto simp: linked_rep_def map_eq_Cons_conv simp del: map_map)
    then show ?thesis
      using LPop_inv [OF as(1)] unfolding linked_rep_def by (metis lq_entry_def snd_conv)
  qed
qed

section \<open>Removal by key\<close>

datatype 'a lop = LqPush hash256 'a | LqPop | LqRemove hash256

fun lop_run :: "'a lop list \<Rightarrow> 'a linkedQueue \<Rightarrow> ('a option list \<times> 'a linkedQueue) res" where
  "lop_run [] q = Inr ([], q)"
| "lop_run (LqPush k v # ops) q = bind_res (LPush k (Some v) q) (lop_run ops)"
| "lop_run (LqPop # ops) q =
     bind_res (LPop q) (\<lambda>(v, q'). bind_res (lop_run ops q') (\<lambda>(vs, q''). Inr (v # vs, q'')))"
| "lop_run (LqRemove k # ops) q =
     (case LRemove k q of (v, q') \<Rightarrow> bind_res (lop_run ops q') (\<lambda>(vs, q''). Inr (v # vs, q'')))"

text \<open>The same operations on an association list; a removal deletes the entry of the key.\<close>

fun alist_run :: "'a lop list \<Rightarrow> (hash256 \<times> 'a) list \<Rightarrow> 'a option list \<times> (hash256 \<times> 'a) list" where
  "alist_run [] kvs = ([], kvs)"
| "alist_run (LqPush k v # ops) kvs = alist_run ops (kvs @ [(k, v)])"
| "alist_run (LqPop # ops) kvs =
     (case alist_run ops (tl kvs) of (vs, r) \<Rightarrow> ((case kvs of [] \<Rightarrow> None | kv # _ \<Rightarrow> Some (snd kv)) # vs, r))"
| "alist_run (LqRemove k # ops) kvs =
     (case alist_run ops (filter (\<lambda>kv. fst kv \<noteq> k) kvs) of (vs, r) \<Rightarrow> (map_of kvs k # vs, r))"

text \<open>A key is pushed only while it is not queued, and removed only while it is.\<close>

fun keys_ok :: "'a lop list \<Rightarrow> (hash256 \<times> 'a) list \<Rightarrow> bool" where
  "keys_ok [] kvs \<longleftrightarrow> True"
| "keys_ok (LqPush k v # ops) kvs \<longleftrightarrow> map_of kvs k = None \<and> keys_ok ops (kvs @ [(k, v)])"
| "keys_ok (LqPop # ops) kvs \<longleftrightarrow> keys_ok ops (tl kvs)"
| "keys_ok (LqRemove k # ops) kvs \<longleftrightarrow> map_of kvs k \<noteq> None \<and> keys_ok ops (filter (\<lambda>kv. fst kv \<noteq> k) kvs)"

definition keyed_rep :: "'a linkedQueue \<Rightarrow> (hash256 \<times> 'a) list \<Rightarrow> bool" where
  "keyed_rep q kvs \<longleftrightarrow>
     (\<exists>as. lq_inv q as \<and> lq_keyed q as \<and> map (lq_entry q) as = map (apsnd Some) kvs)"

lemma lq_keyed_distinct:
  assumes "lq_keyed q as" "distinct as"
  shows "distinct (map (\<lambda>a. li_Key (lq_heap q a)) as)"
  using assms unfolding distinct_map inj_on_def lq_keyed_def by (metis option.inject)

lemma entry_keys: "map (lq_entry q) as = map (apsnd Some) kvs \<Longrightarrow> map (\<lambda>a. li_Key (lq_heap q a)) as = map fst kvs"
proof -
  assume "map (lq_entry q) as = map (apsnd Some) kvs"
  then have "map fst (map (lq_entry q) as) = map fst (map (apsnd Some) kvs)" by simp
  then show ?thesis by (simp add: lq_entry_def comp_def)
qed

lemma keyed_rep_distinct: "keyed_rep q kvs \<Longrightarrow> distinct (map fst kvs)"
  using lq_keyed_distinct entry_keys by (fastforce simp: keyed_rep_def lq_inv_def)

lemma keyed_push:
  assumes "keyed_rep q kvs" "map_of kvs k = None"
  shows "\<exists>q'. LPush k (Some v) q = Inr q' \<and> keyed_rep q' (kvs @ [(k, v)])"
proof -
  obtain as where as: "lq_inv q as" "lq_keyed q as" "map (lq_entry q) as = map (apsnd Some) kvs"
    using assms(1) by (auto simp: keyed_rep_def)
  obtain q' where q': "LPush k (Some v) q = Inr q'" "lq_inv q' (as @ [lq_next q])"
    "map (lq_entry q') (as @ [lq_next q]) = map (lq_entry q) as @ [(k, Some v)]"
    "lq_keyMap q' = (lq_keyMap q)(k \<mapsto> lq_next q)"
    "\<forall>a < lq_next q. li_Key (lq_heap q' a) = li_Key (lq_heap q a)"
    using LPush_inv [OF as(1)] by blast
  have "\<forall>a \<in> set as. li_Key (lq_heap q a) \<noteq> k"
    using assms(2) arg_cong [OF entry_keys [OF as(3)], of set] by (auto simp: map_of_eq_None_iff)
  moreover have "\<forall>a \<in> set as. a < lq_next q" using as(1) by (simp add: lq_inv_def)
  moreover have "li_Key (lq_heap q' (lq_next q)) = k" using q'(3) by (simp add: lq_entry_def)
  ultimately have "lq_keyed q' (as @ [lq_next q])"
    using as(2) q'(4,5) by (auto simp: lq_keyed_def)
  moreover have "map (lq_entry q') (as @ [lq_next q]) = map (apsnd Some) (kvs @ [(k, v)])"
    using q'(3) as(3) by simp
  ultimately show ?thesis using q'(1,2) unfolding keyed_rep_def by blast
qed

lemma keyed_pop:
  assumes "keyed_rep q (kv # kvs)"
  shows "\<exists>q'. LPop q = Inr (Some (snd kv), q') \<and> keyed_rep q' kvs"
proof -
  obtain a as where as: "lq_inv q (a # as)" "lq_keyed q (a # as)" "lq_entry q a = apsnd Some kv"
    "map (lq_entry q) as = map (apsnd Some) kvs"
    using assms by (auto simp: keyed_rep_def)
  have dist: "\<forall>b \<in> set as. li_Key (lq_heap q b) \<noteq> li_Key (lq_heap q a)"
  proof
    fix b assume "b \<in> set as"
    then have "lq_keyMap q (li_Key (lq_heap q b)) = Some b" "lq_keyMap q (li_Key (lq_heap q a)) = Some a" "b \<noteq> a"
      using as(1,2) by (auto simp: lq_keyed_def lq_inv_def)
    then show "li_Key (lq_heap q b) \<noteq> li_Key (lq_heap q a)" by auto
  qed
  obtain q' where q': "LPop q = Inr (li_Item (lq_heap q a), q')" "lq_inv q' as"
    "map (lq_entry q') as = map (lq_entry q) as"
    "lq_keyMap q' = (lq_keyMap q)(li_Key (lq_heap q a) := None)"
    "\<forall>b. li_Key (lq_heap q' b) = li_Key (lq_heap q b)"
    using LPop_inv [OF as(1)] by blast
  have "lq_keyed q' as" using as(2) dist q'(4,5) by (auto simp: lq_keyed_def)
  moreover have "li_Item (lq_heap q a) = Some (snd kv)" using as(3) by (cases kv) (simp add: lq_entry_def)
  ultimately show ?thesis using q' as(4) unfolding keyed_rep_def by auto
qed

lemma keyed_remove:
  assumes "keyed_rep q kvs" "map_of kvs k = Some v"
  shows "\<exists>q'. LRemove k q = (Some v, q') \<and> keyed_rep q' (filter (\<lambda>kv. fst kv \<noteq> k) kvs)
     \<and> (\<exists>a as. lq_keyMap q' k = Some a \<and> li_Item (lq_heap q' a) = Some v \<and> lq_inv q' as \<and> a \<notin> set as)"
proof -
  obtain as where as: "lq_inv q as" "lq_keyed q as" "map (lq_entry q) as = map (apsnd Some) kvs"
    using assms(1) by (auto simp: keyed_rep_def)
  obtain ps rs where kvs: "kvs = ps @ (k, v) # rs" using assms(2) by (metis map_of_SomeD split_list)
  obtain xs a ys where xs: "as = xs @ a # ys" "map (lq_entry q) xs = map (apsnd Some) ps"
    "lq_entry q a = (k, Some v)" "map (lq_entry q) ys = map (apsnd Some) rs"
    using as(3) unfolding kvs by (auto simp: map_eq_append_conv Cons_eq_map_conv)
  have dist: "distinct (map fst kvs)" using assms(1) by (rule keyed_rep_distinct)
  have a: "lq_keyMap q k = Some a" "li_Item (lq_heap q a) = Some v"
    using as(2) xs(1,3) by (auto simp: lq_keyed_def lq_entry_def)
  obtain q' where q': "LRemove k q = (li_Item (lq_heap q a), q')" "lq_inv q' (xs @ ys)"
    "map (lq_entry q') (xs @ ys) = map (lq_entry q) (xs @ ys)" "lq_keyMap q' = lq_keyMap q"
    "\<forall>b. li_Key (lq_heap q' b) = li_Key (lq_heap q b)" "li_Item (lq_heap q' a) = li_Item (lq_heap q a)"
    using LRemove_inv [OF as(1) [unfolded xs(1)] a(1)] by blast
  have "filter (\<lambda>kv. fst kv \<noteq> k) kvs = ps @ rs"
  proof -
    have "filter (\<lambda>kv. fst kv \<noteq> k) ps = ps" "filter (\<lambda>kv. fst kv \<noteq> k) rs = rs"
      using dist unfolding kvs by (force simp: filter_id_conv)+
    then show ?thesis by (simp add: kvs)
  qed
  moreover have "lq_keyed q' (xs @ ys)" using as(2) xs(1) q'(4,5) by (auto simp: lq_keyed_def)
  moreover have "map (lq_entry q') (xs @ ys) = map (apsnd Some) (ps @ rs)" using q'(3) xs by simp
  ultimately have "keyed_rep q' (filter (\<lambda>kv. fst kv \<noteq> k) kvs)"
    using q'(2) unfolding keyed_rep_def by auto
  moreover have "a \<notin> set (xs @ ys)" using as(1) xs(1) by (simp add: lq_inv_def)
  ultimately show ?thesis using q' a by metis
qed

lemma keyed_pop_empty: "keyed_rep q [] \<Longrightarrow> LPop q = Inr (None, q)"
  by (auto simp: keyed_rep_def intro: LPop_empty)

lemma keyed_run:
  assumes "keyed_rep q kvs" "keys_ok ops kvs"
  shows "\<exists>q'. lop_run ops q = Inr (fst (alist_run ops kvs), q') \<and> keyed_rep q' (snd (alist_run ops kvs))"
  using assms
proof (induction ops kvs arbitrary: q rule: alist_run.induct)
  case (2 k v ops kvs)
  then show ?case using keyed_push [OF 2(2), of k v] by fastforce
next
  case (3 ops kvs)
  show ?case
  proof (cases kvs)
    case Nil
    then show ?thesis using 3 keyed_pop_empty [of q] by (fastforce split: prod.splits)
  next
    case (Cons kv rest)
    then obtain q' where "LPop q = Inr (Some (snd kv), q')" "keyed_rep q' rest"
      using keyed_pop 3(2) by blast
    then show ?thesis using 3(1) [of q'] 3(3) Cons by (fastforce split: prod.splits)
  qed
next
  case (4 k ops kvs)
  then obtain v where v: "map_of kvs k = Some v" by auto
  then obtain q' where "LRemove k q = (Some v, q')" "keyed_rep q' (filter (\<lambda>kv. fst kv \<noteq> k) kvs)"
    using keyed_remove [OF 4(2)] by blast
  then show ?case using 4(1) [of q'] 4(3) v by (fastforce split: prod.splits)
qed simp

lemma NewLinkedQueue_keyed: "keyed_rep NewLinkedQueue []"
  using NewLinkedQueue_inv by (auto simp: keyed_rep_def lq_keyed_def)



text \<open>
  \<open>Remove\<close> leaves the key in \<open>keyMap\<close>: while other items are queued, removing an already removed
  key again returns the removed item as if it had still been queued, instead of \<open>nil\<close>.
\<close>

theorem LinkedQueue_Remove_twice:
  assumes "keyed_rep q kvs" "map_of kvs k = Some v" "2 \<le> length kvs"
  shows "fst (LRemove k (snd (LRemove k q))) = Some v"
proof -
  obtain q' a as where q': "LRemove k q = (Some v, q')" "keyed_rep q' (filter (\<lambda>kv. fst kv \<noteq> k) kvs)"
    "lq_keyMap q' k = Some a" "li_Item (lq_heap q' a) = Some v" "lq_inv q' as" "a \<notin> set as"
    using keyed_remove [OF assms(1,2)] by blast
  have "filter (\<lambda>kv. fst kv \<noteq> k) kvs \<noteq> []"
  proof
    assume "filter (\<lambda>kv. fst kv \<noteq> k) kvs = []"
    then have "set (map fst kvs) \<subseteq> {k}" by (auto simp: filter_empty_conv)
    then have "length kvs \<le> 1"
      using distinct_card [OF keyed_rep_distinct [OF assms(1)]] card_mono [of "{k}" "set (map fst kvs)"] by simp
    then show False using assms(3) by simp
  qed
  then have "lq_Head q' \<noteq> None" using q'(2) by (auto simp: keyed_rep_def lq_inv_def neq_Nil_conv)
  moreover have "li_Prev (lq_heap q' a) = None" "li_Next (lq_heap q' a) = None"
    using q'(3,5,6) by (auto simp: lq_inv_def)
  ultimately show ?thesis using q'(1,3,4) by (simp add: LRemove_def Let_def)
qed

theorem LinkedQueue_Remove_twice_witness:
  "\<exists>q. keyed_rep q [([1], 10 :: nat), ([2], 20)] \<and> fst (LRemove [1] (snd (LRemove [1] q))) = Some 10"
proof -
  obtain q where q: "keyed_rep q [([1], 10 :: nat), ([2], 20)]"
    using keyed_run [OF NewLinkedQueue_keyed, of "[LqPush [1] (10 :: nat), LqPush [2] 20]"] by auto
  then show ?thesis using LinkedQueue_Remove_twice [OF q, of "[1]" 10] by auto
qed

end
