(* ===== verification/Sorted_Queue.thy ===== *)
theory Sorted_Queue
  imports Prelude
begin

text \<open>
  \<open>common/queue/sorted.go\<close>: the queue that the nodes keep received blocks in, sorted by height. A slot of
  \<open>items\<close> is \<open>None\<close> for a nil pointer and otherwise the value (an \<open>interface{}\<close>, \<open>None\<close> for \<open>nil\<close>) with its
  priority. The live items are the \<open>size\<close> slots from \<open>head\<close> on; reading a nil slot would panic, which the
  invariant \<open>sq_wf\<close> excludes: the model then reads priority 0.
\<close>

type_synonym 'a sq_item = "'a option \<times> u64"

record 'a sortedQueue =
  sq_items :: "'a sq_item option list"
  sq_head :: nat
  sq_size :: nat

definition NewSortedQueue :: "'a sortedQueue" where
  "NewSortedQueue = \<lparr>sq_items = [], sq_head = 0, sq_size = 0\<rparr>"

definition sq_at :: "'a sortedQueue \<Rightarrow> nat \<Rightarrow> 'a sq_item" where
  "sq_at q i = (case sq_items q ! i of None \<Rightarrow> (None, 0) | Some it \<Rightarrow> it)"

definition sq_insert :: "'a option \<Rightarrow> u64 \<Rightarrow> 'a sortedQueue \<Rightarrow> 'a sortedQueue" where
  "sq_insert value Priority q =
     (let item = Some (value, Priority);
          items = sq_items q; head = sq_head q; size = sq_size q;
          idx = head + sort_Search size (\<lambda>i. Priority < snd (sq_at q (head + i)))
      in if head \<le> idx \<and> idx < head + size \<and> snd (sq_at q idx) = Priority
         then q\<lparr>sq_items := items[idx := item]\<rparr>
         else if size = length items then
           let items1 = items @ [item];
               items2 = copy_at (idx + 1) (drop idx items1) items1
           in q\<lparr>sq_items := items2[idx := item], sq_size := size + 1\<rparr>
         else
           let last = head + size in
           if last = length items then
             let items1 = copy_at (head - 1) (drop head items) items;
                 idx1 = idx - 1;
                 items2 = (if idx1 \<noteq> last - 1 then copy_at (idx1 + 1) (slice idx1 last items1) items1 else items1)
             in q\<lparr>sq_items := items2[idx1 := item], sq_head := head - 1, sq_size := size + 1\<rparr>
           else
             let items1 = copy_at (idx + 1) (slice idx last items) items
             in q\<lparr>sq_items := items1[idx := item], sq_size := size + 1\<rparr>)"

definition sq_peekInternal :: "'a sortedQueue \<Rightarrow> 'a option \<times> u64" where
  "sq_peekInternal q = (if sq_size q = 0 then (None, 0) else sq_at q (sq_head q))"

text \<open>The scan of \<open>findInternal\<close> over the slots from \<open>i\<close> on, \<open>n\<close> of them left.\<close>

fun find_loop :: "'a sortedQueue \<Rightarrow> u64 \<Rightarrow> nat \<Rightarrow> nat \<Rightarrow> 'a option" where
  "find_loop q Priority i 0 = None"
| "find_loop q Priority i (Suc n) =
     (if snd (sq_at q i) = Priority then fst (sq_at q i)
      else if Priority < snd (sq_at q i) then None
      else find_loop q Priority (i + 1) n)"

definition sq_findInternal :: "u64 \<Rightarrow> 'a sortedQueue \<Rightarrow> 'a option" where
  "sq_findInternal Priority q = (if sq_size q = 0 then None else find_loop q Priority (sq_head q) (sq_size q))"

definition sq_FindOrInsert :: "'a option \<Rightarrow> u64 \<Rightarrow> 'a sortedQueue \<Rightarrow> 'a option \<times> 'a sortedQueue" where
  "sq_FindOrInsert value Priority q =
     (case sq_findInternal Priority q of
        Some item \<Rightarrow> (Some item, q)
      | None \<Rightarrow> (None, sq_insert value Priority q))"

definition sq_popInternal :: "'a sortedQueue \<Rightarrow> 'a option \<times> 'a sortedQueue" where
  "sq_popInternal q =
     (if sq_size q = 0 then (None, q)
      else
        let item = sq_at q (sq_head q);
            items = (sq_items q)[sq_head q := None];
            head = sq_head q + 1;
            size = sq_size q - 1
        in (fst item,
            if 4096 < length items then
              if size < 1024 then
                \<lparr>sq_items = go_copy (replicate 2048 None) (slice head (head + size) items), sq_head = 0, sq_size = size\<rparr>
              else if length items div 2 + 1 < head then
                \<lparr>sq_items = go_copy items (slice head (head + size) items), sq_head = 0, sq_size = size\<rparr>
              else \<lparr>sq_items = items, sq_head = head, sq_size = size\<rparr>
            else \<lparr>sq_items = items, sq_head = head, sq_size = size\<rparr>))"

lemma sq_popInternal_size: "0 < sq_size q \<Longrightarrow> sq_size (snd (sq_popInternal q)) = sq_size q - 1"
  by (simp add: sq_popInternal_def Let_def)

text \<open>The loop of \<open>PopUntil\<close> ends because every round removes an item.\<close>

function sq_PopUntil :: "u64 \<Rightarrow> 'a sortedQueue \<Rightarrow> 'a option \<times> 'a sortedQueue" where
  "sq_PopUntil Priority q =
     (case sq_peekInternal q of (item, itemPriority) \<Rightarrow>
        if item = None then (None, q)
        else if itemPriority < Priority then sq_PopUntil Priority (snd (sq_popInternal q))
        else if itemPriority = Priority then (item, snd (sq_popInternal q))
        else (None, q))"
  by pat_completeness auto
termination
  by (relation "measure (\<lambda>(p, q). sq_size q)")
    (auto simp: sq_popInternal_size sq_peekInternal_def split: if_splits)

declare sq_PopUntil.simps [simp del]

definition sq_Iter :: "'a sortedQueue \<Rightarrow> 'a sq_item list" where
  "sq_Iter q = map (\<lambda>i. sq_at q (sq_head q + i)) [0..<sq_size q]"

section \<open>The sorted list a queue stands for\<close>

definition sq_wf :: "'a sortedQueue \<Rightarrow> bool" where
  "sq_wf q \<longleftrightarrow> sq_head q + sq_size q \<le> length (sq_items q)
     \<and> (\<forall>i < sq_size q. sq_items q ! (sq_head q + i) \<noteq> None)
     \<and> sorted (map snd (sq_Iter q))"

text \<open>The reference insertion: behind the items of the same or a smaller priority.\<close>

definition prio_insert :: "'a sq_item \<Rightarrow> 'a sq_item list \<Rightarrow> 'a sq_item list" where
  "prio_insert it xs =
     takeWhile (\<lambda>x. snd x \<le> snd it) xs @ it # dropWhile (\<lambda>x. snd x \<le> snd it) xs"

lemma length_sq_Iter [simp]: "length (sq_Iter q) = sq_size q"
  by (simp add: sq_Iter_def)

lemma sq_live: "sq_head q + sq_size q \<le> length (sq_items q) \<Longrightarrow>
    \<forall>i < sq_size q. sq_items q ! (sq_head q + i) \<noteq> None \<Longrightarrow>
    slice (sq_head q) (sq_head q + sq_size q) (sq_items q) = map Some (sq_Iter q)"
  by (intro nth_equalityI) (auto simp: slice_def sq_Iter_def sq_at_def)

text \<open>A queue is well formed when its live slots hold the items of a sorted list.\<close>

lemma sq_wf_iff:
  "sq_wf q \<longleftrightarrow> sq_head q + sq_size q \<le> length (sq_items q) \<and>
     (\<exists>xs. slice (sq_head q) (sq_head q + sq_size q) (sq_items q) = map Some xs \<and> sorted (map snd xs))"
proof
  assume "sq_wf q"
  then show "sq_head q + sq_size q \<le> length (sq_items q) \<and>
     (\<exists>xs. slice (sq_head q) (sq_head q + sq_size q) (sq_items q) = map Some xs \<and> sorted (map snd xs))"
    using sq_live [of q] by (auto simp: sq_wf_def)
next
  assume r: "sq_head q + sq_size q \<le> length (sq_items q) \<and>
     (\<exists>xs. slice (sq_head q) (sq_head q + sq_size q) (sq_items q) = map Some xs \<and> sorted (map snd xs))"
  then obtain xs where xs: "slice (sq_head q) (sq_head q + sq_size q) (sq_items q) = map Some xs"
    "sorted (map snd xs)" by blast
  have len: "length xs = sq_size q" using arg_cong [OF xs(1), of length] r by simp
  have at: "sq_items q ! (sq_head q + i) = Some (xs ! i)" if "i < sq_size q" for i
    using arg_cong [OF xs(1), of "\<lambda>l. l ! i"] that len r by (simp add: slice_def)
  then have "sq_Iter q = xs" using len by (intro nth_equalityI) (auto simp: sq_Iter_def sq_at_def)
  then show "sq_wf q" using r at xs(2) by (auto simp: sq_wf_def)
qed

lemma sq_Iter_eq:
  "sq_head q + sq_size q \<le> length (sq_items q) \<Longrightarrow>
   slice (sq_head q) (sq_head q + sq_size q) (sq_items q) = map Some xs \<Longrightarrow> sq_Iter q = xs"
proof -
  assume r: "sq_head q + sq_size q \<le> length (sq_items q)"
    and xs: "slice (sq_head q) (sq_head q + sq_size q) (sq_items q) = map Some xs"
  have len: "length xs = sq_size q" using arg_cong [OF xs, of length] r by simp
  have at: "sq_items q ! (sq_head q + i) = Some (xs ! i)" if "i < sq_size q" for i
    using arg_cong [OF xs, of "\<lambda>l. l ! i"] that len r by (simp add: slice_def)
  then show ?thesis using len by (intro nth_equalityI) (auto simp: sq_Iter_def sq_at_def)
qed

section \<open>Insertion\<close>

lemma copy_at_over:
  "i \<le> length dst \<Longrightarrow> length dst - i \<le> length src \<Longrightarrow> copy_at i src dst = take i dst @ take (length dst - i) src"
  by (simp add: copy_at_def go_copy_def)

lemma copy_at_within:
  "i + length src \<le> length dst \<Longrightarrow> copy_at i src dst = take i dst @ src @ drop (i + length src) dst"
  by (simp add: copy_at_def go_copy_def add.commute)

text \<open>Shifting \<open>bs\<close> one slot to the right and writing into the gap, over the slot \<open>c\<close> behind it.\<close>

lemma shift_write:
  "(copy_at (length as + 1) (bs @ rest) (as @ bs @ [c]))[length as := it] = as @ it # bs"
proof (cases bs)
  case (Cons b bs')
  have "copy_at (length as + 1) (bs @ rest) (as @ bs @ [c]) = as @ [b] @ bs"
    using Cons by (subst copy_at_over) auto
  then show ?thesis by simp
qed (simp add: copy_at_def go_copy_def)

lemma shift_write_room:
  "(copy_at (length as + 1) bs (as @ bs @ c # post))[length as := it] = as @ it # bs @ post"
proof (cases bs)
  case (Cons b bs')
  have "copy_at (length as + 1) bs (as @ bs @ c # post) = as @ [b] @ bs @ post"
    using Cons by (subst copy_at_within) auto
  then show ?thesis by simp
qed (simp add: copy_at_def go_copy_def)

lemma shift_left: "copy_at (length pre) ys (pre @ c # ys) = pre @ ys @ [last (c # ys)]"
proof -
  have "drop (length ys) (c # ys) = [last (c # ys)]" by (induction ys arbitrary: c) auto
  then show ?thesis by (subst copy_at_within) auto
qed

lemma sq_search:
  assumes "sorted (map snd (sq_Iter q))"
  shows "sort_Search (sq_size q) (\<lambda>i. p < snd (sq_at q (sq_head q + i)))
           = length (takeWhile (\<lambda>x. snd x \<le> p) (sq_Iter q))"
proof -
  let ?f = "\<lambda>i. p < snd (sq_at q (sq_head q + i))" and ?xs = "sq_Iter q"
  let ?k = "sort_Search (sq_size q) ?f"
  have f: "?f i \<longleftrightarrow> p < snd (?xs ! i)" if "i < sq_size q" for i using that by (simp add: sq_Iter_def)
  have "upward (sq_size q) ?f"
    unfolding upward_def using assms f by (auto simp: sorted_iff_nth_mono intro: less_le_trans)
  note spec = sort_Search_spec [OF this]
  have "takeWhile (\<lambda>x. snd x \<le> p) ?xs = take ?k ?xs"
  proof (rule takeWhile_eq_take_P_nth)
    show "snd (?xs ! i) \<le> p" if "i < ?k" "i < length ?xs" for i
      using that spec(2) [of i] f [of i] by simp
    show "\<not> snd (?xs ! ?k) \<le> p" if "?k < length ?xs"
      using that spec(3) [of ?k] f [of ?k] by simp
  qed
  then show ?thesis using spec(1) by simp
qed

lemma sq_wfI:
  assumes "sq_items q = pre @ map Some xs @ post" "sq_head q = length pre" "sq_size q = length xs"
    and "sorted (map snd xs)"
  shows "sq_wf q" "sq_Iter q = xs"
proof -
  have sl: "slice (sq_head q) (sq_head q + sq_size q) (sq_items q) = map Some xs"
    using assms(1-3) by (simp add: slice_def)
  have le: "sq_head q + sq_size q \<le> length (sq_items q)" using assms(1-3) by simp
  show "sq_wf q" using sl le assms(4) by (auto simp: sq_wf_iff)
  show "sq_Iter q = xs" using le sl by (rule sq_Iter_eq)
qed

lemma sq_wfE:
  assumes "sq_wf q"
  obtains pre post where "sq_items q = pre @ map Some (sq_Iter q) @ post" "sq_head q = length pre"
proof -
  let ?h = "sq_head q" and ?s = "sq_size q" and ?l = "sq_items q"
  have le: "?h + ?s \<le> length ?l" and sl: "slice ?h (?h + ?s) ?l = map Some (sq_Iter q)"
    using assms sq_live [of q] by (auto simp: sq_wf_def)
  have "?l = take ?h ?l @ slice ?h (?h + ?s) ?l @ drop (?h + ?s) ?l"
    by (rule slice_split) simp
  then show ?thesis using that [of "take ?h ?l" "drop (?h + ?s) ?l"] sl le by simp
qed

lemma sorted_prio_insert:
  assumes "sorted (map snd xs)"
  shows "sorted (map snd (prio_insert it xs))"
proof -
  define T D where "T = takeWhile (\<lambda>x. snd x \<le> snd it) xs" and "D = dropWhile (\<lambda>x. snd x \<le> snd it) xs"
  have "xs = T @ D" by (simp add: T_def D_def)
  then have sd: "sorted (map snd T)" "sorted (map snd D)" "\<forall>x \<in> set T. \<forall>y \<in> set D. snd x \<le> snd y"
    using assms by (simp_all add: sorted_append)
  have t: "\<forall>x \<in> set T. snd x \<le> snd it" by (auto simp: T_def dest: set_takeWhileD)
  have d: "\<forall>x \<in> set D. snd it \<le> snd x"
  proof (cases D)
    case (Cons y ys)
    then have "\<not> snd y \<le> snd it" unfolding D_def by (metis hd_dropWhile list.discI list.sel(1))
    then show ?thesis using sd(2) Cons by auto
  qed simp
  have "prio_insert it xs = T @ it # D" by (simp add: prio_insert_def T_def D_def)
  then show ?thesis using sd t d by (simp add: sorted_append)
qed

lemma sq_insert_ok:
  assumes wf: "sq_wf q"
  shows "sq_wf (sq_insert v p q)" "sq_Iter (sq_insert v p q) = prio_insert (v, p) (sq_Iter q)"
proof -
  let ?xs = "sq_Iter q" and ?it = "Some (v, p)"
  let ?t = "takeWhile (\<lambda>x. snd x \<le> p) ?xs" and ?d = "dropWhile (\<lambda>x. snd x \<le> p) ?xs"
  obtain pre post where items: "sq_items q = pre @ map Some ?xs @ post" and head: "sq_head q = length pre"
    using wf by (rule sq_wfE)
  have sorted: "sorted (map snd ?xs)" using wf by (simp add: sq_wf_def)
  define as where "as = pre @ map Some ?t"
  define bs where "bs = map Some ?d"
  have items': "sq_items q = as @ bs @ post"
    unfolding items as_def bs_def by (simp flip: map_append)
  let ?k = "sort_Search (sq_size q) (\<lambda>i. p < snd (sq_at q (sq_head q + i)))"
  have idx: "sq_head q + ?k = length as" unfolding sq_search [OF sorted] by (simp add: head as_def)
  have size: "sq_size q = length ?t + length ?d"
    by (metis length_append length_sq_Iter takeWhile_dropWhile_id)
  have last: "sq_head q + sq_size q = length (as @ bs)" by (simp add: head size as_def bs_def)
  have norepl: "(sq_head q \<le> length as \<and> length as < sq_head q + sq_size q \<and> snd (sq_at q (length as)) = p) = False"
  proof (cases ?d)
    case (Cons y ys)
    then have "\<not> snd y \<le> p" by (metis hd_dropWhile list.discI list.sel(1))
    moreover have "sq_at q (length as) = y" by (simp add: sq_at_def items' bs_def Cons)
    ultimately show ?thesis by auto
  qed (simp add: head size as_def)
  have ins: "sq_insert v p q =
      (if sq_size q = length (sq_items q)
       then q\<lparr>sq_items := (copy_at (length as + 1) (drop (length as) (sq_items q @ [?it])) (sq_items q @ [?it]))[length as := ?it],
              sq_size := sq_size q + 1\<rparr>
       else if sq_head q + sq_size q = length (sq_items q) then
         let items1 = copy_at (sq_head q - 1) (drop (sq_head q) (sq_items q)) (sq_items q);
             items2 = (if length as - 1 \<noteq> sq_head q + sq_size q - 1
                       then copy_at (length as - 1 + 1) (slice (length as - 1) (sq_head q + sq_size q) items1) items1
                       else items1)
         in q\<lparr>sq_items := items2[length as - 1 := ?it], sq_head := sq_head q - 1, sq_size := sq_size q + 1\<rparr>
       else q\<lparr>sq_items := (copy_at (length as + 1) (slice (length as) (sq_head q + sq_size q) (sq_items q)) (sq_items q))[length as := ?it],
              sq_size := sq_size q + 1\<rparr>)"
    by (simp only: sq_insert_def Let_def idx norepl if_False)
  have "\<exists>pre' post'. sq_items (sq_insert v p q) = pre' @ map Some (prio_insert (v, p) ?xs) @ post'
      \<and> sq_head (sq_insert v p q) = length pre' \<and> sq_size (sq_insert v p q) = sq_size q + 1"
  proof -
    consider (full) "sq_size q = length (sq_items q)"
      | (left) "sq_size q \<noteq> length (sq_items q)" "post = []"
      | (room) c cs where "sq_size q \<noteq> length (sq_items q)" "post = c # cs"
      by (cases post) auto
    then show ?thesis
    proof cases
      case full
      then have e: "pre = []" "post = []" using items by simp_all
      have "sq_insert v p q = q\<lparr>sq_items := as @ ?it # bs, sq_size := sq_size q + 1\<rparr>"
        using full shift_write [of as bs "[?it]" ?it ?it] unfolding ins by (simp add: items' e)
      then show ?thesis using e head by (auto simp: prio_insert_def as_def bs_def)
    next
      case left
      then obtain pre0 c where pre: "pre = pre0 @ [c]"
        using items by (cases pre rule: rev_cases) auto
      define A where "A = pre0 @ map Some ?t"
      define Z where "Z = last (c # map Some ?xs)"
      have shift: "copy_at (sq_head q - Suc 0) (drop (sq_head q) (sq_items q)) (sq_items q) = A @ bs @ [Z]"
        using left items pre head shift_left [of pre0 "map Some ?xs" c]
        by (simp add: A_def Z_def bs_def flip: map_append)
      have asl: "length as = Suc (length A)" by (simp add: as_def A_def pre)
      have lst: "length (sq_items q) = Suc (length A + length bs)" using items' left asl by simp
      have last': "sq_head q + sq_size q = Suc (length A + length bs)" using last asl by simp
      have sl: "slice (length A) (Suc (length A + length bs)) (A @ bs @ [Z]) = bs @ [Z]"
        by (simp add: slice_def)
      have ne: "sq_size q \<noteq> Suc (length A + length bs)" using left lst by simp
      have left_ins: "sq_insert v p q = q\<lparr>sq_items := A @ ?it # bs, sq_head := sq_head q - 1, sq_size := sq_size q + 1\<rparr>"
        using shift_write [of A bs "[Z]" Z ?it] ne
        unfolding ins lst last' asl by (cases "bs = []") (simp_all add: Let_def sl shift)
      have "A @ ?it # bs = pre0 @ map Some (prio_insert (v, p) ?xs) @ []"
        by (simp add: prio_insert_def bs_def A_def)
      moreover have "sq_head q - 1 = length pre0" using head pre by simp
      ultimately show ?thesis unfolding left_ins by (intro exI [of _ pre0] exI [of _ "[]"]) simp
    next
      case room
      have "sq_insert v p q = q\<lparr>sq_items := as @ ?it # bs @ cs, sq_size := sq_size q + 1\<rparr>"
        using room last shift_write_room [of as bs c cs ?it] unfolding ins by (simp add: items' slice_def)
      then show ?thesis using head by (auto simp: prio_insert_def as_def bs_def)
    qed
  qed
  then obtain pre' post' where r: "sq_items (sq_insert v p q) = pre' @ map Some (prio_insert (v, p) ?xs) @ post'"
    "sq_head (sq_insert v p q) = length pre'" "sq_size (sq_insert v p q) = sq_size q + 1" by blast
  have "sq_size q + 1 = length (prio_insert (v, p) ?xs)" by (simp add: prio_insert_def size)
  then show "sq_wf (sq_insert v p q)" "sq_Iter (sq_insert v p q) = prio_insert (v, p) ?xs"
    using sq_wfI [OF r(1,2) _ sorted_prio_insert [OF sorted]] r(3) by simp_all
qed

section \<open>Removal and search\<close>

lemma sq_size_0_iff: "sq_size q = 0 \<longleftrightarrow> sq_Iter q = []"
  using length_sq_Iter [of q] by (metis length_0_conv)

lemma sq_at_head:
  assumes "sq_Iter q = x # xs"
  shows "sq_at q (sq_head q) = x"
proof -
  have "0 < sq_size q" using length_sq_Iter [of q] unfolding assms by simp
  then have "sq_Iter q ! 0 = sq_at q (sq_head q)" by (simp add: sq_Iter_def)
  then show ?thesis by (simp add: assms)
qed

lemma sq_popInternal_ok:
  assumes wf: "sq_wf q" and it: "sq_Iter q = x # xs"
  shows "\<exists>q'. sq_popInternal q = (fst x, q') \<and> sq_wf q' \<and> sq_Iter q' = xs"
proof -
  obtain pre post where items: "sq_items q = pre @ map Some (x # xs) @ post" and head: "sq_head q = length pre"
    using wf it by (metis sq_wfE)
  have size: "sq_size q = Suc (length xs)" using it by (metis length_Cons length_sq_Iter)
  have sorted: "sorted (map snd xs)" using wf it by (simp add: sq_wf_def)
  have at: "sq_at q (sq_head q) = x" using it by (rule sq_at_head)
  let ?items = "pre @ None # map Some xs @ post"
  have upd: "(sq_items q)[sq_head q := None] = ?items" by (simp add: items head)
  have sl: "slice (Suc (length pre)) (Suc (length pre + length xs)) ?items = map Some xs" by (simp add: slice_def)
  define q' where "q' = snd (sq_popInternal q)"
  have pop: "sq_popInternal q = (fst x, q')" by (simp add: q'_def sq_popInternal_def size at Let_def)
  have q': "q' = (if 4096 < length ?items \<and> length xs < 1024 then
        \<lparr>sq_items = go_copy (replicate 2048 None) (map Some xs), sq_head = 0, sq_size = length xs\<rparr>
      else if 4096 < length ?items \<and> length ?items div 2 + 1 < Suc (length pre) then
        \<lparr>sq_items = go_copy ?items (map Some xs), sq_head = 0, sq_size = length xs\<rparr>
      else \<lparr>sq_items = ?items, sq_head = Suc (length pre), sq_size = length xs\<rparr>)"
    unfolding q'_def sq_popInternal_def Let_def upd size by (simp only: head size) (simp add: sl)
  have "\<exists>pre' post'. sq_items q' = pre' @ map Some xs @ post' \<and> sq_head q' = length pre' \<and> sq_size q' = length xs"
  proof (cases "4096 < length ?items \<and> length xs < 1024 \<or> 4096 < length ?items \<and> length ?items div 2 + 1 < Suc (length pre)")
    case True
    then show ?thesis unfolding q'
      by - (rule exI [of _ "[]"], auto simp: go_copy_prefix)
  next
    case False
    then show ?thesis unfolding q' by - (rule exI [of _ "pre @ [None]"], auto)
  qed
  then show ?thesis using pop sq_wfI(1,2) sorted by metis
qed

text \<open>The value found for a priority, and what \<open>PopUntil\<close> leaves.\<close>

definition prio_find :: "u64 \<Rightarrow> 'a sq_item list \<Rightarrow> 'a option" where
  "prio_find p xs = (case dropWhile (\<lambda>x. snd x < p) xs of [] \<Rightarrow> None | y # _ \<Rightarrow> if snd y = p then fst y else None)"

definition prio_rest :: "u64 \<Rightarrow> 'a sq_item list \<Rightarrow> 'a sq_item list" where
  "prio_rest p xs = (case dropWhile (\<lambda>x. snd x < p) xs of [] \<Rightarrow> [] | y # ys \<Rightarrow> if snd y = p then ys else y # ys)"

lemma prio_find_Cons:
  "prio_find p (x # xs) = (if snd x = p then fst x else if p < snd x then None else prio_find p xs)"
  by (auto simp: prio_find_def)

lemma find_loop_ok: "j + n = sq_size q \<Longrightarrow> find_loop q p (sq_head q + j) n = prio_find p (drop j (sq_Iter q))"
proof (induction n arbitrary: j)
  case 0
  then show ?case by (simp add: prio_find_def)
next
  case (Suc n)
  then have "drop j (sq_Iter q) = sq_at q (sq_head q + j) # drop (Suc j) (sq_Iter q)"
    by (subst Cons_nth_drop_Suc [symmetric]) (simp_all add: sq_Iter_def)
  then show ?case using Suc.IH [of "Suc j"] Suc.prems by (simp add: prio_find_Cons)
qed

lemma sq_findInternal_ok: "sq_findInternal p q = prio_find p (sq_Iter q)"
  using find_loop_ok [of 0 "sq_size q" q p] sq_size_0_iff [of q]
  by (auto simp: sq_findInternal_def prio_find_def)

lemma sq_PopUntil_ok:
  assumes "sq_wf q" "list_all (\<lambda>x. fst x \<noteq> None) (sq_Iter q)"
  shows "\<exists>q'. sq_PopUntil p q = (prio_find p (sq_Iter q), q') \<and> sq_wf q' \<and> sq_Iter q' = prio_rest p (sq_Iter q)"
  using assms
proof (induction "sq_Iter q" arbitrary: q)
  case Nil
  then have "sq_peekInternal q = (None, 0)" using sq_size_0_iff [of q] by (simp add: sq_peekInternal_def)
  then show ?case using Nil by (subst sq_PopUntil.simps) (auto simp: prio_find_def prio_rest_def)
next
  case (Cons x xs)
  obtain q' where q': "sq_popInternal q = (fst x, q')" "sq_wf q'" "sq_Iter q' = xs"
    using sq_popInternal_ok Cons.prems(1) Cons.hyps(2) by metis
  have peek: "sq_peekInternal q = x"
    using sq_at_head [OF Cons.hyps(2) [symmetric]] Cons.hyps(2) sq_size_0_iff [of q] by (auto simp: sq_peekInternal_def)
  have nn: "fst x \<noteq> None" "list_all (\<lambda>x. fst x \<noteq> None) xs"
    using Cons.prems(2) unfolding Cons.hyps(2) [symmetric] by simp_all
  consider "snd x < p" | "snd x = p" | "p < snd x" by (meson linorder_less_linear)
  then show ?case
  proof cases
    case 1
    then have "sq_PopUntil p q = sq_PopUntil p q'"
      using peek nn q' by (subst sq_PopUntil.simps) (cases x; auto)
    then show ?thesis
      using Cons.hyps(1) [of q'] q'(2,3) nn 1 unfolding Cons.hyps(2) [symmetric]
      by (simp add: prio_find_def prio_rest_def)
  next
    case 2
    then have "sq_PopUntil p q = (fst x, q')"
      using peek nn q' by (subst sq_PopUntil.simps) (cases x; auto)
    then show ?thesis
      using q'(2,3) 2 unfolding Cons.hyps(2) [symmetric] by (simp add: prio_find_def prio_rest_def)
  next
    case 3
    then have "sq_PopUntil p q = (None, q)"
      using peek nn q' by (subst sq_PopUntil.simps) (cases x; auto)
    then show ?thesis
      using Cons.prems(1) 3 Cons.hyps(2) [symmetric] by (auto simp: prio_find_def prio_rest_def)
  qed
qed

section \<open>Runs of operations\<close>

datatype 'a sop = SInsert 'a u64 | SFindOrInsert 'a u64 | SFind u64 | SPop | SPopUntil u64

fun sq_step :: "'a sop \<Rightarrow> 'a sortedQueue \<Rightarrow> 'a option \<times> 'a sortedQueue" where
  "sq_step (SInsert v p) q = (None, sq_insert (Some v) p q)"
| "sq_step (SFindOrInsert v p) q = sq_FindOrInsert (Some v) p q"
| "sq_step (SFind p) q = (sq_findInternal p q, q)"
| "sq_step SPop q = sq_popInternal q"
| "sq_step (SPopUntil p) q = sq_PopUntil p q"

fun prio_step :: "'a sop \<Rightarrow> 'a sq_item list \<Rightarrow> 'a option \<times> 'a sq_item list" where
  "prio_step (SInsert v p) xs = (None, prio_insert (Some v, p) xs)"
| "prio_step (SFindOrInsert v p) xs =
     (if \<exists>x \<in> set xs. snd x = p then (prio_find p xs, xs) else (None, prio_insert (Some v, p) xs))"
| "prio_step (SFind p) xs = (prio_find p xs, xs)"
| "prio_step SPop xs = (case xs of [] \<Rightarrow> (None, []) | x # ys \<Rightarrow> (fst x, ys))"
| "prio_step (SPopUntil p) xs = (prio_find p xs, prio_rest p xs)"

fun srun :: "('o \<Rightarrow> 's \<Rightarrow> 'r \<times> 's) \<Rightarrow> 'o list \<Rightarrow> 's \<Rightarrow> 'r list \<times> 's" where
  "srun step [] s = ([], s)"
| "srun step (x # xs) s = (case step x s of (r, s') \<Rightarrow> case srun step xs s' of (rs, s'') \<Rightarrow> (r # rs, s''))"

definition sq_ok :: "'a sortedQueue \<Rightarrow> bool" where
  "sq_ok q \<longleftrightarrow> sq_wf q \<and> list_all (\<lambda>x. fst x \<noteq> None) (sq_Iter q)"

lemma prio_find_iff:
  assumes "sorted (map snd xs)" "list_all (\<lambda>x. fst x \<noteq> None) xs"
  shows "prio_find p xs \<noteq> None \<longleftrightarrow> (\<exists>x \<in> set xs. snd x = p)"
  using assms by (induction xs) (auto simp: prio_find_Cons prio_find_def [of p "[]"])

lemma prio_insert_ok: "list_all P xs \<Longrightarrow> P it \<Longrightarrow> list_all P (prio_insert it xs)"
  by (auto simp: prio_insert_def list_all_iff dest: set_takeWhileD set_dropWhileD)

lemma prio_rest_ok: "list_all P xs \<Longrightarrow> list_all P (prio_rest p xs)"
  by (induction xs) (auto simp: prio_rest_def)

lemma sq_step_ok:
  assumes "sq_ok q"
  shows "\<exists>q'. sq_step r q = (fst (prio_step r (sq_Iter q)), q') \<and> sq_ok q' \<and> sq_Iter q' = snd (prio_step r (sq_Iter q))"
proof (cases r)
  case (SFindOrInsert v p)
  have "prio_find p (sq_Iter q) \<noteq> None \<longleftrightarrow> (\<exists>x \<in> set (sq_Iter q). snd x = p)"
    using assms by (intro prio_find_iff) (auto simp: sq_ok_def sq_wf_def)
  then show ?thesis
    using assms SFindOrInsert
    by (auto simp: sq_FindOrInsert_def sq_findInternal_ok sq_ok_def sq_insert_ok prio_insert_ok split: option.splits)
next
  case SPop
  show ?thesis
  proof (cases "sq_Iter q")
    case Nil
    then show ?thesis using assms SPop sq_size_0_iff [of q] by (simp add: sq_popInternal_def)
  next
    case (Cons x xs)
    then show ?thesis using assms SPop sq_popInternal_ok [of q x xs] by (auto simp: sq_ok_def)
  qed
next
  case (SPopUntil p)
  then show ?thesis using assms sq_PopUntil_ok [of q p] by (auto simp: sq_ok_def prio_rest_ok)
qed (use assms in \<open>auto simp: sq_ok_def sq_insert_ok prio_insert_ok sq_findInternal_ok\<close>)

lemma srun_ok:
  assumes "sq_ok q"
  shows "\<exists>q'. srun sq_step ops q = (fst (srun prio_step ops (sq_Iter q)), q') \<and> sq_ok q'
           \<and> sq_Iter q' = snd (srun prio_step ops (sq_Iter q))"
  using assms
proof (induction ops arbitrary: q)
  case (Cons r ops)
  obtain q' where q': "sq_step r q = (fst (prio_step r (sq_Iter q)), q')" "sq_ok q'"
    "sq_Iter q' = snd (prio_step r (sq_Iter q))" using sq_step_ok [OF Cons.prems] by blast
  obtain v xs where st: "prio_step r (sq_Iter q) = (v, xs)" by fastforce
  show ?case using Cons.IH [OF q'(2)] q' st by (auto split: prod.splits)
qed simp

lemma NewSortedQueue_ok: "sq_ok NewSortedQueue" "sq_Iter NewSortedQueue = []"
  by (simp_all add: sq_ok_def sq_wf_def NewSortedQueue_def sq_Iter_def)

text \<open>
  C23. The sorted queue implements a list sorted by priority. From \<open>NewSortedQueue\<close>, any sequence of
  \<open>Insert\<close>, \<open>FindOrInsert\<close>, \<open>Find\<close>, \<open>Pop\<close> and \<open>PopUntil\<close> with non-nil values returns what the same
  operations return on a sorted list, through every growth, shift and compaction of the array; the live
  slots never contain a nil pointer and stay sorted, and \<open>PopUntil\<close> always returns.
\<close>

theorem SortedQueue_refines:
  "\<exists>q. srun sq_step ops NewSortedQueue = (fst (srun prio_step ops []), q)
     \<and> sq_wf q \<and> sq_Iter q = snd (srun prio_step ops [])"
  using srun_ok [OF NewSortedQueue_ok(1), of ops] by (auto simp: NewSortedQueue_ok(2) sq_ok_def)

text \<open>
  \<open>Insert\<close> never replaces: an item is always added behind the items of the same priority, although
  the code has a branch that overwrites an item of equal priority. The branch is dead because the binary
  search looks for a strictly greater priority.
\<close>

theorem SortedQueue_Insert_keeps:
  assumes "sq_wf q"
  shows "sq_size (sq_insert v p q) = sq_size q + 1
       \<and> filter (\<lambda>x. snd x = p) (sq_Iter (sq_insert v p q)) = filter (\<lambda>x. snd x = p) (sq_Iter q) @ [(v, p)]"
proof -
  let ?xs = "sq_Iter q" and ?P = "\<lambda>x. snd x = p"
  let ?t = "takeWhile (\<lambda>x. snd x \<le> p) ?xs" and ?d = "dropWhile (\<lambda>x. snd x \<le> p) ?xs"
  have sorted: "sorted (map snd ?t @ map snd ?d)" using assms by (simp add: sq_wf_def flip: map_append)
  have "filter ?P ?d = []"
  proof (cases ?d)
    case (Cons y ys)
    then have "\<not> snd y \<le> p" by (metis hd_dropWhile list.discI list.sel(1))
    then show ?thesis using sorted Cons by (force simp: sorted_append filter_empty_conv)
  next
    case Nil
    show ?thesis unfolding Nil by simp
  qed
  then have "filter ?P (prio_insert (v, p) ?xs) = filter ?P (?t @ ?d) @ [(v, p)]"
    by (simp only: prio_insert_def filter_append) simp
  moreover have "sq_size (sq_insert v p q) = length (prio_insert (v, p) ?xs)"
    using arg_cong [OF sq_insert_ok(2) [OF assms, of v p], of length] by simp
  moreover have "length ?t + length ?d = sq_size q"
    by (metis length_append length_sq_Iter takeWhile_dropWhile_id)
  ultimately show ?thesis by (simp add: sq_insert_ok(2) [OF assms] prio_insert_def)
qed

theorem SortedQueue_Insert_keeps_witness:
  "filter (\<lambda>x. snd x = 5) (sq_Iter (sq_insert (Some True) 5 \<lparr>sq_items = [Some (Some False, 5)], sq_head = 0, sq_size = 1\<rparr>))
     = [(Some False, 5), (Some True, 5)]"
proof -
  let ?q = "\<lparr>sq_items = [Some (Some False, 5)], sq_head = 0, sq_size = 1\<rparr> :: bool sortedQueue"
  have it: "sq_Iter ?q = [(Some False, 5)]" by (simp add: sq_Iter_def sq_at_def)
  then have "sq_wf ?q" by (simp add: sq_wf_def)
  then show ?thesis using SortedQueue_Insert_keeps [of ?q "Some True" 5] unfolding it by simp
qed

end
