(* ===== verification/Tx_Pool.thy ===== *)
theory Tx_Pool
  imports Linked_Queue Sorted_Queue
begin

text \<open>
  The transaction pool (\<open>core/txpool/transaction_pool.go\<close>). Transactions without a sequence wait in a linked queue, those
  of an account in a queue sorted by sequence. \<open>turnQ\<close> holds one turn per transaction (\<^const>\<open>True\<close> for the linked queue),
  \<open>numberQ\<close> one address per account transaction; \<open>turnOutMap\<close> and \<open>numberOutMap\<close> count entries of these queues that are
  to be skipped, since their transactions were removed. Every method holds the mutex of the pool.
\<close>

section \<open>State\<close>

record 'tx pool_item =
  pi_ChainID :: u8
  pi_TxType :: u16
  pi_TxHash :: hash256
  pi_Transaction :: 'tx
  pi_Signatures :: "signature list"
  pi_Signers :: "public_hash list"

record 'tx tx_pool =
  turnQ :: "bool queue"
  numberQ :: "address queue"
  utxoQ :: "'tx pool_item linkedQueue"
  txhashMap :: "hash256 \<rightharpoonup> bool"
  turnOutMap :: "bool \<rightharpoonup> nat"
  numberOutMap :: "address \<rightharpoonup> nat"
  bucketMap :: "address \<rightharpoonup> 'tx pool_item sortedQueue"

text \<open>
  The type assertion to \<open>AccountTransaction\<close>, with the address and the sequence; and the pages that the page pool hands
  out, which may depend on anything.
\<close>

record 'tx pool_env =
  pn_account :: "'tx \<Rightarrow> (address \<times> u64) option"
  pn_turn_page :: "bool queue \<Rightarrow> bool queuePage"
  pn_number_page :: "address queue \<Rightarrow> address queuePage"

definition NewTransactionPool :: "'tx tx_pool" where
  "NewTransactionPool =
     \<lparr>turnQ = NewQueue, numberQ = NewQueue, utxoQ = NewLinkedQueue, txhashMap = Map.empty, turnOutMap = Map.empty,
      numberOutMap = Map.empty, bucketMap = Map.empty\<rparr>"

text \<open>A Go map of counters: a missing key reads 0.\<close>

definition out :: "('k \<rightharpoonup> nat) \<Rightarrow> 'k \<Rightarrow> nat" where
  "out m k = (case m k of None \<Rightarrow> 0 | Some n \<Rightarrow> n)"

definition inc_out :: "'k \<Rightarrow> ('k \<rightharpoonup> nat) \<Rightarrow> 'k \<rightharpoonup> nat" where
  "inc_out k m = m(k \<mapsto> out m k + 1)"

definition dec_out :: "'k \<Rightarrow> ('k \<rightharpoonup> nat) \<Rightarrow> 'k \<rightharpoonup> nat" where
  "dec_out k m = (let n = out m k - 1 in if n = 0 then m(k := None) else m(k \<mapsto> n))"

definition IsExist :: "hash256 \<Rightarrow> 'tx tx_pool \<Rightarrow> bool" where
  "IsExist TxHash tp \<longleftrightarrow> txhashMap tp TxHash = Some True"

definition pool_Size :: "'tx tx_pool \<Rightarrow> int" where
  "pool_Size tp = int (queue_Size (turnQ tp)) - (int (out (turnOutMap tp) True) + int (out (turnOutMap tp) False))"

definition push_turn :: "'tx pool_env \<Rightarrow> bool \<Rightarrow> 'tx tx_pool \<Rightarrow> 'tx tx_pool" where
  "push_turn E turn tp = tp\<lparr>turnQ := Push (pn_turn_page E (turnQ tp)) (Some turn) (turnQ tp)\<rparr>"

definition push_number :: "'tx pool_env \<Rightarrow> address \<Rightarrow> 'tx tx_pool \<Rightarrow> 'tx tx_pool" where
  "push_number E addr tp = tp\<lparr>numberQ := Push (pn_number_page E (numberQ tp)) (Some addr) (numberQ tp)\<rparr>"

definition forget_hash :: "'tx pool_item \<Rightarrow> 'tx tx_pool \<Rightarrow> 'tx tx_pool" where
  "forget_hash item tp = tp\<lparr>txhashMap := (txhashMap tp)(pi_TxHash item := None)\<rparr>"

section \<open>Push\<close>

definition pool_Push :: "'tx pool_env \<Rightarrow> u8 \<Rightarrow> u16 \<Rightarrow> hash256 \<Rightarrow> 'tx \<Rightarrow> signature list \<Rightarrow> public_hash list \<Rightarrow> 'tx tx_pool \<Rightarrow> unit res \<times> 'tx tx_pool" where
  "pool_Push E ChainID t TxHash tx sigs signers tp =
     (if IsExist TxHash tp then (Inl ErrExistTransaction, tp)
      else
        let item = \<lparr>pi_ChainID = ChainID, pi_TxType = t, pi_TxHash = TxHash, pi_Transaction = tx, pi_Signatures = sigs, pi_Signers = signers\<rparr> in
        case pn_account E tx of
          None \<Rightarrow>
            (case LPush TxHash (Some item) (utxoQ tp) of
               Inl e \<Rightarrow> (Inl e, tp)
             | Inr q \<Rightarrow>
                 let tp = push_turn E True (tp\<lparr>utxoQ := q\<rparr>) in (Inr (), tp\<lparr>txhashMap := (txhashMap tp)(TxHash \<mapsto> True)\<rparr>))
        | Some (addr, seq) \<Rightarrow>
            let q = (case bucketMap tp addr of None \<Rightarrow> NewSortedQueue | Some q \<Rightarrow> q) in
            (case sq_FindOrInsert (Some item) seq q of
               (Some _, q) \<Rightarrow> (Inl ErrExistTransactionSeq, tp\<lparr>bucketMap := (bucketMap tp)(addr \<mapsto> q)\<rparr>)
             | (None, q) \<Rightarrow>
                 let tp = push_turn E False (push_number E addr (tp\<lparr>bucketMap := (bucketMap tp)(addr \<mapsto> q)\<rparr>))
                 in (Inr (), tp\<lparr>txhashMap := (txhashMap tp)(TxHash \<mapsto> True)\<rparr>)))"

section \<open>Remove\<close>

text \<open>The turn of a removed transaction: taken from the front of the queue, or counted as to be skipped.\<close>

definition drop_turn :: "bool \<Rightarrow> 'tx tx_pool \<Rightarrow> 'tx tx_pool" where
  "drop_turn turn tp =
     (if Peek (turnQ tp) = Some turn then tp\<lparr>turnQ := snd (snd (Pop (turnQ tp)))\<rparr>
      else tp\<lparr>turnOutMap := inc_out turn (turnOutMap tp)\<rparr>)"

definition drop_number :: "address \<Rightarrow> 'tx tx_pool \<Rightarrow> 'tx tx_pool" where
  "drop_number addr tp =
     (if Peek (numberQ tp) = Some addr then tp\<lparr>numberQ := snd (snd (Pop (numberQ tp)))\<rparr>
      else tp\<lparr>numberOutMap := inc_out addr (numberOutMap tp)\<rparr>)"

text \<open>The sequence of a queued item; the assertions panic for what is not an item of an account.\<close>

definition item_seq :: "'tx pool_env \<Rightarrow> 'tx pool_item option \<Rightarrow> ('tx pool_item \<times> u64) res" where
  "item_seq E v =
     (case v of
        None \<Rightarrow> Inl Panic
      | Some item \<Rightarrow> (case pn_account E (pi_Transaction item) of None \<Rightarrow> Inl Panic | Some (_, seq) \<Rightarrow> Inr (item, seq)))"

partial_function (option) remove_loop ::
    "'tx pool_env \<Rightarrow> address \<Rightarrow> u64 \<Rightarrow> 'tx pool_item sortedQueue \<Rightarrow> 'tx tx_pool \<Rightarrow> (unit res \<times> 'tx pool_item sortedQueue \<times> 'tx tx_pool) option" where
  "remove_loop E addr seq q tp =
     (if sq_size q = 0 then Some (Inr (), q, tp)
      else case item_seq E (fst (sq_peekInternal q)) of
          Inl e \<Rightarrow> Some (Inl e, q, tp)
        | Inr (item, itemSeq) \<Rightarrow>
            if seq \<le> itemSeq then Some (Inr (), q, tp)
            else remove_loop E addr seq (snd (sq_popInternal q)) (drop_number addr (drop_turn False (forget_hash item tp))))"

definition put_bucket :: "address \<Rightarrow> 'tx pool_item sortedQueue \<Rightarrow> 'tx tx_pool \<Rightarrow> 'tx tx_pool" where
  "put_bucket addr q tp = tp\<lparr>bucketMap := (bucketMap tp)(addr := if sq_size q = 0 then None else Some q)\<rparr>"

definition pool_Remove :: "'tx pool_env \<Rightarrow> hash256 \<Rightarrow> 'tx \<Rightarrow> 'tx tx_pool \<Rightarrow> (unit res \<times> 'tx tx_pool) option" where
  "pool_Remove E TxHash t tp =
     (case pn_account E t of
        None \<Rightarrow>
          (case LRemove TxHash (utxoQ tp) of
             (None, q) \<Rightarrow> Some (Inr (), tp\<lparr>utxoQ := q\<rparr>)
           | (Some _, q) \<Rightarrow>
               let tp = drop_turn True (tp\<lparr>utxoQ := q\<rparr>) in Some (Inr (), tp\<lparr>txhashMap := (txhashMap tp)(TxHash := None)\<rparr>))
      | Some (addr, seq) \<Rightarrow>
          (case bucketMap tp addr of
             None \<Rightarrow> Some (Inr (), tp)
           | Some q \<Rightarrow>
               Option.bind (remove_loop E addr seq q tp) (\<lambda>(r, q, tp).
               case r of
                 Inl e \<Rightarrow> Some (Inl e, tp\<lparr>bucketMap := (bucketMap tp)(addr \<mapsto> q)\<rparr>)
               | Inr _ \<Rightarrow> Some (Inr (), put_bucket addr q tp))))"

section \<open>Pop\<close>

text \<open>The next turn that is not to be skipped, \<^const>\<open>None\<close> when there is none.\<close>

partial_function (option) next_turn :: "'tx tx_pool \<Rightarrow> (bool option res \<times> 'tx tx_pool) option" where
  "next_turn tp =
     (if queue_Size (turnQ tp) = 0 then Some (Inr None, tp)
      else case Pop (turnQ tp) of (v, _, q) \<Rightarrow>
        let tp = tp\<lparr>turnQ := q\<rparr> in
        case v of
          None \<Rightarrow> Some (Inl Panic, tp)
        | Some turn \<Rightarrow>
            if 0 < out (turnOutMap tp) turn then next_turn (tp\<lparr>turnOutMap := dec_out turn (turnOutMap tp)\<rparr>)
            else Some (Inr (Some turn), tp))"

partial_function (option) next_number :: "int \<Rightarrow> 'tx tx_pool \<Rightarrow> (address option res \<times> int \<times> 'tx tx_pool) option" where
  "next_number remain tp =
     (if queue_Size (numberQ tp) = 0 then Some (Inr None, remain, tp)
      else case Pop (numberQ tp) of (v, _, q) \<Rightarrow>
        let tp = tp\<lparr>numberQ := q\<rparr> in
        case v of
          None \<Rightarrow> Some (Inl Panic, remain, tp)
        | Some addr \<Rightarrow>
            if 0 < out (numberOutMap tp) addr then next_number (remain - 1) (tp\<lparr>numberOutMap := dec_out addr (numberOutMap tp)\<rparr>)
            else Some (Inr (Some addr), remain - 1, tp))"

text \<open>The first item of the bucket leaves the pool.\<close>

definition take_item :: "address \<Rightarrow> 'tx pool_item sortedQueue \<Rightarrow> 'tx pool_item \<Rightarrow> 'tx tx_pool \<Rightarrow> 'tx tx_pool" where
  "take_item addr q item tp = put_bucket addr (snd (sq_popInternal q)) (forget_hash item tp)"

text \<open>\<open>Seq\<close> is the sequence cache; \<open>ignoreMap\<close> lists the accounts whose next transaction is not there yet.\<close>

partial_function (option) pop_account ::
    "'tx pool_env \<Rightarrow> (address \<Rightarrow> u64) \<Rightarrow> int \<Rightarrow> address set \<Rightarrow> 'tx tx_pool \<Rightarrow> ('tx pool_item option res \<times> 'tx tx_pool) option" where
  "pop_account E Seq remain ignoreMap tp =
     Option.bind (next_number remain tp) (\<lambda>(r, remain, tp).
     case r of
       Inl e \<Rightarrow> Some (Inl e, tp)
     | Inr None \<Rightarrow> Some (Inr None, tp)
     | Inr (Some addr) \<Rightarrow>
         if addr \<in> ignoreMap then
           let tp = push_number E addr tp in
           if 0 < remain then pop_account E Seq remain ignoreMap tp
           else Some (Inr None, push_turn E False tp)
         else
           case bucketMap tp addr of
             None \<Rightarrow> Some (Inl Panic, tp)
           | Some q \<Rightarrow>
               (case item_seq E (fst (sq_peekInternal q)) of
                  Inl e \<Rightarrow> Some (Inl e, tp)
                | Inr (item, txSeq) \<Rightarrow>
                    if txSeq < Seq addr + 1 then
                      let tp = take_item addr q item tp in
                      if 0 < remain then pop_account E Seq remain ignoreMap (drop_turn False tp)
                      else Some (Inr None, tp)
                    else if Seq addr + 1 < txSeq then
                      let tp = push_number E addr tp in
                      if 0 < remain then pop_account E Seq remain (insert addr ignoreMap) tp
                      else Some (Inr None, push_turn E False tp)
                    else Some (Inr (Some item), take_item addr q item tp)))"

definition UnsafePop :: "'tx pool_env \<Rightarrow> (address \<Rightarrow> u64) \<Rightarrow> 'tx tx_pool \<Rightarrow> ('tx pool_item option res \<times> 'tx tx_pool) option" where
  "UnsafePop E Seq tp =
     Option.bind (next_turn tp) (\<lambda>(r, tp).
     case r of
       Inl e \<Rightarrow> Some (Inl e, tp)
     | Inr None \<Rightarrow> Some (Inr None, tp)
     | Inr (Some True) \<Rightarrow>
         Some (case LPop (utxoQ tp) of
                 Inl e \<Rightarrow> (Inl e, tp)
               | Inr (None, q) \<Rightarrow> (Inl Panic, tp\<lparr>utxoQ := q\<rparr>)
               | Inr (Some item, q) \<Rightarrow> (Inr (Some item), forget_hash item (tp\<lparr>utxoQ := q\<rparr>)))
     | Inr (Some False) \<Rightarrow> pop_account E Seq (int (queue_Size (numberQ tp))) {} tp)"

end
