(* ===== verification/Tx_Pool_Rep.thy ===== *)
theory Tx_Pool_Rep
  imports Tx_Pool
begin

text \<open>What a transaction pool holds: its queues as lists, and the queues and buckets at their fronts.\<close>

section \<open>Queues at their fronts\<close>

lemma Peek_rep: "queue_rep q xs \<Longrightarrow> Peek q = (case xs of [] \<Rightarrow> None | x # _ \<Rightarrow> Some x)"
proof (cases xs)
  case Nil
  assume "queue_rep q xs"
  then have "\<forall>p \<in> set (q_pages q). page_iter p = []" using Nil by (auto simp: queue_rep_def queue_Iter_def)
  then have "\<forall>p \<in> set (q_pages q). pg_size p = 0" by (metis length_page_iter list.size(3))
  then show ?thesis using Nil by (cases "q_pages q") (auto simp: Peek_def page_peek_def)
next
  case (Cons x ys)
  assume "queue_rep q xs"
  then obtain put q' where p: "Pop q = (Some x, put, q')" using Pop_rep [of q x ys] Cons by auto
  then have "q_pages q \<noteq> []" by (auto simp: Pop_def)
  then have "fst (page_pop (hd (q_pages q))) = Some x" using p by (auto simp: Pop_def split: prod.splits if_splits)
  then show ?thesis using \<open>q_pages q \<noteq> []\<close> Cons by (auto simp: Peek_def page_peek_def page_pop_def split: if_splits)
qed

lemma Size_rep: "queue_rep q xs \<Longrightarrow> queue_Size q = length xs"
  by (simp add: queue_rep_def queue_Size_def)

lemma LRemove_stale:
  assumes "keyed_rep q kvs" "map_of kvs k = None"
  shows "keyed_rep (snd (LRemove k q)) kvs" "lq_keyMap (snd (LRemove k q)) = lq_keyMap q"
proof -
  obtain as where as: "lq_inv q as" "lq_keyed q as" "map (lq_entry q) as = map (apsnd Some) kvs"
    using assms(1) by (auto simp: keyed_rep_def)
  have "snd (LRemove k q) = q" if "lq_keyMap q k = Some a" "lq_Head q \<noteq> None" for a
  proof -
    have "a \<notin> set as"
    proof
      assume "a \<in> set as"
      then have "li_Key (lq_heap q a) \<in> set (map fst kvs)" unfolding entry_keys [OF as(3), symmetric] by simp
      moreover have "li_Key (lq_heap q a) = k" using as(1) that(1) by (simp add: lq_inv_def)
      ultimately show False using assms(2) by (simp add: map_of_eq_None_iff)
    qed
    then have p: "li_Prev (lq_heap q a) = None" "li_Next (lq_heap q a) = None" using as(1) that(1) by (auto simp: lq_inv_def)
    then have h: "(lq_heap q)(a := lq_heap q a\<lparr>li_Prev := None, li_Next := None\<rparr>) = lq_heap q" by (intro ext) simp
    have "lq_Head q = first_ptr as None" "lq_Tail q = last_ptr as None" using as(1) by (simp_all add: lq_inv_def)
    then have "Some a \<noteq> lq_Head q" "Some a \<noteq> lq_Tail q"
      using \<open>a \<notin> set as\<close> last_in_set [of as] by (cases as; auto simp: last_ptr_def)+
    then show ?thesis using that p h by (simp add: LRemove_def Let_def)
  qed
  then have "snd (LRemove k q) = q" by (cases "lq_keyMap q k"; cases "lq_Head q") (auto simp: LRemove_def)
  then show "keyed_rep (snd (LRemove k q)) kvs" "lq_keyMap (snd (LRemove k q)) = lq_keyMap q" using assms(1) by simp_all
qed

section \<open>What a pool holds\<close>

definition iseq :: "'tx pool_env \<Rightarrow> 'tx pool_item \<Rightarrow> u64" where
  "iseq E i = (case pn_account E (pi_Transaction i) of None \<Rightarrow> 0 | Some (_, seq) \<Rightarrow> seq)"

text \<open>The bucket of an address is a queue of its items in the order of their sequences, which differ.\<close>

definition bucket_rep :: "'tx pool_env \<Rightarrow> address \<Rightarrow> 'tx pool_item sortedQueue \<Rightarrow> 'tx pool_item list \<Rightarrow> bool" where
  "bucket_rep E addr q xs \<longleftrightarrow> sq_wf q \<and> sq_Iter q = map (\<lambda>i. (Some i, iseq E i)) xs \<and> sorted_wrt (<) (map (iseq E) xs)
     \<and> (\<forall>i \<in> set xs. \<exists>seq. pn_account E (pi_Transaction i) = Some (addr, seq))"

definition buckets_rep :: "'tx pool_env \<Rightarrow> (address \<rightharpoonup> 'tx pool_item sortedQueue) \<Rightarrow> (address \<Rightarrow> 'tx pool_item list) \<Rightarrow> bool" where
  "buckets_rep E bm B \<longleftrightarrow> (\<forall>addr. bm addr = None \<longrightarrow> B addr = []) \<and> (\<forall>addr q. bm addr = Some q \<longrightarrow> bucket_rep E addr q (B addr) \<and> B addr \<noteq> [])"

text \<open>The items of the linked queue and of the buckets, by hash.\<close>

definition holds :: "('tx \<Rightarrow> hash256) \<Rightarrow> (hash256 \<times> 'tx pool_item) list \<Rightarrow> (address \<Rightarrow> 'tx pool_item list) \<Rightarrow> (hash256 \<rightharpoonup> 'tx pool_item) \<Rightarrow> bool" where
  "holds H us B C \<longleftrightarrow> (\<forall>h i. C h = Some i \<longleftrightarrow> h = pi_TxHash i \<and> ((h, i) \<in> set us \<or> (\<exists>addr. i \<in> set (B addr))))
     \<and> (\<forall>h i. C h = Some i \<longrightarrow> h = H (pi_Transaction i))"

text \<open>
  \<open>pool_rep\<close>: the queues of the pool as lists, and its contents \<open>C\<close>. An address is queued once for every item of its
  bucket and for every entry to be skipped; there are at most as many turns for the linked queue as it has items.
\<close>

definition pool_rep :: "'tx pool_env \<Rightarrow> ('tx \<Rightarrow> hash256) \<Rightarrow> 'tx tx_pool \<Rightarrow> bool list \<Rightarrow> address list
    \<Rightarrow> (hash256 \<times> 'tx pool_item) list \<Rightarrow> (address \<Rightarrow> 'tx pool_item list) \<Rightarrow> (hash256 \<rightharpoonup> 'tx pool_item) \<Rightarrow> bool" where
  "pool_rep E H tp ts ns us B C \<longleftrightarrow> queue_rep (turnQ tp) ts \<and> queue_rep (numberQ tp) ns \<and> keyed_rep (utxoQ tp) us
     \<and> buckets_rep E (bucketMap tp) B \<and> (\<forall>(h, i) \<in> set us. h = pi_TxHash i \<and> pn_account E (pi_Transaction i) = None)
     \<and> holds H us B C \<and> txhashMap tp = map_option (\<lambda>_. True) \<circ> C
     \<and> (\<forall>addr. count_list ns addr = length (B addr) + out (numberOutMap tp) addr)
     \<and> count_list ts True \<le> length us + out (turnOutMap tp) True"

definition pool_ok :: "'tx pool_env \<Rightarrow> ('tx \<Rightarrow> hash256) \<Rightarrow> 'tx tx_pool \<Rightarrow> (hash256 \<rightharpoonup> 'tx pool_item) \<Rightarrow> bool" where
  "pool_ok E H tp C \<longleftrightarrow> (\<exists>ts ns us B. pool_rep E H tp ts ns us B C)"

text \<open>Pages of the page pool are empty, and the hash tells transactions apart.\<close>

definition env_ok :: "'tx pool_env \<Rightarrow> ('tx \<Rightarrow> hash256) \<Rightarrow> bool" where
  "env_ok E H \<longleftrightarrow> inj H \<and> (\<forall>q. fresh_page (pn_turn_page E q)) \<and> (\<forall>q. fresh_page (pn_number_page E q))"

lemma out_simps [simp]:
  "out Map.empty k = 0" "out (inc_out k m) k' = (if k = k' then out m k' + 1 else out m k')"
  "out (dec_out k m) k' = (if k = k' then out m k' - 1 else out m k')"
  by (auto simp: out_def inc_out_def dec_out_def Let_def)

lemma new_pool_ok: "pool_ok E H NewTransactionPool Map.empty"
proof -
  have "pool_rep E H NewTransactionPool [] [] [] (\<lambda>_. []) Map.empty"
    by (auto simp: pool_rep_def NewTransactionPool_def NewQueue_rep NewLinkedQueue_keyed buckets_rep_def holds_def)
  then show ?thesis by (auto simp: pool_ok_def)
qed

lemma IsExist_rep: "pool_rep E H tp ts ns us B C \<Longrightarrow> IsExist h tp \<longleftrightarrow> h \<in> dom C"
  by (auto simp: pool_rep_def IsExist_def)

lemma IsExist_ok: "pool_ok E H tp C \<Longrightarrow> IsExist h tp \<longleftrightarrow> h \<in> dom C"
  unfolding pool_ok_def using IsExist_rep by blast

section \<open>Buckets\<close>

lemma prio_find_None:
  "sorted (map (iseq E) xs) \<Longrightarrow> prio_find p (map (\<lambda>i. (Some i, iseq E i)) xs) = None \<longleftrightarrow> p \<notin> iseq E ` set xs"
proof (induction xs)
  case (Cons x xs)
  then show ?case by (auto simp: prio_find_Cons)
qed (simp add: prio_find_def)

lemma bucket_new: "bucket_rep E addr NewSortedQueue []"
  by (simp add: bucket_rep_def sq_wf_def NewSortedQueue_def sq_Iter_def)

lemma bucket_size: "bucket_rep E addr q xs \<Longrightarrow> sq_size q = length xs"
  unfolding bucket_rep_def by (metis length_map length_sq_Iter)

lemma strictly_sorted: "sorted_wrt (<) (xs :: u64 list) \<longleftrightarrow> sorted xs \<and> distinct xs"
  by (rule strict_sorted_iff)

lemma bucket_insert:
  assumes "bucket_rep E addr q xs" "pn_account E (pi_Transaction item) = Some (addr, seq)" "seq \<notin> iseq E ` set xs"
  shows "sq_FindOrInsert (Some item) seq q = (None, sq_insert (Some item) seq q)"
    "\<exists>ys. bucket_rep E addr (sq_insert (Some item) seq q) ys \<and> set ys = insert item (set xs) \<and> length ys = Suc (length xs)"
proof -
  have b: "sq_wf q" "sq_Iter q = map (\<lambda>i. (Some i, iseq E i)) xs" "sorted (map (iseq E) xs)" "distinct (map (iseq E) xs)"
    using assms(1) by (auto simp: bucket_rep_def strictly_sorted)
  show "sq_FindOrInsert (Some item) seq q = (None, sq_insert (Some item) seq q)"
    using prio_find_None [OF b(3), of seq] assms(3) by (simp add: sq_FindOrInsert_def sq_findInternal_ok b(2))
  let ?ys = "takeWhile (\<lambda>i. iseq E i \<le> seq) xs @ item # dropWhile (\<lambda>i. iseq E i \<le> seq) xs"
  have sq: "iseq E item = seq" using assms(2) by (simp add: iseq_def)
  have it: "sq_Iter (sq_insert (Some item) seq q) = map (\<lambda>i. (Some i, iseq E i)) ?ys"
    using sq_insert_ok(2) [OF b(1)] sq by (simp add: b(2) prio_insert_def takeWhile_map dropWhile_map comp_def)
  have wf: "sq_wf (sq_insert (Some item) seq q)" by (rule sq_insert_ok(1) [OF b(1)])
  then have "sorted (map snd (map (\<lambda>i. (Some i, iseq E i)) ?ys))" unfolding it [symmetric] by (simp only: sq_wf_def)
  then have so: "sorted (map (iseq E) ?ys)" by (simp add: comp_def)
  have st: "set ?ys = insert item (set xs)" using takeWhile_dropWhile_id [of "\<lambda>i. iseq E i \<le> seq" xs] by (metis Un_insert_right list.simps(15) set_append)
  have ln: "length ?ys = Suc (length xs)" using takeWhile_dropWhile_id [of "\<lambda>i. iseq E i \<le> seq" xs] by (metis add_Suc_right length_Cons length_append)
  have "card (set (map (iseq E) ?ys)) = length (map (iseq E) ?ys)"
    using st ln sq assms(3) distinct_card [OF b(4)] by (simp only: set_map length_map image_insert) (simp add: card_insert_disjoint)
  then have "distinct (map (iseq E) ?ys)" by (rule card_distinct)
  then have "bucket_rep E addr (sq_insert (Some item) seq q) ?ys"
    using wf it so assms(1,2) st unfolding bucket_rep_def strictly_sorted by (metis insert_iff)
  then show "\<exists>ys. bucket_rep E addr (sq_insert (Some item) seq q) ys \<and> set ys = insert item (set xs) \<and> length ys = Suc (length xs)"
    using st ln by blast
qed

lemma bucket_find:
  assumes "bucket_rep E addr q xs" "seq \<in> iseq E ` set xs"
  shows "\<exists>i. sq_FindOrInsert (Some item) seq q = (Some i, q)"
proof -
  have b: "sq_Iter q = map (\<lambda>i. (Some i, iseq E i)) xs" "sorted (map (iseq E) xs)"
    using assms(1) by (auto simp: bucket_rep_def strictly_sorted)
  show ?thesis using prio_find_None [OF b(2), of seq] assms(2)
    by (cases "prio_find seq (map (\<lambda>i. (Some i, iseq E i)) xs)") (auto simp: sq_FindOrInsert_def sq_findInternal_ok b(1))
qed

lemma bucket_front:
  assumes "bucket_rep E addr q (x # xs)"
  shows "item_seq E (fst (sq_peekInternal q)) = Inr (x, iseq E x)" "bucket_rep E addr (snd (sq_popInternal q)) xs"
proof -
  have b: "sq_wf q" "sq_Iter q = (Some x, iseq E x) # map (\<lambda>i. (Some i, iseq E i)) xs" using assms by (auto simp: bucket_rep_def)
  have "sq_size q \<noteq> 0" using bucket_size [OF assms] by simp
  then show "item_seq E (fst (sq_peekInternal q)) = Inr (x, iseq E x)"
    using sq_at_head [OF b(2)] assms by (auto simp: sq_peekInternal_def item_seq_def bucket_rep_def iseq_def)
  obtain q' where "sq_popInternal q = (Some x, q')" "sq_wf q'" "sq_Iter q' = map (\<lambda>i. (Some i, iseq E i)) xs"
    using sq_popInternal_ok [OF b] by auto
  then show "bucket_rep E addr (snd (sq_popInternal q)) xs" using assms by (simp add: bucket_rep_def)
qed

end
