(* ===== verification/Tx_Pool_Laws.thy ===== *)
theory Tx_Pool_Laws
  imports Tx_Pool_Rep
begin

text \<open>Laws of the transaction pool: that every operation returns, what it does to the contents, and what a pop delivers.\<close>

section \<open>Push\<close>

text \<open>The account and the sequence of a transaction are taken by a transaction of the pool.\<close>

definition seq_taken :: "'tx pool_env \<Rightarrow> 'tx \<Rightarrow> (hash256 \<rightharpoonup> 'tx pool_item) \<Rightarrow> bool" where
  "seq_taken E tx C \<longleftrightarrow> pn_account E tx \<noteq> None \<and> (\<exists>i \<in> ran C. pn_account E (pi_Transaction i) = pn_account E tx)"

lemma holds_push:
  assumes "holds H us B C" "pi_TxHash item \<notin> dom C" "pi_TxHash item = H (pi_Transaction item)"
    and new: "\<And>h i. h = pi_TxHash i \<Longrightarrow>
      (h, i) \<in> set us' \<or> (\<exists>addr. i \<in> set (B' addr)) \<longleftrightarrow> i = item \<or> (h, i) \<in> set us \<or> (\<exists>addr. i \<in> set (B addr))"
  shows "holds H us' B' (C(pi_TxHash item \<mapsto> item))"
proof -
  have C: "C h = Some i \<longleftrightarrow> h = pi_TxHash i \<and> ((h, i) \<in> set us \<or> (\<exists>addr. i \<in> set (B addr)))" "C h = Some i \<Longrightarrow> h = H (pi_Transaction i)" for h i
    using assms(1) unfolding holds_def by blast+
  have n: "(C(pi_TxHash item \<mapsto> item)) h = Some i \<longleftrightarrow> h = pi_TxHash i \<and> (i = item \<or> C h = Some i)" for h i
    using assms(2) C(1) [of h i] by (cases "h = pi_TxHash item") auto
  have "(C(pi_TxHash item \<mapsto> item)) h = Some i \<longleftrightarrow> h = pi_TxHash i \<and> ((h, i) \<in> set us' \<or> (\<exists>addr. i \<in> set (B' addr)))" for h i
    unfolding n using new [of h i] C(1) [of h i] by blast
  moreover have "h = H (pi_Transaction i)" if "(C(pi_TxHash item \<mapsto> item)) h = Some i" for h i
    using that assms(3) C(2) [of h i] by (auto split: if_splits)
  ultimately show ?thesis unfolding holds_def by blast
qed

lemma holdsD:
  assumes "holds H us B C"
  shows "C h = Some i \<Longrightarrow> h = pi_TxHash i" "C h = Some i \<Longrightarrow> h = H (pi_Transaction i)"
    "C h = Some i \<Longrightarrow> (h, i) \<in> set us \<or> (\<exists>addr. i \<in> set (B addr))"
    "(pi_TxHash i, i) \<in> set us \<Longrightarrow> C (pi_TxHash i) = Some i" "i \<in> set (B addr) \<Longrightarrow> C (pi_TxHash i) = Some i"
  using assms unfolding holds_def by blast+

lemma pool_repD:
  assumes "pool_rep E H tp ts ns us B C"
  shows "holds H us B C" "(h, i) \<in> set us \<Longrightarrow> h = pi_TxHash i" "(h, i) \<in> set us \<Longrightarrow> pn_account E (pi_Transaction i) = None"
    "i \<in> set (B addr) \<Longrightarrow> pn_account E (pi_Transaction i) = Some (addr, iseq E i)" "buckets_rep E (bucketMap tp) B"
    "queue_rep (turnQ tp) ts" "queue_rep (numberQ tp) ns" "keyed_rep (utxoQ tp) us"
proof -
  note r = assms [unfolded pool_rep_def]
  show "holds H us B C" "(h, i) \<in> set us \<Longrightarrow> h = pi_TxHash i" "(h, i) \<in> set us \<Longrightarrow> pn_account E (pi_Transaction i) = None"
    "buckets_rep E (bucketMap tp) B" "queue_rep (turnQ tp) ts" "queue_rep (numberQ tp) ns" "keyed_rep (utxoQ tp) us"
    using r by blast+
  show "pn_account E (pi_Transaction i) = Some (addr, iseq E i)" if "i \<in> set (B addr)"
  proof (cases "bucketMap tp addr")
    case None
    then show ?thesis using that \<open>buckets_rep E (bucketMap tp) B\<close> by (auto simp: buckets_rep_def)
  next
    case (Some q)
    then have "bucket_rep E addr q (B addr)" using \<open>buckets_rep E (bucketMap tp) B\<close> by (auto simp: buckets_rep_def)
    then show ?thesis using that by (auto simp: bucket_rep_def iseq_def)
  qed
qed

lemma us_in_pool: "pool_rep E H tp ts ns us B C \<Longrightarrow> (h, i) \<in> set us \<Longrightarrow> C h = Some i"
  using pool_repD(1,2) holdsD(4) by metis

lemma seq_taken_iff:
  assumes "pool_rep E H tp ts ns us B C" "pn_account E tx = Some (addr, seq)"
  shows "seq_taken E tx C \<longleftrightarrow> seq \<in> iseq E ` set (B addr)"
proof
  note d = pool_repD [OF assms(1)] note hd = holdsD [OF d(1)]
  {
    assume "seq_taken E tx C"
    then obtain h i where i: "C h = Some i" "pn_account E (pi_Transaction i) = Some (addr, seq)"
      using assms(2) by (auto simp: seq_taken_def ran_def)
    then obtain a where a: "i \<in> set (B a)" using hd(3) [OF i(1)] d(3) [of h i] by auto
    then show "seq \<in> iseq E ` set (B addr)" using d(4) [OF a] i(2) by auto
  next
    assume "seq \<in> iseq E ` set (B addr)"
    then obtain i where i: "i \<in> set (B addr)" "iseq E i = seq" by auto
    then show "seq_taken E tx C" using d(4) [OF i(1)] hd(5) [OF i(1)] assms(2) unfolding seq_taken_def ran_def by fastforce
  }
qed

lemma buckets_of:
  assumes "buckets_rep E bm B"
  shows "bucket_rep E addr (case bm addr of None \<Rightarrow> NewSortedQueue | Some q \<Rightarrow> q) (B addr)"
  using assms by (auto simp: buckets_rep_def bucket_new split: option.splits)

lemma buckets_put:
  assumes "buckets_rep E bm B" "bucket_rep E addr q ys"
  shows "buckets_rep E (bm(addr := if sq_size q = 0 then None else Some q)) (B(addr := ys))"
  using assms bucket_size [OF assms(2)] by (auto simp: buckets_rep_def)

lemma pool_Push_step:
  fixes tx :: 'tx
  assumes "env_ok E H" "pool_rep E H tp ts ns us B C"
    and "item = \<lparr>pi_ChainID = cid, pi_TxType = t, pi_TxHash = H tx, pi_Transaction = tx, pi_Signatures = sigs, pi_Signers = signers\<rparr>"
    and "pool_Push E cid t (H tx) tx sigs signers tp = (r, tp')"
  shows "pool_ok E H tp' (if r = Inr () then C(H tx \<mapsto> item) else C)
    \<and> r = (if H tx \<in> dom C then Inl ErrExistTransaction else if seq_taken E tx C then Inl ErrExistTransactionSeq else Inr ())"
proof (cases "H tx \<in> dom C")
  case True
  then show ?thesis using assms(2,4) IsExist_rep [OF assms(2)] by (auto simp: pool_Push_def pool_ok_def)
next
  case new: False
  note rep = assms(2) [unfolded pool_rep_def]
  have pages: "fresh_page (pn_turn_page E q)" "fresh_page (pn_number_page E q')" for q q' using assms(1) by (simp_all add: env_ok_def)
  have item: "pi_TxHash item = H tx" "pi_Transaction item = tx" by (simp_all add: assms(3))
  have ex: "\<not> IsExist (H tx) tp" using new IsExist_rep [OF assms(2)] by simp
  show ?thesis
  proof (cases "pn_account E tx")
    case None
    have "map_of us (H tx) = None" using new us_in_pool [OF assms(2) map_of_SomeD] by (cases "map_of us (H tx)") auto
    then obtain q where q: "LPush (H tx) (Some item) (utxoQ tp) = Inr q" "keyed_rep q (us @ [(H tx, item)])"
      using keyed_push [OF pool_repD(8) [OF assms(2)]] by blast
    have tp': "r = Inr ()" "tp' = (let tp = push_turn E True (tp\<lparr>utxoQ := q\<rparr>) in tp\<lparr>txhashMap := (txhashMap tp)(H tx \<mapsto> True)\<rparr>)"
      using assms(4) ex None q(1) by (simp_all add: pool_Push_def assms(3) Let_def)
    have "holds H (us @ [(H tx, item)]) B (C(pi_TxHash item \<mapsto> item))"
      by (rule holds_push [OF pool_repD(1) [OF assms(2)]]) (use new item in auto)
    then have "pool_rep E H tp' (ts @ [True]) ns (us @ [(H tx, item)]) B (C(H tx \<mapsto> item))"
      using rep q(2) None item pages
      unfolding pool_rep_def tp'(2) by (simp add: push_turn_def Push_rep Let_def fun_eq_iff)
    moreover have "\<not> seq_taken E tx C" using None by (simp add: seq_taken_def)
    ultimately show ?thesis using tp'(1) new by (auto simp: pool_ok_def)
  next
    case (Some a)
    obtain addr seq where a: "a = (addr, seq)" by (rule prod.exhaust)
    have b: "bucket_rep E addr (case bucketMap tp addr of None \<Rightarrow> NewSortedQueue | Some q \<Rightarrow> q) (B addr)" (is "bucket_rep E addr ?q _")
      using rep by (simp add: buckets_of)
    show ?thesis
    proof (cases "seq \<in> iseq E ` set (B addr)")
      case True
      then obtain i where "sq_FindOrInsert (Some item) seq ?q = (Some i, ?q)" using bucket_find [OF b] by blast
      moreover have "bucketMap tp addr \<noteq> None" using True rep by (auto simp: buckets_rep_def)
      ultimately have "r = Inl ErrExistTransactionSeq" "tp' = tp" using assms(4) ex Some a by (auto simp: pool_Push_def assms(3) fun_upd_idem)
      then show ?thesis using assms(2) new True seq_taken_iff [OF assms(2) Some [unfolded a]] by (auto simp: pool_ok_def)
    next
      case False
      have acc: "pn_account E (pi_Transaction item) = Some (addr, seq)" using Some a item by simp
      note ins = bucket_insert [OF b acc False]
      obtain ys where ys: "bucket_rep E addr (sq_insert (Some item) seq ?q) ys" "set ys = insert item (set (B addr))" "length ys = Suc (length (B addr))"
        using ins(2) by blast
      let ?tp = "push_turn E False (push_number E addr (tp\<lparr>bucketMap := (bucketMap tp)(addr \<mapsto> sq_insert (Some item) seq ?q)\<rparr>))"
      have tp': "r = Inr ()" "tp' = ?tp\<lparr>txhashMap := (txhashMap ?tp)(H tx \<mapsto> True)\<rparr>"
        using assms(4) ex Some a ins(1) by (simp_all add: pool_Push_def assms(3) Let_def)
      have bs: "buckets_rep E ((bucketMap tp)(addr \<mapsto> sq_insert (Some item) seq ?q)) (B(addr := ys))"
        using rep ys by (auto simp: buckets_rep_def)
      have "(\<exists>a. i \<in> set ((B(addr := ys)) a)) \<longleftrightarrow> i = item \<or> (\<exists>a. i \<in> set (B a))" for i
        using ys(2) by (auto split: if_splits)
      then have "holds H us (B(addr := ys)) (C(pi_TxHash item \<mapsto> item))"
        by (intro holds_push [OF pool_repD(1) [OF assms(2)]]) (use new item in auto)
      then have "pool_rep E H tp' (ts @ [False]) (ns @ [addr]) us (B(addr := ys)) (C(H tx \<mapsto> item))"
        using rep bs item pages ys
        unfolding pool_rep_def tp'(2) by (simp add: push_turn_def push_number_def Push_rep fun_eq_iff)
      then show ?thesis using tp'(1) new False seq_taken_iff [OF assms(2) Some [unfolded a]] by (auto simp: pool_ok_def)
    qed
  qed
qed

section \<open>Single moves\<close>

text \<open>
  A pool in the middle of an operation: \<open>d\<close> says by how many entries an address is queued too often or too rarely, and
  \<open>e\<close> is the number of items of the linked queue that are left without a turn.
\<close>

definition pool_at :: "'tx pool_env \<Rightarrow> ('tx \<Rightarrow> hash256) \<Rightarrow> 'tx tx_pool \<Rightarrow> bool list \<Rightarrow> address list \<Rightarrow> (hash256 \<times> 'tx pool_item) list
    \<Rightarrow> (address \<Rightarrow> 'tx pool_item list) \<Rightarrow> (hash256 \<rightharpoonup> 'tx pool_item) \<Rightarrow> (address \<Rightarrow> int) \<Rightarrow> nat \<Rightarrow> bool" where
  "pool_at E H tp ts ns us B C d e \<longleftrightarrow> queue_rep (turnQ tp) ts \<and> queue_rep (numberQ tp) ns \<and> keyed_rep (utxoQ tp) us
     \<and> buckets_rep E (bucketMap tp) B \<and> (\<forall>(h, i) \<in> set us. h = pi_TxHash i \<and> pn_account E (pi_Transaction i) = None)
     \<and> holds H us B C \<and> txhashMap tp = map_option (\<lambda>_. True) \<circ> C
     \<and> (\<forall>addr. int (count_list ns addr) = int (length (B addr)) + int (out (numberOutMap tp) addr) + d addr)
     \<and> count_list ts True + e \<le> length us + out (turnOutMap tp) True"

abbreviation level :: "address \<Rightarrow> int" where "level \<equiv> \<lambda>_. 0"

lemma pool_at_rep: "pool_at E H tp ts ns us B C level 0 \<longleftrightarrow> pool_rep E H tp ts ns us B C"
proof -
  have "int a = int b + int c + 0 \<longleftrightarrow> a = b + c" for a b c by linarith
  then show ?thesis by (simp add: pool_at_def pool_rep_def)
qed

lemma holds_del:
  assumes "holds H us B C" "C (pi_TxHash item) = Some item"
    and new: "\<And>h i. h = pi_TxHash i \<Longrightarrow>
      (h, i) \<in> set us' \<or> (\<exists>addr. i \<in> set (B' addr)) \<longleftrightarrow> i \<noteq> item \<and> ((h, i) \<in> set us \<or> (\<exists>addr. i \<in> set (B addr)))"
  shows "holds H us' B' (C(pi_TxHash item := None))"
proof -
  have C: "C h = Some i \<longleftrightarrow> h = pi_TxHash i \<and> ((h, i) \<in> set us \<or> (\<exists>addr. i \<in> set (B addr)))" "C h = Some i \<Longrightarrow> h = H (pi_Transaction i)" for h i
    using assms(1) unfolding holds_def by blast+
  have n: "(C(pi_TxHash item := None)) h = Some i \<longleftrightarrow> i \<noteq> item \<and> C h = Some i" for h i
    using assms(2) C(1) [of h i] by (cases "h = pi_TxHash item") auto
  have "(C(pi_TxHash item := None)) h = Some i \<longleftrightarrow> h = pi_TxHash i \<and> ((h, i) \<in> set us' \<or> (\<exists>addr. i \<in> set (B' addr)))" for h i
    unfolding n using new [of h i] C(1) [of h i] by blast
  moreover have "h = H (pi_Transaction i)" if "(C(pi_TxHash item := None)) h = Some i" for h i
    using that C(2) [of h i] unfolding n by blast
  ultimately show ?thesis unfolding holds_def by blast
qed

lemma at_items:
  assumes "pool_at E H tp ts ns us B C d e" "i \<in> set (B addr)"
  shows "pn_account E (pi_Transaction i) = Some (addr, iseq E i)" "C (pi_TxHash i) = Some i"
proof -
  have h: "holds H us B C" and b: "buckets_rep E (bucketMap tp) B" using assms(1) by (simp_all add: pool_at_def)
  show "C (pi_TxHash i) = Some i" by (rule holdsD(5) [OF h assms(2)])
  have "B addr \<noteq> []" using assms(2) by auto
  then obtain q where "bucketMap tp addr = Some q" using b by (cases "bucketMap tp addr") (auto simp: buckets_rep_def)
  then have "bucket_rep E addr q (B addr)" using b by (simp add: buckets_rep_def)
  then show "pn_account E (pi_Transaction i) = Some (addr, iseq E i)" using assms(2) by (auto simp: bucket_rep_def iseq_def)
qed

lemma at_count: "pool_at E H tp ts ns us B C d e \<Longrightarrow> int (count_list ns a) = int (length (B a)) + int (out (numberOutMap tp) a) + d a"
  by (simp add: pool_at_def)

lemma at_account:
  assumes "pool_at E H tp ts ns us B C d e" "C h = Some i" "pn_account E (pi_Transaction i) = Some (addr, s)"
  shows "i \<in> set (B addr) \<and> iseq E i = s"
proof -
  have "holds H us B C" "(h, i) \<notin> set us" using assms(1,3) by (auto simp: pool_at_def)
  then obtain a where a: "i \<in> set (B a)" using holdsD(3) [of H us B C h i] assms(2) by auto
  then show ?thesis using at_items(1) [OF assms(1) a] assms(3) by auto
qed

lemma at_take:
  assumes "pool_at E H (put_bucket addr q tp) ts ns us B C d e" "bucket_rep E addr q (x # xs)" "B addr = x # xs"
  shows "pool_at E H (put_bucket addr (snd (sq_popInternal q)) (forget_hash x tp)) ts ns us (B(addr := xs)) (C(pi_TxHash x := None)) (d(addr := d addr + 1)) e"
proof -
  let ?q = "snd (sq_popInternal q)" and ?tp = "put_bucket addr q tp"
  note r = assms(1) [unfolded pool_at_def]
  have q: "bucket_rep E addr ?q xs" by (rule bucket_front(2) [OF assms(2)])
  have i: "i \<in> set (B a) \<Longrightarrow> pn_account E (pi_Transaction i) = Some (a, iseq E i)" for i a by (rule at_items(1) [OF assms(1)])
  have x: "pn_account E (pi_Transaction x) = Some (addr, iseq E x)" "C (pi_TxHash x) = Some x"
    using at_items [OF assms(1), of x addr] assms(3) by simp_all
  have "x \<notin> set xs" using assms(2) by (auto simp: bucket_rep_def)
  then have "i \<in> set ((B(addr := xs)) a) \<longleftrightarrow> i \<noteq> x \<and> i \<in> set (B a)" for i a
    using i [of i a] x(1) assms(3) by (cases "a = addr") auto
  then have mem: "(\<exists>a. i \<in> set ((B(addr := xs)) a)) \<longleftrightarrow> i \<noteq> x \<and> (\<exists>a. i \<in> set (B a))" for i by blast
  have "(h, x) \<notin> set us" for h using r x(1) by auto
  then have h: "holds H us (B(addr := xs)) (C(pi_TxHash x := None))"
    using holds_del [of H us B C x us "B(addr := xs)"] r x(2) mem by auto
  have "buckets_rep E ((bucketMap ?tp)(addr := if sq_size ?q = 0 then None else Some ?q)) (B(addr := xs))"
    by (rule buckets_put [OF _ q]) (use r in simp)
  then have b: "buckets_rep E (bucketMap (put_bucket addr ?q (forget_hash x tp))) (B(addr := xs))"
    by (simp add: put_bucket_def forget_hash_def)
  show ?thesis using r h b assms(3) by (auto simp: pool_at_def put_bucket_def forget_hash_def fun_eq_iff)
qed

lemma at_drop_number:
  assumes "pool_at E H tp ts ns us B C d e"
  shows "\<exists>ns'. pool_at E H (drop_number addr tp) ts ns' us B C (d(addr := d addr - 1)) e"
proof (cases "Peek (numberQ tp) = Some addr")
  case True
  then obtain ns' where ns: "ns = addr # ns'" using Peek_rep [of "numberQ tp" ns] assms by (auto simp: pool_at_def split: list.splits)
  then have "queue_rep (snd (snd (Pop (numberQ tp)))) ns'" using Pop_rep [of "numberQ tp" addr ns'] assms by (auto simp: pool_at_def)
  moreover have "int (count_list ns' a) = int (length (B a)) + int (out (numberOutMap tp) a) + (d(addr := d addr - 1)) a" for a
    using at_count [OF assms, of a] ns by (auto split: if_splits)
  ultimately have "pool_at E H (drop_number addr tp) ts ns' us B C (d(addr := d addr - 1)) e"
    using assms True by (simp add: pool_at_def drop_number_def)
  then show ?thesis ..
next
  case False
  then have "pool_at E H (drop_number addr tp) ts ns us B C (d(addr := d addr - 1)) e"
    using assms by (auto simp: pool_at_def drop_number_def)
  then show ?thesis ..
qed

lemma at_drop_turn:
  assumes "pool_at E H tp ts ns us B C d e"
  shows "\<exists>ts'. pool_at E H (drop_turn b tp) ts' ns us B C d (if b then e + 1 else e)"
proof (cases "Peek (turnQ tp) = Some b")
  case True
  then obtain ts' where ts: "ts = b # ts'" using Peek_rep [of "turnQ tp" ts] assms by (auto simp: pool_at_def split: list.splits)
  then have "queue_rep (snd (snd (Pop (turnQ tp)))) ts'" using Pop_rep [of "turnQ tp" b ts'] assms by (auto simp: pool_at_def)
  then have "pool_at E H (drop_turn b tp) ts' ns us B C d (if b then e + 1 else e)"
    using assms True ts by (auto simp: pool_at_def drop_turn_def)
  then show ?thesis ..
next
  case False
  then have "pool_at E H (drop_turn b tp) ts ns us B C d (if b then e + 1 else e)"
    using assms by (auto simp: pool_at_def drop_turn_def)
  then show ?thesis ..
qed

lemma at_push:
  assumes "pool_at E H tp ts ns us B C d e" "env_ok E H"
  shows "pool_at E H (push_number E addr tp) ts (ns @ [addr]) us B C (d(addr := d addr + 1)) e"
    "pool_at E H (push_turn E False tp) (ts @ [False]) ns us B C d e"
  using assms by (auto simp: pool_at_def push_number_def push_turn_def Push_rep env_ok_def)

section \<open>Loops\<close>

lemma next_turn_returns:
  assumes "pool_at E H tp ts ns us B C d 0"
  shows "\<exists>r tp' ts'. next_turn tp = Some (Inr r, tp') \<and> pool_at E H tp' ts' ns us B C d (if r = Some True then 1 else 0)
     \<and> (\<forall>b. r = Some b \<longrightarrow> out (turnOutMap tp') b = 0)"
  using assms
proof (induction ts arbitrary: tp)
  case Nil
  then have "queue_Size (turnQ tp) = 0" using Size_rep [of "turnQ tp" "[]"] by (simp add: pool_at_def)
  then show ?case using Nil by (subst next_turn.simps) auto
next
  case (Cons t ts)
  have q: "queue_rep (turnQ tp) (t # ts)" using Cons.prems by (simp add: pool_at_def)
  obtain put q' where q': "Pop (turnQ tp) = (Some t, put, q')" "queue_rep q' ts" using Pop_rep [OF q] by blast
  have ne: "queue_Size (turnQ tp) \<noteq> 0" using Size_rep [OF q] by simp
  show ?case
  proof (cases "0 < out (turnOutMap tp) t")
    case True
    let ?tp = "tp\<lparr>turnQ := q', turnOutMap := dec_out t (turnOutMap tp)\<rparr>"
    have "pool_at E H ?tp ts ns us B C d 0" using Cons.prems q'(2) True by (auto simp: pool_at_def split: if_splits)
    from Cons.IH [OF this] show ?thesis using ne q'(1) True by (subst next_turn.simps) simp
  next
    case False
    have "pool_at E H (tp\<lparr>turnQ := q'\<rparr>) ts ns us B C d (if Some t = Some True then 1 else 0)"
      using Cons.prems q'(2) False by (auto simp: pool_at_def split: if_splits)
    then show ?thesis using ne q'(1) False by (subst next_turn.simps) auto
  qed
qed

lemma next_number_returns:
  assumes "pool_at E H tp ts ns us B C level e"
  shows "\<exists>r remain' tp' ns'. next_number remain tp = Some (Inr r, remain', tp') \<and>
     (case r of None \<Rightarrow> pool_at E H tp' ts ns' us B C level e
      | Some a \<Rightarrow> pool_at E H tp' ts ns' us B C (level(a := -1)) e \<and> remain' < remain \<and> B a \<noteq> [])"
  using assms
proof (induction ns arbitrary: tp remain)
  case Nil
  then have "queue_Size (numberQ tp) = 0" using Size_rep [of "numberQ tp" "[]"] by (simp add: pool_at_def)
  then have "next_number remain tp = Some (Inr None, remain, tp)" by (subst next_number.simps) simp
  then show ?case using Nil by (intro exI [of _ None] exI [of _ remain] exI [of _ tp] exI [of _ "[]"]) simp
next
  case (Cons a ns)
  have q: "queue_rep (numberQ tp) (a # ns)" using Cons.prems by (simp add: pool_at_def)
  obtain put q' where q': "Pop (numberQ tp) = (Some a, put, q')" "queue_rep q' ns" using Pop_rep [OF q] by blast
  have ne: "queue_Size (numberQ tp) \<noteq> 0" using Size_rep [OF q] by simp
  have c: "int (count_list (a # ns) b) = int (length (B b)) + int (out (numberOutMap tp) b)" for b
    using at_count [OF Cons.prems, of b] by simp
  show ?case
  proof (cases "0 < out (numberOutMap tp) a")
    case True
    let ?tp = "tp\<lparr>numberQ := q', numberOutMap := dec_out a (numberOutMap tp)\<rparr>"
    have "int (count_list ns b) = int (length (B b)) + int (out (dec_out a (numberOutMap tp)) b)" for b
      using c [of b] True by (auto split: if_splits)
    then have "pool_at E H ?tp ts ns us B C level e" using Cons.prems q'(2) by (simp add: pool_at_def)
    from Cons.IH [OF this, of "remain - 1"] obtain r remain' tp' ns' where i: "next_number (remain - 1) ?tp = Some (Inr r, remain', tp')"
      "case r of None \<Rightarrow> pool_at E H tp' ts ns' us B C level e
        | Some b \<Rightarrow> pool_at E H tp' ts ns' us B C (level(b := -1)) e \<and> remain' < remain - 1 \<and> B b \<noteq> []" by blast
    have "next_number remain tp = Some (Inr r, remain', tp')" using ne q'(1) True i(1) by (subst next_number.simps) simp
    then show ?thesis using i(2) by (intro exI [of _ r] exI [of _ remain'] exI [of _ tp'] exI [of _ ns']) (auto split: option.splits)
  next
    case False
    let ?tp = "tp\<lparr>numberQ := q'\<rparr>"
    have "int (count_list ns b) = int (length (B b)) + int (out (numberOutMap tp) b) + (level(a := -1)) b" for b
      using c [of b] by (auto split: if_splits)
    then have "pool_at E H ?tp ts ns us B C (level(a := -1)) e" using Cons.prems q'(2) by (simp add: pool_at_def)
    moreover have "B a \<noteq> []" using c [of a] False by auto
    moreover have "next_number remain tp = Some (Inr (Some a), remain - 1, ?tp)" using ne q'(1) False by (subst next_number.simps) simp
    ultimately show ?thesis by (intro exI [of _ "Some a"] exI [of _ "remain - 1"] exI [of _ ?tp] exI [of _ ns]) simp
  qed
qed

text \<open>The transactions of an account with a sequence below \<open>seq\<close> are gone.\<close>

definition without_past :: "'tx pool_env \<Rightarrow> address \<Rightarrow> u64 \<Rightarrow> (hash256 \<rightharpoonup> 'tx pool_item) \<Rightarrow> hash256 \<rightharpoonup> 'tx pool_item" where
  "without_past E addr seq C h =
     (case C h of None \<Rightarrow> None | Some i \<Rightarrow> if (\<exists>s < seq. pn_account E (pi_Transaction i) = Some (addr, s)) then None else Some i)"

lemma put_drop:
  "put_bucket addr q (drop_number a tp) = drop_number a (put_bucket addr q tp)" "put_bucket addr q (drop_turn b tp) = drop_turn b (put_bucket addr q tp)"
  "put_bucket addr q (forget_hash i tp) = forget_hash i (put_bucket addr q tp)"
  by (simp_all add: put_bucket_def drop_number_def drop_turn_def forget_hash_def)

lemma remove_loop_returns:
  assumes "bucket_rep E addr q xs" "B addr = xs" "pool_at E H (put_bucket addr q tp) ts ns us B C level 0"
  shows "\<exists>q' tp' ts' ns' B'. remove_loop E addr seq q tp = Some (Inr (), q', tp') \<and>
     pool_at E H (put_bucket addr q' tp') ts' ns' us B' (without_past E addr seq C) level 0"
  using assms
proof (induction xs arbitrary: q tp ts ns B C)
  case Nil
  have "without_past E addr seq C = C"
  proof
    fix h show "without_past E addr seq C h = C h"
    proof (cases "C h")
      case (Some i)
      have "pn_account E (pi_Transaction i) \<noteq> Some (addr, s)" for s
        using at_account [OF Nil.prems(3) Some, of addr s] Nil.prems(2) by auto
      then show ?thesis using Some by (simp add: without_past_def)
    qed (simp add: without_past_def)
  qed
  moreover have "sq_size q = 0" using bucket_size [OF Nil.prems(1)] by simp
  ultimately show ?case using Nil.prems(3) by (subst remove_loop.simps) auto
next
  case (Cons x xs)
  have ne: "sq_size q \<noteq> 0" using bucket_size [OF Cons.prems(1)] by simp
  note front = bucket_front [OF Cons.prems(1)]
  note item = at_items [OF Cons.prems(3)]
  show ?case
  proof (cases "seq \<le> iseq E x")
    case True
    have "without_past E addr seq C = C"
    proof
      fix h show "without_past E addr seq C h = C h"
      proof (cases "C h")
        case (Some i)
        have "\<not> s < seq" if s: "pn_account E (pi_Transaction i) = Some (addr, s)" for s
        proof -
          have "i \<in> set (x # xs)" "iseq E i = s" using at_account [OF Cons.prems(3) Some s] Cons.prems(2) by auto
          then have "iseq E x \<le> s" using Cons.prems(1) by (auto simp: bucket_rep_def)
          then show ?thesis using True by simp
        qed
        then show ?thesis using Some by (auto simp: without_past_def)
      qed (simp add: without_past_def)
    qed
    then show ?thesis using Cons.prems(3) ne front(1) True by (subst remove_loop.simps) auto
  next
    case False
    let ?q = "snd (sq_popInternal q)" and ?tp = "drop_number addr (drop_turn False (forget_hash x tp))"
    have "pool_at E H (put_bucket addr ?q (forget_hash x tp)) ts ns us (B(addr := xs)) (C(pi_TxHash x := None)) (level(addr := 1)) 0"
      using at_take [OF Cons.prems(3,1,2)] by simp
    from at_drop_turn [OF this, of False] obtain ts1 where
      "pool_at E H (drop_turn False (put_bucket addr ?q (forget_hash x tp))) ts1 ns us (B(addr := xs)) (C(pi_TxHash x := None)) (level(addr := 1)) 0" by auto
    from at_drop_number [OF this, of addr] obtain ns1 where
      "pool_at E H (put_bucket addr ?q ?tp) ts1 ns1 us (B(addr := xs)) (C(pi_TxHash x := None)) level 0"
      by (auto simp: put_drop fun_upd_idem)
    from Cons.IH [OF front(2) _ this] obtain q' tp' ts' ns' B' where
      i: "remove_loop E addr seq ?q ?tp = Some (Inr (), q', tp')"
      "pool_at E H (put_bucket addr q' tp') ts' ns' us B' (without_past E addr seq (C(pi_TxHash x := None))) level 0"
      unfolding fun_upd_same by blast
    have x: "pn_account E (pi_Transaction x) = Some (addr, iseq E x)" "C (pi_TxHash x) = Some x" using item [of x addr] Cons.prems(2) by auto
    have "without_past E addr seq (C(pi_TxHash x := None)) = without_past E addr seq C"
      using x False by (auto simp: without_past_def fun_eq_iff)
    moreover have "remove_loop E addr seq q tp = Some (Inr (), q', tp')"
      using ne front(1) False i(1) by (subst remove_loop.simps) simp
    ultimately show ?thesis using i(2) by auto
  qed
qed

section \<open>Remove and pop\<close>

lemma drop_turn_commutes:
  "drop_turn b (tp\<lparr>utxoQ := q\<rparr>) = (drop_turn b tp)\<lparr>utxoQ := q\<rparr>" "txhashMap (drop_turn b tp) = txhashMap tp"
  by (simp_all add: drop_turn_def)

text \<open>A transaction without an account that is not in the pool: the linked queue may still know its key.\<close>

lemma remove_absent:
  assumes "env_ok E H" "pool_rep E H tp ts ns us B C" "pn_account E t = None" "map_of us (H t) = None"
  shows "\<exists>tp'. pool_Remove E (H t) t tp = Some (Inr (), tp') \<and> pool_ok E H tp' (C(H t := None))"
proof -
  have no: "C (H t) = None"
  proof (cases "C (H t)")
    case (Some i)
    note h = pool_repD(1) [OF assms(2)]
    have "pi_Transaction i = t" using holdsD(2) [OF h Some] assms(1) by (auto simp: env_ok_def inj_def)
    then have "(H t, i) \<in> set us" using holdsD(3) [OF h Some] pool_repD(4) [OF assms(2), of i] assms(3) by auto
    then show ?thesis using assms(4) by (metis map_of_eq_None_iff fst_conv imageI)
  qed simp
  obtain v q where q: "LRemove (H t) (utxoQ tp) = (v, q)" by (rule prod.exhaust)
  have k: "keyed_rep q us" using LRemove_stale(1) [OF pool_repD(8) [OF assms(2)] assms(4)] q by simp
  have p: "pool_at E H (tp\<lparr>utxoQ := q\<rparr>) ts ns us B C level 0" using assms(2) [folded pool_at_rep] k by (simp add: pool_at_def)
  have C: "C(H t := None) = C" using no by (simp add: fun_upd_idem)
  show ?thesis
  proof (cases v)
    case None
    then show ?thesis using p assms(3) q unfolding pool_ok_def pool_at_rep C by (auto simp: pool_Remove_def)
  next
    case (Some i)
    let ?tp = "(drop_turn True (tp\<lparr>utxoQ := q\<rparr>))\<lparr>txhashMap := (txhashMap tp)(H t := None)\<rparr>"
    obtain ts' where "pool_at E H (drop_turn True (tp\<lparr>utxoQ := q\<rparr>)) ts' ns us B C level 1" using at_drop_turn [OF p, of True] by auto
    then have "pool_at E H ?tp ts' ns us B C level 0" using no by (auto simp: pool_at_def drop_turn_commutes fun_eq_iff)
    moreover have "pool_Remove E (H t) t tp = Some (Inr (), ?tp)" using assms(3) q Some by (simp add: pool_Remove_def Let_def drop_turn_commutes)
    ultimately show ?thesis unfolding pool_ok_def pool_at_rep C by auto
  qed
qed

lemma length_without_key:
  assumes "distinct (map fst us)" "(k, i) \<in> set us"
  shows "length us = Suc (length (filter (\<lambda>kv. fst kv \<noteq> k) us))"
  using assms
proof (induction us)
  case (Cons u us)
  show ?case
  proof (cases "fst u = k")
    case True
    then have "filter (\<lambda>kv. fst kv \<noteq> k) us = us" using Cons.prems(1) by (intro filter_True) (auto simp: image_iff)
    then show ?thesis using True by simp
  qed (use Cons in auto)
qed simp

lemma remove_utxo:
  assumes "pool_rep E H tp ts ns us B C" "pn_account E t = None" "map_of us (H t) = Some i"
  shows "\<exists>tp'. pool_Remove E (H t) t tp = Some (Inr (), tp') \<and> pool_ok E H tp' (C(H t := None))"
proof -
  note d = pool_repD [OF assms(1)]
  obtain q' where q': "LRemove (H t) (utxoQ tp) = (Some i, q')" "keyed_rep q' (filter (\<lambda>kv. fst kv \<noteq> H t) us)"
    using keyed_remove [OF d(8) assms(3)] by blast
  let ?us = "filter (\<lambda>kv. fst kv \<noteq> H t) us" and ?tp = "(drop_turn True tp)\<lparr>utxoQ := q', txhashMap := (txhashMap tp)(H t := None)\<rparr>"
  have i: "(H t, i) \<in> set us" using map_of_SomeD [OF assms(3)] .
  have h: "H t = pi_TxHash i" and ci: "C (H t) = Some i" and na: "pn_account E (pi_Transaction i) = None"
    using d(2) [OF i] us_in_pool [OF assms(1) i] d(3) [OF i] by simp_all
  have "(h, x) \<in> set ?us \<or> (\<exists>a. x \<in> set (B a)) \<longleftrightarrow> x \<noteq> i \<and> ((h, x) \<in> set us \<or> (\<exists>a. x \<in> set (B a)))" if "h = pi_TxHash x" for h x
    using that h ci na us_in_pool [OF assms(1), of h x] d(4) [of x] by auto
  then have "holds H ?us B (C(pi_TxHash i := None))"
    using holds_del [OF d(1), of i ?us B] ci h by simp
  moreover have "length us = Suc (length ?us)" by (rule length_without_key [OF keyed_rep_distinct [OF d(8)] i])
  moreover obtain ts' where "pool_at E H (drop_turn True tp) ts' ns us B C level 1"
    using at_drop_turn [OF assms(1) [folded pool_at_rep], of True] by auto
  ultimately have "pool_at E H ?tp ts' ns ?us B (C(H t := None)) level 0"
    using q'(2) h by (auto simp: pool_at_def drop_turn_commutes fun_eq_iff)
  moreover have "pool_Remove E (H t) t tp = Some (Inr (), ?tp)" using assms(2) q'(1) by (simp add: pool_Remove_def Let_def drop_turn_commutes)
  ultimately show ?thesis unfolding pool_ok_def pool_at_rep by auto
qed

lemma remove_account:
  assumes "pool_rep E H tp ts ns us B C" "pn_account E t = Some (addr, seq)"
  shows "\<exists>tp'. pool_Remove E (H t) t tp = Some (Inr (), tp') \<and> pool_ok E H tp' (without_past E addr seq C)"
proof (cases "bucketMap tp addr")
  case None
  then have e: "B addr = []" using pool_repD(5) [OF assms(1)] by (simp add: buckets_rep_def)
  have "without_past E addr seq C h = C h" for h
    using at_account [OF assms(1) [folded pool_at_rep], of h _ addr] e by (auto simp: without_past_def split: option.splits)
  then have "without_past E addr seq C = C" by (rule ext)
  then show ?thesis using None assms by (auto simp: pool_Remove_def pool_ok_def)
next
  case q: (Some q)
  then have b: "bucket_rep E addr q (B addr)" "B addr \<noteq> []" using pool_repD(5) [OF assms(1)] by (auto simp: buckets_rep_def)
  then have "put_bucket addr q tp = tp" using q bucket_size [OF b(1)] by (simp add: put_bucket_def fun_upd_idem)
  then have "pool_at E H (put_bucket addr q tp) ts ns us B C level 0" using assms(1) by (simp add: pool_at_rep)
  from remove_loop_returns [OF b(1) refl this, of seq] obtain q' tp' ts' ns' B' where
    "remove_loop E addr seq q tp = Some (Inr (), q', tp')" "pool_rep E H (put_bucket addr q' tp') ts' ns' us B' (without_past E addr seq C)"
    unfolding pool_at_rep by blast
  then show ?thesis using assms(2) q by (auto simp: pool_Remove_def pool_ok_def)
qed

lemma pool_Remove_step:
  assumes "env_ok E H" "pool_rep E H tp ts ns us B C"
  shows "\<exists>tp'. pool_Remove E (H t) t tp = Some (Inr (), tp') \<and>
     pool_ok E H tp' (case pn_account E t of None \<Rightarrow> C(H t := None) | Some (addr, seq) \<Rightarrow> without_past E addr seq C)"
proof (cases "pn_account E t")
  case None
  then show ?thesis using remove_absent [OF assms None] remove_utxo [OF assms(2) None] by (cases "map_of us (H t)") auto
next
  case (Some a)
  then show ?thesis using remove_account [OF assms(2)] by (cases a) simp
qed

text \<open>
  What a pop does to the contents: it may drop transactions whose sequence has passed, and it delivers a transaction
  without an account, or the one of an account with the next sequence.
\<close>

definition passed :: "'tx pool_env \<Rightarrow> (address \<Rightarrow> u64) \<Rightarrow> 'tx pool_item \<Rightarrow> bool" where
  "passed E Seq i \<longleftrightarrow> (\<exists>addr s. pn_account E (pi_Transaction i) = Some (addr, s) \<and> s < Seq addr + 1)"

definition due :: "'tx pool_env \<Rightarrow> (address \<Rightarrow> u64) \<Rightarrow> 'tx pool_item \<Rightarrow> bool" where
  "due E Seq i \<longleftrightarrow> (case pn_account E (pi_Transaction i) of None \<Rightarrow> True | Some (addr, s) \<Rightarrow> s = Seq addr + 1)"

definition pop_result :: "'tx pool_env \<Rightarrow> (address \<Rightarrow> u64) \<Rightarrow> (hash256 \<rightharpoonup> 'tx pool_item) \<Rightarrow> 'tx pool_item option \<Rightarrow> (hash256 \<rightharpoonup> 'tx pool_item) \<Rightarrow> bool" where
  "pop_result E Seq C r C' \<longleftrightarrow> (\<exists>S. (\<forall>h \<in> S. \<exists>i. C h = Some i \<and> passed E Seq i) \<and>
     (case r of None \<Rightarrow> C' = C |` (- S)
      | Some i \<Rightarrow> \<exists>h. h \<notin> S \<and> C h = Some i \<and> due E Seq i \<and> C' = (C |` (- S))(h := None)))"

lemma pop_result_none: "pop_result E Seq C None C"
  unfolding pop_result_def by (rule exI [of _ "{}"]) (simp add: restrict_map_def)

lemma pop_result_item: "C h = Some i \<Longrightarrow> due E Seq i \<Longrightarrow> pop_result E Seq C (Some i) (C(h := None))"
  unfolding pop_result_def by (rule exI [of _ "{}"]) (auto simp: restrict_map_def)

lemma pop_result_passed:
  assumes "pop_result E Seq (C(h := None)) r C'" "C h = Some x" "passed E Seq x"
  shows "pop_result E Seq C r C'"
proof -
  obtain S where S: "\<forall>k \<in> S. \<exists>i. (C(h := None)) k = Some i \<and> passed E Seq i"
    "case r of None \<Rightarrow> C' = (C(h := None)) |` (- S)
      | Some i \<Rightarrow> \<exists>k. k \<notin> S \<and> (C(h := None)) k = Some i \<and> due E Seq i \<and> C' = ((C(h := None)) |` (- S))(k := None)"
    using assms(1) unfolding pop_result_def by blast
  have eq: "(C(h := None)) |` (- S) = C |` (- insert h S)" by (auto simp: restrict_map_def fun_eq_iff)
  have "\<forall>k \<in> insert h S. \<exists>i. C k = Some i \<and> passed E Seq i" using S(1) assms(2,3) by (auto split: if_splits)
  moreover have "case r of None \<Rightarrow> C' = C |` (- insert h S)
      | Some i \<Rightarrow> \<exists>k. k \<notin> insert h S \<and> C k = Some i \<and> due E Seq i \<and> C' = (C |` (- insert h S))(k := None)"
    using S(2) unfolding eq by (auto split: option.splits if_splits)
  ultimately show ?thesis unfolding pop_result_def by blast
qed

lemma put_front:
  assumes "pool_at E H tp ts ns us B C d e" "B addr = x # xs"
  shows "\<exists>q. bucketMap tp addr = Some q \<and> bucket_rep E addr q (x # xs) \<and> item_seq E (fst (sq_peekInternal q)) = Inr (x, iseq E x) \<and>
    pool_at E H (take_item addr q x tp) ts ns us (B(addr := xs)) (C(pi_TxHash x := None)) (d(addr := d addr + 1)) e"
proof -
  have b: "buckets_rep E (bucketMap tp) B" using assms(1) by (simp add: pool_at_def)
  then obtain q where q: "bucketMap tp addr = Some q" using assms(2) by (cases "bucketMap tp addr") (auto simp: buckets_rep_def)
  then have r: "bucket_rep E addr q (x # xs)" using b assms(2) by (metis buckets_rep_def)
  then have "put_bucket addr q tp = tp" using q bucket_size [OF r] by (simp add: put_bucket_def fun_upd_idem)
  then show ?thesis using q r bucket_front(1) [OF r] at_take [of E H addr q tp] assms by (auto simp: take_item_def)
qed

lemma pop_account_returns:
  assumes "env_ok E H" "pool_at E H tp ts ns us B C level e"
  shows "\<exists>r tp' ts' ns' B' C'. pop_account E Seq remain ign tp = Some (Inr r, tp') \<and> pool_at E H tp' ts' ns' us B' C' level e \<and> pop_result E Seq C r C'"
  using assms(2)
proof (induction "nat remain" arbitrary: remain tp ts ns B C ign rule: less_induct)
  case less
  note step = pop_account.simps [of E Seq remain ign tp]
  obtain r remain' tp1 ns1 where n: "next_number remain tp = Some (Inr r, remain', tp1)"
    "case r of None \<Rightarrow> pool_at E H tp1 ts ns1 us B C level e
      | Some a \<Rightarrow> pool_at E H tp1 ts ns1 us B C (level(a := -1)) e \<and> remain' < remain \<and> B a \<noteq> []"
    using next_number_returns [OF less.prems, of remain] by blast
  show ?case
  proof (cases r)
    case None
    then show ?thesis using n step pop_result_none [of E Seq C] by fastforce
  next
    case (Some addr)
    then have at: "pool_at E H tp1 ts ns1 us B C (level(addr := -1)) e" and lt: "remain' < remain" and ne: "B addr \<noteq> []" using n(2) by auto
    have down: "nat remain' < nat remain" if "0 < remain'" using that lt by simp
    obtain x xs where xs: "B addr = x # xs" using ne by (cases "B addr") auto
    obtain q where q: "bucketMap tp1 addr = Some q" "item_seq E (fst (sq_peekInternal q)) = Inr (x, iseq E x)"
      "pool_at E H (take_item addr q x tp1) ts ns1 us (B(addr := xs)) (C(pi_TxHash x := None)) level e"
      using put_front [OF at xs] by (auto simp: fun_upd_idem)
    have x: "pn_account E (pi_Transaction x) = Some (addr, iseq E x)" "C (pi_TxHash x) = Some x"
      using at_items [OF at, of x addr] xs by auto
    have again: "pool_at E H (push_number E addr tp1) ts (ns1 @ [addr]) us B C level e"
      using at_push(1) [OF at assms(1), of addr] by (simp add: fun_upd_idem)
    have wait: "\<exists>r tp' ts' ns' B' C'. (if 0 < remain' then pop_account E Seq remain' ign' (push_number E addr tp1)
        else Some (Inr None, push_turn E False (push_number E addr tp1))) = Some (Inr r, tp') \<and> pool_at E H tp' ts' ns' us B' C' level e \<and> pop_result E Seq C r C'" for ign'
    proof (cases "0 < remain'")
      case True
      then show ?thesis using less.hyps [OF down [OF True] again, of ign'] by simp
    next
      case False
      then show ?thesis using at_push(2) [OF again assms(1)] pop_result_none [of E Seq C] by auto
    qed
    consider "addr \<in> ign" | "addr \<notin> ign" "iseq E x < Seq addr + 1" | "addr \<notin> ign" "Seq addr + 1 < iseq E x" | "addr \<notin> ign" "iseq E x = Seq addr + 1"
      by fastforce
    then show ?thesis
    proof cases
      case 1
      then show ?thesis using wait [of ign] n(1) Some by (subst step) (simp add: Let_def)
    next
      case 2
      have "passed E Seq x" using x(1) 2 by (auto simp: passed_def)
      then have p: "pop_result E Seq (C(pi_TxHash x := None)) r C' \<Longrightarrow> pop_result E Seq C r C'" for r C'
        using pop_result_passed [of E Seq C "pi_TxHash x" r C' x] x(2) by simp
      show ?thesis
      proof (cases "0 < remain'")
        case True
        obtain ts2 where "pool_at E H (drop_turn False (take_item addr q x tp1)) ts2 ns1 us (B(addr := xs)) (C(pi_TxHash x := None)) level e"
          using at_drop_turn [OF q(3), of False] by auto
        from less.hyps [OF down [OF True] this, of ign] obtain r tp' ts' ns' B' C' where
          "pop_account E Seq remain' ign (drop_turn False (take_item addr q x tp1)) = Some (Inr r, tp')" "pool_at E H tp' ts' ns' us B' C' level e"
          "pop_result E Seq (C(pi_TxHash x := None)) r C'" by blast
        then show ?thesis using p n(1) Some 2 q(1,2) True by (subst step) (fastforce simp: Let_def)
      next
        case False
        then show ?thesis using p [OF pop_result_none] n(1) Some 2 q by (subst step) (fastforce simp: Let_def)
      qed
    next
      case 3
      then have "\<not> iseq E x < Seq addr + 1" by simp
      then show ?thesis using wait [of "insert addr ign"] n(1) Some 3 q(1,2) by (subst step) (simp add: Let_def)
    next
      case 4
      have "due E Seq x" using x(1) 4 by (simp add: due_def)
      then show ?thesis using pop_result_item [of C "pi_TxHash x" x E Seq] x(2) n(1) Some 4 q by (subst step) (fastforce simp: Let_def)
    qed
  qed
qed

lemma UnsafePop_step:
  assumes "env_ok E H" "pool_rep E H tp ts ns us B C"
  shows "\<exists>r tp' C'. UnsafePop E Seq tp = Some (Inr r, tp') \<and> pool_ok E H tp' C' \<and> pop_result E Seq C r C'"
proof -
  obtain r tp1 ts1 where n: "next_turn tp = Some (Inr r, tp1)" "pool_at E H tp1 ts1 ns us B C level (if r = Some True then 1 else 0)"
    "\<forall>b. r = Some b \<longrightarrow> out (turnOutMap tp1) b = 0"
    using next_turn_returns [OF assms(2) [folded pool_at_rep]] by blast
  consider "r = None" | "r = Some False" | "r = Some True" by (cases r) auto
  then show ?thesis
  proof cases
    case 1
    then have "pool_ok E H tp1 C" using n(2) unfolding pool_ok_def by (auto simp: pool_at_rep)
    then show ?thesis using n(1) 1 pop_result_none [of E Seq C] by (auto simp: UnsafePop_def)
  next
    case 2
    then have "pool_at E H tp1 ts1 ns us B C level 0" using n(2) by simp
    from pop_account_returns [OF assms(1) this, of Seq "int (queue_Size (numberQ tp1))" "{}"] obtain r' tp' C' where
      "pop_account E Seq (int (queue_Size (numberQ tp1))) {} tp1 = Some (Inr r', tp')" "pool_ok E H tp' C'" "pop_result E Seq C r' C'"
      unfolding pool_at_rep pool_ok_def by blast
    then show ?thesis using n(1) 2 by (auto simp: UnsafePop_def)
  next
    case 3
    then have at: "pool_at E H tp1 ts1 ns us B C level 1" and z: "out (turnOutMap tp1) True = 0" using n(2,3) by (auto split: if_splits)
    then have "us \<noteq> []" by (auto simp: pool_at_def)
    then obtain h i us' where us: "us = (h, i) # us'" by (cases us) auto
    have r: "keyed_rep (utxoQ tp1) ((h, i) # us')" using at unfolding us pool_at_def by blast
    obtain q where q: "LPop (utxoQ tp1) = Inr (Some i, q)" "keyed_rep q us'" using keyed_pop [OF r] by auto
    have d: "holds H us B C" "h = pi_TxHash i" "pn_account E (pi_Transaction i) = None" using at us by (auto simp: pool_at_def)
    have ci: "C (pi_TxHash i) = Some i" using holdsD(4) [OF d(1), of i] us d(2) by simp
    have "h \<notin> fst ` set us'" using keyed_rep_distinct [OF r] by simp
    then have "(k, x) \<in> set us' \<or> (\<exists>a. x \<in> set (B a)) \<longleftrightarrow> x \<noteq> i \<and> ((k, x) \<in> set us \<or> (\<exists>a. x \<in> set (B a)))" if "k = pi_TxHash x" for k x
      using that us d(2,3) at_items(1) [OF at, of x] by (force simp: image_iff)
    then have "holds H us' B (C(pi_TxHash i := None))" using holds_del [OF d(1), of i us' B] ci by simp
    then have "pool_at E H (forget_hash i (tp1\<lparr>utxoQ := q\<rparr>)) ts1 ns us' B (C(pi_TxHash i := None)) level 0"
      using at us q(2) by (auto simp: pool_at_def forget_hash_def fun_eq_iff)
    then have "pool_ok E H (forget_hash i (tp1\<lparr>utxoQ := q\<rparr>)) (C(pi_TxHash i := None))" unfolding pool_at_rep pool_ok_def by blast
    moreover have "UnsafePop E Seq tp = Some (Inr (Some i), forget_hash i (tp1\<lparr>utxoQ := q\<rparr>))" using n(1) 3 q(1) by (simp add: UnsafePop_def)
    moreover have "pop_result E Seq C (Some i) (C(pi_TxHash i := None))" using pop_result_item [of C "pi_TxHash i" i E Seq] ci d(3) by (simp add: due_def)
    ultimately show ?thesis by blast
  qed
qed

section \<open>Runs\<close>

datatype 'tx pool_op = PPush u8 u16 'tx "signature list" "public_hash list" | PRemove 'tx | PPop "address \<Rightarrow> u64"
datatype 'tx pool_out = Pushed "unit res" | Removed | Popped "'tx pool_item option"

fun pool_step :: "'tx pool_env \<Rightarrow> ('tx \<Rightarrow> hash256) \<Rightarrow> 'tx pool_op \<Rightarrow> 'tx tx_pool \<Rightarrow> ('tx pool_out res \<times> 'tx tx_pool) option" where
  "pool_step E H (PPush cid t tx sigs signers) tp = (case pool_Push E cid t (H tx) tx sigs signers tp of (r, tp) \<Rightarrow> Some (Inr (Pushed r), tp))"
| "pool_step E H (PRemove tx) tp = map_option (\<lambda>(r, tp). (bind_res r (\<lambda>_. Inr Removed), tp)) (pool_Remove E (H tx) tx tp)"
| "pool_step E H (PPop Seq) tp = map_option (\<lambda>(r, tp). (bind_res r (\<lambda>v. Inr (Popped v)), tp)) (UnsafePop E Seq tp)"

text \<open>A run ends with \<^const>\<open>None\<close> if an operation does not return, and with an error if one panics.\<close>

fun pool_run :: "'tx pool_env \<Rightarrow> ('tx \<Rightarrow> hash256) \<Rightarrow> 'tx pool_op list \<Rightarrow> 'tx tx_pool \<Rightarrow> ('tx pool_out list res \<times> 'tx tx_pool) option" where
  "pool_run E H [] tp = Some (Inr [], tp)"
| "pool_run E H (c # ops) tp =
     Option.bind (pool_step E H c tp) (\<lambda>(r, tp).
     case r of
       Inl e \<Rightarrow> Some (Inl e, tp)
     | Inr v \<Rightarrow> Option.bind (pool_run E H ops tp) (\<lambda>(vs, tp). Some (bind_res vs (\<lambda>vs. Inr (v # vs)), tp)))"

text \<open>The specification: a pool is a map from hashes to transactions.\<close>

fun pool_spec :: "'tx pool_env \<Rightarrow> ('tx \<Rightarrow> hash256) \<Rightarrow> 'tx pool_op \<Rightarrow> 'tx pool_out \<Rightarrow> (hash256 \<rightharpoonup> 'tx pool_item) \<Rightarrow> (hash256 \<rightharpoonup> 'tx pool_item) \<Rightarrow> bool" where
  "pool_spec E H (PPush cid t tx sigs signers) (Pushed r) C C' \<longleftrightarrow>
     (if H tx \<in> dom C then r = Inl ErrExistTransaction \<and> C' = C
      else if seq_taken E tx C then r = Inl ErrExistTransactionSeq \<and> C' = C
      else r = Inr () \<and> C' = C(H tx \<mapsto> \<lparr>pi_ChainID = cid, pi_TxType = t, pi_TxHash = H tx, pi_Transaction = tx, pi_Signatures = sigs, pi_Signers = signers\<rparr>))"
| "pool_spec E H (PRemove tx) Removed C C' \<longleftrightarrow>
     C' = (case pn_account E tx of None \<Rightarrow> C(H tx := None) | Some (addr, seq) \<Rightarrow> without_past E addr seq C)"
| "pool_spec E H (PPop Seq) (Popped r) C C' \<longleftrightarrow> pop_result E Seq C r C'"
| "pool_spec E H _ _ C C' \<longleftrightarrow> False"

inductive spec_run :: "'tx pool_env \<Rightarrow> ('tx \<Rightarrow> hash256) \<Rightarrow> 'tx pool_op list \<Rightarrow> 'tx pool_out list \<Rightarrow> (hash256 \<rightharpoonup> 'tx pool_item) \<Rightarrow> (hash256 \<rightharpoonup> 'tx pool_item) \<Rightarrow> bool"
  for E H where
  run_nil: "spec_run E H [] [] C C"
| run_cons: "pool_spec E H c v C C1 \<Longrightarrow> spec_run E H ops vs C1 C2 \<Longrightarrow> spec_run E H (c # ops) (v # vs) C C2"

lemma pool_step_spec:
  assumes "env_ok E H" "pool_ok E H tp C"
  shows "\<exists>v tp' C'. pool_step E H c tp = Some (Inr v, tp') \<and> pool_ok E H tp' C' \<and> pool_spec E H c v C C'"
proof -
  obtain ts ns us B where rep: "pool_rep E H tp ts ns us B C" using assms(2) by (auto simp: pool_ok_def)
  show ?thesis
  proof (cases c)
    case (PPush cid t tx sigs signers)
    obtain r tp' where r: "pool_Push E cid t (H tx) tx sigs signers tp = (r, tp')" by (rule prod.exhaust)
    show ?thesis using pool_Push_step [OF assms(1) rep refl r] r PPush by (auto split: if_splits)
  next
    case (PRemove tx)
    then show ?thesis using pool_Remove_step [OF assms(1) rep, of tx] by auto
  next
    case (PPop Seq)
    then show ?thesis using UnsafePop_step [OF assms(1) rep, of Seq] by auto
  qed
qed

lemma pool_run_spec:
  assumes "env_ok E H" "pool_ok E H tp C"
  shows "\<exists>vs tp' C'. pool_run E H ops tp = Some (Inr vs, tp') \<and> pool_ok E H tp' C' \<and> spec_run E H ops vs C C'"
  using assms(2)
proof (induction ops arbitrary: tp C)
  case Nil
  then show ?case by (auto intro: run_nil)
next
  case (Cons c ops)
  obtain v tp1 C1 where s: "pool_step E H c tp = Some (Inr v, tp1)" "pool_ok E H tp1 C1" "pool_spec E H c v C C1"
    using pool_step_spec [OF assms(1) Cons.prems, of c] by blast
  obtain vs tp2 C2 where r: "pool_run E H ops tp1 = Some (Inr vs, tp2)" "pool_ok E H tp2 C2" "spec_run E H ops vs C1 C2"
    using Cons.IH [OF s(2)] by blast
  have "pool_run E H (c # ops) tp = Some (Inr (v # vs), tp2)" using s(1) r(1) by simp
  then show ?case using r(2) run_cons [OF s(3) r(3)] by blast
qed

text \<open>
  C12. The pool implements its specification. From a new pool, every sequence of pushes, removals and pops returns without
  a panic, for every page the page pool hands out. The answers are those of a map from hashes to transactions: a
  push is refused exactly when the hash, or the sequence of the account, is there; a removal takes away the transaction, or
  those of the account with a smaller sequence; a pop takes away a transaction without an account or one with the
  next sequence of its account, or nothing, and besides only transactions whose sequence has passed. \<open>IsExist\<close>
  tells what is in the map.
\<close>

theorem pool_refines:
  assumes "env_ok E H"
  shows "\<exists>vs tp C. pool_run E H ops NewTransactionPool = Some (Inr vs, tp) \<and> spec_run E H ops vs Map.empty C \<and> (\<forall>h. IsExist h tp \<longleftrightarrow> h \<in> dom C)"
proof -
  obtain vs tp C where "pool_run E H ops NewTransactionPool = Some (Inr vs, tp)" "pool_ok E H tp C" "spec_run E H ops vs Map.empty C"
    using pool_run_spec [OF assms new_pool_ok, of ops] by blast
  then show ?thesis using IsExist_ok by blast
qed

section \<open>No transaction is delivered twice\<close>

fun pushes_of :: "('tx \<Rightarrow> hash256) \<Rightarrow> hash256 \<Rightarrow> 'tx pool_op list \<Rightarrow> 'tx pool_out list \<Rightarrow> nat" where
  "pushes_of H h (PPush _ _ tx _ _ # ops) (Pushed (Inr _) # vs) = (if H tx = h then 1 else 0) + pushes_of H h ops vs"
| "pushes_of H h (_ # ops) (_ # vs) = pushes_of H h ops vs"
| "pushes_of H h _ _ = 0"

fun pops_of :: "hash256 \<Rightarrow> 'tx pool_out list \<Rightarrow> nat" where
  "pops_of h (Popped (Some i) # vs) = (if pi_TxHash i = h then 1 else 0) + pops_of h vs"
| "pops_of h (_ # vs) = pops_of h vs"
| "pops_of h [] = 0"

definition hashed :: "(hash256 \<rightharpoonup> 'tx pool_item) \<Rightarrow> bool" where
  "hashed C \<longleftrightarrow> (\<forall>k i. C k = Some i \<longrightarrow> pi_TxHash i = k)"

definition held :: "hash256 \<Rightarrow> (hash256 \<rightharpoonup> 'tx pool_item) \<Rightarrow> nat" where
  "held h C = (if h \<in> dom C then 1 else 0)"

lemma held_sub: "C' \<subseteq>\<^sub>m C \<Longrightarrow> held h C' \<le> held h C"
  using map_le_implies_dom_le [of C' C] by (auto simp: held_def)

lemma hashed_sub: "hashed C \<Longrightarrow> C' \<subseteq>\<^sub>m C \<Longrightarrow> hashed C'"
  unfolding hashed_def map_le_def by (metis domI)

lemma pop_result_held:
  assumes "pop_result E Seq C r C'" "hashed C"
  shows "hashed C'" "pops_of h [Popped r] + held h C' \<le> held h C"
proof -
  have sub: "C' \<subseteq>\<^sub>m C" and item: "r = Some i \<Longrightarrow> \<exists>k. C k = Some i \<and> C' k = None" for i
    using assms(1) by (auto simp: pop_result_def map_le_def restrict_map_def split: option.splits if_splits)
  show "hashed C'" by (rule hashed_sub [OF assms(2) sub])
  show "pops_of h [Popped r] + held h C' \<le> held h C"
  proof (cases r)
    case (Some i)
    then obtain k where k: "C k = Some i" "C' k = None" using item by blast
    then have "pi_TxHash i = k" using assms(2) by (simp add: hashed_def)
    then show ?thesis using k Some map_le_implies_dom_le [OF sub] by (auto simp: held_def)
  qed (use held_sub [OF sub] in simp)
qed

lemma without_past_sub: "without_past E addr seq C \<subseteq>\<^sub>m C"
  by (auto simp: map_le_def without_past_def split: option.splits if_splits)

lemma spec_run_held: "spec_run E H ops vs C C' \<Longrightarrow> hashed C \<Longrightarrow> pops_of h vs + held h C' \<le> pushes_of H h ops vs + held h C"
proof (induction rule: spec_run.induct)
  case (run_cons c v C C1 ops vs C2)
  have "hashed C1 \<and> pops_of h (v # vs) + held h C1 \<le> pushes_of H h (c # ops) (v # vs) - pushes_of H h ops vs + pops_of h vs + held h C
     \<and> pushes_of H h ops vs \<le> pushes_of H h (c # ops) (v # vs)"
  proof (cases c)
    case (PPush cid t tx sigs signers)
    then obtain r where v: "v = Pushed r" using run_cons.hyps(1) by (cases v) auto
    show ?thesis using run_cons.hyps(1) run_cons.prems PPush v by (auto simp: hashed_def held_def split: if_splits)
  next
    case (PRemove tx)
    then have v: "v = Removed" using run_cons.hyps(1) by (cases v) auto
    have "C1 \<subseteq>\<^sub>m C" using run_cons.hyps(1) PRemove v without_past_sub [of E _ _ C] by (auto simp: map_le_def split: option.splits if_splits)
    then show ?thesis using PRemove v held_sub [of C1 C h] hashed_sub [OF run_cons.prems] by simp
  next
    case (PPop Seq)
    then obtain r where v: "v = Popped r" using run_cons.hyps(1) by (cases v) auto
    then have "pop_result E Seq C r C1" using run_cons.hyps(1) PPop by simp
    then show ?thesis using pop_result_held [of E Seq C r C1] run_cons.prems PPop v by (cases r) fastforce+
  qed
  then show ?case using run_cons.IH by linarith
qed simp

text \<open>
  C13. The pool delivers nothing twice. In every run from a new pool, the number of times a transaction is popped, counting one
  more if the pool still holds it, is at most the number of times it was accepted.
\<close>

theorem pool_delivers_once:
  assumes "env_ok E H" "pool_run E H ops NewTransactionPool = Some (Inr vs, tp)"
  shows "pops_of h vs + (if IsExist h tp then 1 else 0) \<le> pushes_of H h ops vs"
proof -
  obtain vs' tp' C where r: "pool_run E H ops NewTransactionPool = Some (Inr vs', tp')" "pool_ok E H tp' C" "spec_run E H ops vs' Map.empty C"
    using pool_run_spec [OF assms(1) new_pool_ok, of ops] by blast
  then have "vs' = vs" "tp' = tp" using assms(2) by auto
  then show ?thesis using spec_run_held [OF r(3), of h] IsExist_ok [OF r(2), of h] by (simp add: hashed_def held_def)
qed

section \<open>Termination\<close>

lemma Pop_size: "Pop q = (Some x, put, q') \<Longrightarrow> queue_Size q' = queue_Size q - 1"
  by (auto simp: Pop_def queue_Size_def split: if_splits prod.splits)

lemma next_turn_ends: "\<exists>r tp'. next_turn tp = Some (r, tp')"
proof (induction "queue_Size (turnQ tp)" arbitrary: tp rule: less_induct)
  case less
  obtain v put q where p: "Pop (turnQ tp) = (v, put, q)" by (rule prod_cases3)
  show ?case
  proof (cases "queue_Size (turnQ tp) = 0 \<or> v = None")
    case False
    then obtain t where t: "v = Some t" by auto
    have "queue_Size q < queue_Size (turnQ tp)" using Pop_size [of "turnQ tp" t put q] p t False by simp
    then show ?thesis using less [of "tp\<lparr>turnQ := q, turnOutMap := dec_out t (turnOutMap tp)\<rparr>"] p t by (subst next_turn.simps) (simp add: Let_def)
  qed (use p in \<open>subst next_turn.simps; auto\<close>)
qed

lemma next_number_ends:
  "\<exists>r remain' tp'. next_number remain tp = Some (r, remain', tp') \<and> (\<forall>a. r = Inr (Some a) \<longrightarrow> remain' < remain)"
proof (induction "queue_Size (numberQ tp)" arbitrary: remain tp rule: less_induct)
  case less
  obtain v put q where p: "Pop (numberQ tp) = (v, put, q)" by (rule prod_cases3)
  show ?case
  proof (cases "queue_Size (numberQ tp) = 0 \<or> v = None")
    case False
    then obtain a where a: "v = Some a" by auto
    have "queue_Size q < queue_Size (numberQ tp)" using Pop_size [of "numberQ tp" a put q] p a False by simp
    then obtain r remain' tp' where i: "next_number (remain - 1) (tp\<lparr>numberQ := q, numberOutMap := dec_out a (numberOutMap tp)\<rparr>) = Some (r, remain', tp')"
      "\<forall>a. r = Inr (Some a) \<longrightarrow> remain' < remain - 1"
      using less [of "tp\<lparr>numberQ := q, numberOutMap := dec_out a (numberOutMap tp)\<rparr>" "remain - 1"] by auto
    show ?thesis
    proof (cases "0 < out (numberOutMap tp) a")
      case True
      then have "next_number remain tp = Some (r, remain', tp')" using p a False i(1) by (subst next_number.simps) (simp add: Let_def)
      then show ?thesis using i(2) by (intro exI [of _ r] exI [of _ remain'] exI [of _ tp']) auto
    qed (use p a False in \<open>subst next_number.simps; simp add: Let_def\<close>)
  qed (use p in \<open>subst next_number.simps; auto\<close>)
qed

lemma pop_account_ends: "\<exists>r tp'. pop_account E Seq remain ign tp = Some (r, tp')"
proof (induction "nat remain" arbitrary: remain tp ign rule: less_induct)
  case less
  obtain r remain' tp1 where n: "next_number remain tp = Some (r, remain', tp1)" "\<forall>a. r = Inr (Some a) \<longrightarrow> remain' < remain"
    using next_number_ends [of remain tp] by blast
  have "\<exists>r tp'. pop_account E Seq remain' ign' tp2 = Some (r, tp')" if "0 < remain'" "r = Inr (Some a)" for a ign' tp2
    using less [of remain' ign' tp2] n(2) that by auto
  then show ?case using n(1) by (subst pop_account.simps) (auto simp: Let_def split: sum.splits option.splits)
qed

lemma remove_loop_ends: "\<exists>r q' tp'. remove_loop E addr seq q tp = Some (r, q', tp')"
proof (induction "sq_size q" arbitrary: q tp rule: less_induct)
  case less
  show ?case
  proof (cases "sq_size q = 0")
    case False
    then have "sq_size (snd (sq_popInternal q)) < sq_size q" using sq_popInternal_size [of q] by simp
    then show ?thesis using less by (subst remove_loop.simps) (auto split: sum.splits)
  qed (subst remove_loop.simps, simp)
qed

text \<open>
  C14. Every call returns. In any state of the pool, whatever its queues, counters and buckets hold, a pop and a removal
  end, although the loop of a pop puts addresses back into the queue that it reads: it counts down the number of addresses
  that were queued at its start.
\<close>

theorem pool_terminates:
  "(\<exists>r tp'. UnsafePop E Seq tp = Some (r, tp')) \<and> (\<exists>r tp'. pool_Remove E h t tp = Some (r, tp'))"
proof
  obtain r tp1 where "next_turn tp = Some (r, tp1)" using next_turn_ends by blast
  then show "\<exists>r tp'. UnsafePop E Seq tp = Some (r, tp')"
    using pop_account_ends [of E Seq _ "{}" tp1] by (auto simp: UnsafePop_def split: sum.splits option.splits bool.splits)
  show "\<exists>r tp'. pool_Remove E h t tp = Some (r, tp')"
  proof (cases "pn_account E t")
    case None
    then show ?thesis by (auto simp: pool_Remove_def Let_def split: option.splits prod.splits)
  next
    case (Some a)
    obtain addr seq where a: "a = (addr, seq)" by (rule prod.exhaust)
    show ?thesis
    proof (cases "bucketMap tp addr")
      case q: (Some q)
      obtain r q' tp' where "remove_loop E addr seq q tp = Some (r, q', tp')" using remove_loop_ends by blast
      then show ?thesis using Some a q by (cases r) (simp_all add: pool_Remove_def)
    qed (use Some a in \<open>simp add: pool_Remove_def\<close>)
  qed
qed

section \<open>A small pool\<close>

text \<open>
  A transaction is its own hash; the first byte is 0 for a transaction without an account, otherwise the address and the
  sequence follow.
\<close>

definition env4 :: "bytes pool_env" where
  "env4 = \<lparr>pn_account = (\<lambda>tx. if hd tx = 0 then None else Some ([tx ! 1], ucast (tx ! 2))), pn_turn_page = (\<lambda>_. newPage), pn_number_page = (\<lambda>_. newPage)\<rparr>"

definition push4 :: "bytes \<Rightarrow> bytes pool_op" where "push4 tx = PPush 1 1 tx [] []"

lemma env4_ok: "env_ok env4 (\<lambda>tx. tx)"
  by (simp add: env_ok_def env4_def)

declare next_turn.simps [code] next_number.simps [code] pop_account.simps [code] remove_loop.simps [code]


lemma run4:
  "map_option fst (pool_run env4 (\<lambda>tx. tx) [push4 [1, 1, 2], push4 [1, 1, 1], PPop (\<lambda>_. 0), PPop (\<lambda>_. 0)] NewTransactionPool)
   = Some (Inr [Pushed (Inr ()), Pushed (Inr ()),
       Popped (Some \<lparr>pi_ChainID = 1, pi_TxType = 1, pi_TxHash = [1, 1, 1], pi_Transaction = [1, 1, 1], pi_Signatures = [], pi_Signers = []\<rparr>), Popped None])"
  by code_simp

theorem pool_refines_witness:
  "\<exists>vs tp C. pool_run env4 (\<lambda>tx. tx) [push4 [1, 1, 2], push4 [1, 1, 1], PPop (\<lambda>_. 0), PPop (\<lambda>_. 0)] NewTransactionPool = Some (Inr vs, tp)
     \<and> spec_run env4 (\<lambda>tx. tx) [push4 [1, 1, 2], push4 [1, 1, 1], PPop (\<lambda>_. 0), PPop (\<lambda>_. 0)] vs Map.empty C \<and> length vs = 4 \<and> (\<forall>h. IsExist h tp \<longleftrightarrow> h \<in> dom C)"
  using pool_refines [OF env4_ok, of "[push4 [1, 1, 2], push4 [1, 1, 1], PPop (\<lambda>_. 0), PPop (\<lambda>_. 0)]"] run4 by auto

theorem pool_delivers_once_witness:
  "\<exists>vs tp. pool_run env4 (\<lambda>tx. tx) [push4 [1, 1, 2], push4 [1, 1, 1], PPop (\<lambda>_. 0), PPop (\<lambda>_. 0)] NewTransactionPool = Some (Inr vs, tp)
     \<and> pops_of [1, 1, 1] vs = 1 \<and> \<not> IsExist [1, 1, 1] tp"
proof -
  let ?ops = "[push4 [1, 1, 2], push4 [1, 1, 1], PPop (\<lambda>_. 0), PPop (\<lambda>_. 0)]"
  obtain vs tp where r: "pool_run env4 (\<lambda>tx. tx) ?ops NewTransactionPool = Some (Inr vs, tp)"
    "vs = [Pushed (Inr ()), Pushed (Inr ()),
       Popped (Some \<lparr>pi_ChainID = 1, pi_TxType = 1, pi_TxHash = [1, 1, 1], pi_Transaction = [1, 1, 1], pi_Signatures = [], pi_Signers = []\<rparr>), Popped None]"
    using run4 by auto
  have "pops_of [1, 1, 1] vs + (if IsExist [1, 1, 1] tp then 1 else 0) \<le> pushes_of (\<lambda>tx. tx) [1, 1, 1] ?ops vs"
    by (rule pool_delivers_once [OF env4_ok r(1)])
  then show ?thesis using r by (intro exI [of _ vs] exI [of _ tp]) (auto simp: push4_def split: if_splits)
qed

end
