(* ===== verification/Spec2Isabelle.thy ===== *)
theory Spec2Isabelle
  imports Vault_Locked Store_Laws Chain_Creator Pof_Net Tx_Pool_Laws
begin

text \<open>
  Verification of a FLETA test-network node (a block chain in Go).

  \<^bold>\<open>The program.\<close> Formulators create blocks, observers vote on them, and every node executes them. A block holds
  transactions of several processes (vault, formulator, payment, gateway, admin), which read and write accounts and data
  through a context: a stack of snapshots over a loader. The chain checks the header and the signatures, executes the
  transactions on a context, compares the context hash, and hands block and context to the store, which appends the
  block to a log of files and applies the context to a key-value database. The consensus keeps a rank table that
  says whose turn it is. Queues and a pool hold transactions and blocks on their way.

  \<^bold>\<open>Conventions.\<close> Integers of a width are words, amounts (\<open>big.Int\<close>) are \<open>int\<close>, byte slices and arrays are lists of
  bytes, Go maps are \<open>\<rightharpoonup>\<close> or association lists where their order matters. A fallible call returns \<open>error + 'a\<close>; \<open>Panic\<close>
  is a run-time panic. State is passed explicitly: \<open>'a cm = ctx \<Rightarrow> 'a res \<times> ctx\<close> for code over a context. The iteration order of
  a Go map and the schedule of goroutines are arguments, quantified in the theorems. Code outside the
  repository (SHA-256, key recovery, base58, message-pack, gzip, the tree library) is an argument; what is used of it is a
  hypothesis such as \<open>wire_ok\<close>, \<open>item_ok\<close> or \<open>llrb_ok\<close>, instantiated in the witnesses. A \<open>sync.Mutex\<close> serialises the
  operations of an object, so each operation is one step.

  \<^bold>\<open>Theories.\<close>
  \<^item> \<open>Prelude\<close>: types, errors, slices, \<open>sort.Search\<close>. \<open>Codec\<close>: byte conversions, identifiers, addresses
    (\<open>common/address.go\<close>, \<open>common/util\<close>, \<open>core/types/util.go\<close>). \<open>Amount\<close>: \<open>common/amount\<close>. \<open>Hashing\<close>: \<open>common/hash\<close> and the
    level root of \<open>core/chain/util.go\<close>, for every schedule of its goroutines. \<open>Keys\<close>: keys, signatures, majorities
    (locale \<open>quorums\<close>) and the type factory.
  \<^item> \<open>Queues\<close>, \<open>Linked_Queue\<close>, \<open>Sorted_Queue\<close>: \<open>common/queue\<close>, each refining a list. \<open>Tx_Pool\<close>, \<open>Tx_Pool_Rep\<close>, \<open>Tx_Pool_Laws\<close>:
    \<open>core/txpool\<close>, refining a map from hashes to transactions.
  \<^item> \<open>Types\<close>, \<open>Context\<close>: accounts, events and the context of \<open>core/types\<close>. \<open>Context_Views\<close>, \<open>Context_Laws\<close>, \<open>Context_Runs\<close>:
    what a context shows as an abstract state, and the effect of every operation, snapshot, revert and commit on it.
    \<open>Context_Obs\<close>: operations do not depend on what the cache happens to hold. \<open>Ordered_Maps\<close>: the \<open>map_*.go\<close> files.
    \<open>Context_Hash\<close>: the context hash.
  \<^item> \<open>Process_Base\<close>, \<open>Vault\<close>, \<open>Vault_Laws\<close>, \<open>Vault_Txs\<close>, \<open>Vault_Locked\<close>: the context wrapper, \<open>process/admin\<close> and
    \<open>process/vault\<close> (locale \<open>amount_cells\<close> for balances and fees).
  \<^item> \<open>Pile\<close> to \<open>Pile_DB\<close>: the block log of \<open>core/pile\<close> with torn writes (locale \<open>block_log\<close>). \<open>Block\<close>: the block encoding.
    \<open>Backend\<close>, \<open>Store\<close>, \<open>Store_Laws\<close>: \<open>core/backend\<close> as the store uses it, \<open>core/chain/store.go\<close>, and that storing a block makes
    the database show the state of the context.
  \<^item> \<open>Chain\<close>, \<open>Chain_Sigs\<close>, \<open>Chain_Laws\<close>, \<open>Chain_Creator\<close>: \<open>core/chain/chain.go\<close> and \<open>block_creator.go\<close>.
  \<^item> \<open>Rank_Table\<close>, \<open>Rank_Laws\<close>: \<open>pof/rank.go\<close> and \<open>pof/rank_table.go\<close>. \<open>Pof\<close>, \<open>Pof_Laws\<close>, \<open>Pof_Net\<close>: \<open>pof/consensus.go\<close> and
    \<open>consensus_method.go\<close> as the consensus of the chain: restart, and that a fork names an observer who signed twice.

  \<^bold>\<open>Bounds.\<close> \<open>IterBlockAfterContext\<close> is a partial function, since its callback may keep the loop going; the loops of the
  transaction pool are partial functions that are proved to end. All other loops are recursions over data. Heights are 32-bit words; statements that need a larger height to be the next one say so.

  \<^bold>\<open>Not modelled.\<close> Network code, timers, HTTP and logging (\<open>service\<close>, \<open>common/rlog\<close>, \<open>cmd\<close>); cryptographic primitives
  (\<open>common/crypto\<close>); the vendored database and configuration parser; the reflection layer of \<open>encoding\<close>.
\<close>

end
